(* ===== verification/Prelude.thy ===== *)
theory Prelude
  imports Main "HOL-Library.Word" "HOL-Library.Multiset"
begin

unbundle bit_operations_syntax

text \<open>
  Shared vocabulary of the asabru-engine development.

  \<^item> \<open>u8\<close>, \<open>u16\<close>, \<open>u32\<close>, \<open>u64\<close> are the fixed-width integers of the C++ code; a byte string is
    a list of \<open>u8\<close>.
  \<^item> \<open>fault\<close> names the ways in which the C++ code leaves defined behaviour. A definition of type
    \<open>fault + 'a\<close> yields \<open>Inl\<close> exactly where the code would read or write out of bounds, use a
    dead pointer, and so on: undefined behaviour is a value of the model, never an unspecified one.
  \<^item> \<open>outcome\<close> separates a normal return from a C++ exception derived from
    \<open>std::exception\<close>; the state reached when the exception leaves a function is kept beside it.
  \<^item> \<open>fbind\<close> sequences two computations that may fault.
\<close>

type_synonym u8 = "8 word"
type_synonym u16 = "16 word"
type_synonym u32 = "32 word"
type_synonym u64 = "64 word"
type_synonym bytes = "u8 list"

datatype fault =
    OutOfBounds      \<comment> \<open>a read or write outside the object it is made through\<close>
  | NullDeref        \<comment> \<open>a member access through a null pointer\<close>
  | UseAfterFree     \<comment> \<open>a use or a second release of a released object\<close>
  | InvalidFree      \<comment> \<open>a release that does not match the allocation, as \<open>free\<close> of static storage\<close>
  | Uninitialised    \<comment> \<open>a use of a variable that was never given a value\<close>

datatype 'a outcome = Ret 'a | Throw string

text \<open>
  A pointer field of a C structure: never set, null, or pointing to an object. (The other fields that
  some constructor of a structure leaves unset are options.)
\<close>

datatype 'a slot = Indeterminate | Null | Ptr 'a

definition deref :: "'a slot \<Rightarrow> fault + 'a" where
  "deref p = (case p of Indeterminate \<Rightarrow> Inl Uninitialised | Null \<Rightarrow> Inl NullDeref | Ptr a \<Rightarrow> Inr a)"

named_theorems fault_simps \<open>rewriting of sequenced computations that may fault\<close>
named_theorems wire_simps \<open>evaluation of the ClickHouse wire buffers\<close>
named_theorems pool_simps \<open>bookkeeping of the connection pool\<close>
named_theorems sock_simps \<open>evaluation of the socket operations\<close>

section \<open>Sequencing computations that may fault\<close>

definition fbind :: "fault + 'a \<Rightarrow> ('a \<Rightarrow> fault + 'b) \<Rightarrow> fault + 'b" where
  "fbind m f = (case m of Inl e \<Rightarrow> Inl e | Inr a \<Rightarrow> f a)"

lemma fbind_Inl [simp, fault_simps]: "fbind (Inl e) f = Inl e"
  by (simp add: fbind_def)

lemma fbind_Inr [simp, fault_simps]: "fbind (Inr a) f = f a"
  by (simp add: fbind_def)

lemma fbind_eq_Inr_iff: "fbind m f = Inr b \<longleftrightarrow> (\<exists>a. m = Inr a \<and> f a = Inr b)"
  by (cases m) auto

lemma fbind_eq_Inl_iff:
  "fbind m f = Inl e \<longleftrightarrow> m = Inl e \<or> (\<exists>a. m = Inr a \<and> f a = Inl e)"
  by (cases m) auto

lemma fbind_assoc: "fbind (fbind m f) g = fbind m (\<lambda>a. fbind (f a) g)"
  by (cases m) auto

lemma fbind_cong [fundef_cong]:
  "m = m' \<Longrightarrow> (\<And>a. m' = Inr a \<Longrightarrow> f a = f' a) \<Longrightarrow> fbind m f = fbind m' f'"
  by (cases m') auto

lemmas fbind_iffs = fbind_eq_Inr_iff fbind_eq_Inl_iff

text \<open>Running a list of steps, each of which may fault, from left to right.\<close>

fun fold_fault :: "('x \<Rightarrow> 's \<Rightarrow> fault + 's) \<Rightarrow> 'x list \<Rightarrow> 's \<Rightarrow> fault + 's" where
  "fold_fault f [] s = Inr s"
| "fold_fault f (x # xs) s = fbind (f x s) (fold_fault f xs)"

lemma fold_fault_append:
  "fold_fault f (xs @ ys) s = fbind (fold_fault f xs s) (fold_fault f ys)"
proof (induction xs arbitrary: s)
  case (Cons x xs)
  then have "fold_fault f (xs @ ys) = (\<lambda>a. fbind (fold_fault f xs a) (fold_fault f ys))"
    by (intro ext)
  then show ?case by (simp add: fbind_assoc)
qed simp

section \<open>Small numbers in signed machine words\<close>

lemma sint_of_nat_64:
  assumes "n < 2 ^ 63" shows "sint (word_of_nat n :: u64) = int n"
proof -
  have "int n < 2 ^ 63" using assms by (metis of_nat_less_iff of_nat_numeral of_nat_power)
  moreover have "- (2 ^ 63) \<le> int n" by simp
  ultimately show ?thesis by (simp add: signed_of_nat signed_take_bit_int_eq_self)
qed

lemma sint_of_nat_32:
  assumes "n < 2 ^ 31" shows "sint (word_of_nat n :: u32) = int n"
proof -
  have "int n < 2 ^ 31" using assms by (metis of_nat_less_iff of_nat_numeral of_nat_power)
  moreover have "- (2 ^ 31) \<le> int n" by simp
  ultimately show ?thesis by (simp add: signed_of_nat signed_take_bit_int_eq_self)
qed

lemma sint_ucast_small: "unat (len :: u64) < 2 ^ 31 \<Longrightarrow> sint (ucast len :: u32) = int (unat len)"
proof -
  assume small: "unat len < 2 ^ 31"
  then have "int (unat len) < int (2 ^ 31)" by (simp only: of_nat_less_iff)
  then have "uint len < 2 ^ 31" by simp
  have "uint (ucast len :: u32) = uint len"
    using \<open>uint len < 2^31\<close> by (simp add: unsigned_ucast_eq take_bit_int_eq_self)
  then have "sint (ucast len :: u32) = signed_take_bit 31 (uint len)"
    by (simp add: sint_uint)
  also have "\<dots> = uint len"
    using \<open>uint len < 2 ^ 31\<close> uint_ge_0 [of len]
    by (intro signed_take_bit_int_eq_self) linarith+
  finally show ?thesis by simp
qed

section \<open>Lists, prefixes and C strings\<close>

lemma take_drop_Suc:
  "n < length xs \<Longrightarrow> drop n xs = xs ! n # drop (Suc n) xs"
  by (simp add: Cons_nth_drop_Suc)

lemma drop_eq_Cons_length: "drop n xs = y # ys \<Longrightarrow> n < length xs"
  by (metis drop_all list.distinct(1) not_less)

lemma drop_eq_Cons_nth: "drop n xs = y # ys \<Longrightarrow> xs ! n = y"
  by (metis drop_eq_Cons_length list.inject take_drop_Suc)

lemma drop_eq_Cons_Suc: "drop n xs = y # ys \<Longrightarrow> drop (Suc n) xs = ys"
  by (metis drop_eq_Cons_length list.inject take_drop_Suc)

lemma find_append: "find P (xs @ ys) = (case find P xs of None \<Rightarrow> find P ys | Some x \<Rightarrow> Some x)"
  by (induction xs) simp_all

text \<open>
  \<open>c_str\<close> of a string read as a NUL-terminated C string: everything before the first NUL.
  \<open>strcpy\<close> into an array of \<open>cap\<close> bytes writes that prefix and its terminator, and overruns the
  array when they do not fit.
\<close>

definition c_prefix :: "'a::zero list \<Rightarrow> 'a list" where
  "c_prefix s = takeWhile (\<lambda>c. c \<noteq> 0) s"

definition strcpy :: "nat \<Rightarrow> string \<Rightarrow> fault + string" where
  "strcpy cap s =
     (let t = takeWhile (\<lambda>c. c \<noteq> CHR 0x00) s
      in if length t < cap then Inr t else Inl OutOfBounds)"

lemma strcpy_ok:
  "length s < cap \<Longrightarrow> CHR 0x00 \<notin> set s \<Longrightarrow> strcpy cap s = Inr s"
proof -
  assume "length s < cap" and "CHR 0x00 \<notin> set s"
  then have "takeWhile (\<lambda>c. c \<noteq> CHR 0x00) s = s"
    by (auto simp: takeWhile_eq_all_conv)
  with \<open>length s < cap\<close> show ?thesis
    by (simp add: strcpy_def Let_def del: takeWhile_eq_all_conv)
qed

lemma strcpy_length: "strcpy cap s = Inr t \<Longrightarrow> length t < cap"
  by (auto simp: strcpy_def Let_def split: if_splits)

end
