(* ===== verification/Wire_Read.thy ===== *)
theory Wire_Read
  imports Prelude
begin

text \<open>
  \<open>ClickReadProtoBuffer\<close> of \<open>src/decoder/ClickHouse_Wire.h\<close> and \<open>ClickHouse_Wire.cpp\<close>: the
  cursor over a received packet. The class keeps a private copy of the packet (\<open>m_buffer\<close>), its
  length (\<open>m_len\<close>) and the position of the next byte (\<open>m_index\<close>). Out parameters are results of
  the definitions; a read that the code makes outside \<open>m_buffer\<close> is \<open>Inl OutOfBounds\<close>.

  The lemmas follow the abstraction \<open>rest\<close>, the bytes not yet consumed: every operation is
  described by what it does to \<open>rest\<close>. Note the convention of the class, which the lemmas make
  explicit: an operation answers \<open>true\<close> only if a further byte follows the one it consumed last.
\<close>

section \<open>State and operations\<close>

record rbuf =
  m_buffer :: bytes
  m_index :: int
  m_len :: int

definition MAX_VARINT_BYTES :: nat where
  "MAX_VARINT_BYTES = 10"

text \<open>
  The constructor. \<open>new char[len]\<close> throws for a negative length; the \<open>memcpy\<close> after it reads
  \<open>len\<close> bytes of the caller's buffer.
\<close>

definition new_rbuf :: "bytes \<Rightarrow> int \<Rightarrow> fault + rbuf outcome" where
  "new_rbuf buffer len =
     (if len < 0 then Inr (Throw ''std::bad_array_new_length'')
      else if length buffer < nat len then Inl OutOfBounds
      else Inr (Ret \<lparr>m_buffer = take (nat len) buffer, m_index = 0, m_len = len\<rparr>))"

definition ReadByte :: "rbuf \<Rightarrow> fault + (bool \<times> u8 \<times> rbuf)" where
  "ReadByte rb =
     (let i = m_index rb; rb' = rb\<lparr>m_index := i + 1\<rparr>
      in if 0 \<le> i \<and> nat i < length (m_buffer rb)
         then Inr (m_index rb' < m_len rb', m_buffer rb ! nat i, rb')
         else Inl OutOfBounds)"

definition ReadBuffer :: "int \<Rightarrow> rbuf \<Rightarrow> fault + (bool \<times> bytes \<times> rbuf)" where
  "ReadBuffer sz rb =
     (let i = m_index rb; rb' = rb\<lparr>m_index := i + sz\<rparr>
      in if 0 \<le> i \<and> 0 \<le> sz \<and> nat i + nat sz \<le> length (m_buffer rb)
         then Inr (m_index rb' < m_len rb', take (nat sz) (drop (nat i) (m_buffer rb)), rb')
         else Inl OutOfBounds)"

text \<open>\<open>ReadAll\<close> narrows its \<open>size_t\<close> argument to the \<open>int\<close> that \<open>ReadBuffer\<close> takes.\<close>

definition ReadAll :: "u64 \<Rightarrow> rbuf \<Rightarrow> fault + (bool \<times> bytes \<times> rbuf)" where
  "ReadAll len rb = ReadBuffer (sint (ucast len :: u32)) rb"

text \<open>
  The loop of \<open>ReadVarint64\<close>, at iteration \<open>i\<close> with \<open>value\<close> the bits collected so far. The out
  parameter keeps the partial value when the loop gives up.
\<close>

function read_varint_loop :: "nat \<Rightarrow> u64 \<Rightarrow> rbuf \<Rightarrow> fault + (bool \<times> u64 \<times> rbuf)" where
  "read_varint_loop i value rb =
     (if i < MAX_VARINT_BYTES then
        fbind (ReadByte rb) (\<lambda>(ok, byte, rb').
          if \<not> ok then Inr (False, value, rb')
          else let value' = value OR push_bit (7 * i) (ucast (byte AND 0x7F))
               in if byte AND 0x80 = 0 then Inr (True, value', rb')
                  else read_varint_loop (Suc i) value' rb')
      else Inr (False, value, rb))"
  by pat_completeness auto
termination
  by (relation "measure (\<lambda>(i, _, _). MAX_VARINT_BYTES - i)") auto

declare read_varint_loop.simps [simp del]

definition ReadVarint64 :: "rbuf \<Rightarrow> fault + (bool \<times> u64 \<times> rbuf)" where
  "ReadVarint64 rb = read_varint_loop 0 0 rb"

definition ReadString :: "bytes \<Rightarrow> rbuf \<Rightarrow> fault + (bool \<times> bytes \<times> rbuf)" where
  "ReadString value rb =
     fbind (ReadVarint64 rb) (\<lambda>(ok, len, rb').
       if ok then
         if len > 0x00FFFFFF then Inr (False, value, rb') else ReadAll len rb'
       else Inr (False, value, rb'))"

text \<open>\<open>ReadFixed<T>\<close> reads the object representation of a \<open>T\<close>, \<open>sizeof(T)\<close> bytes.\<close>

definition ReadFixed :: "u64 \<Rightarrow> rbuf \<Rightarrow> fault + (bool \<times> bytes \<times> rbuf)" where
  "ReadFixed sizeof_T rb = ReadAll sizeof_T rb"

section \<open>Well-formed cursors\<close>

text \<open>
  What the constructor establishes and every operation keeps: the recorded length is the length of
  the copy, and the position is inside it or one past its end.
\<close>

definition rbuf_wf :: "rbuf \<Rightarrow> bool" where
  "rbuf_wf rb \<longleftrightarrow> m_len rb = int (length (m_buffer rb)) \<and> 0 \<le> m_index rb \<and> m_index rb \<le> m_len rb"

definition rest :: "rbuf \<Rightarrow> bytes" where
  "rest rb = drop (nat (m_index rb)) (m_buffer rb)"

definition advance :: "nat \<Rightarrow> rbuf \<Rightarrow> rbuf" where
  "advance n rb = rb\<lparr>m_index := m_index rb + int n\<rparr>"

lemma advance_0 [simp]: "advance 0 rb = rb"
  by (simp add: advance_def)

lemma advance_advance [simp]: "advance n (advance m rb) = advance (m + n) rb"
  by (simp add: advance_def)

lemma advance_wf [simp]: "rbuf_wf rb \<Longrightarrow> n \<le> length (rest rb) \<Longrightarrow> rbuf_wf (advance n rb)"
  by (auto simp: rbuf_wf_def rest_def advance_def)

lemma rest_advance [simp]: "rbuf_wf rb \<Longrightarrow> rest (advance n rb) = drop n (rest rb)"
  by (auto simp: rbuf_wf_def rest_def advance_def nat_add_distrib add.commute)

text \<open>The cursor at the start of a packet.\<close>

definition rbuf_of :: "bytes \<Rightarrow> rbuf" where
  "rbuf_of buf = \<lparr>m_buffer = buf, m_index = 0, m_len = int (length buf)\<rparr>"

lemma new_rbuf_of [simp]: "new_rbuf buf (int (length buf)) = Inr (Ret (rbuf_of buf))"
  by (simp add: new_rbuf_def rbuf_of_def)

lemma rbuf_of_wf [simp]: "rbuf_wf (rbuf_of buf)"
  by (simp add: rbuf_of_def rbuf_wf_def)

lemma rest_rbuf_of [simp]: "rest (rbuf_of buf) = buf"
  by (simp add: rbuf_of_def rest_def)

lemma new_rbuf_wf: "new_rbuf buf len = Inr (Ret rb) \<Longrightarrow> rbuf_wf rb"
  by (auto simp: new_rbuf_def rbuf_wf_def split: if_splits)

text \<open>Every byte access described through \<open>rest\<close>.\<close>

lemma ReadByte_rest:
  assumes "rbuf_wf rb"
  shows "ReadByte rb = (case rest rb of [] \<Rightarrow> Inl OutOfBounds
                        | b # bs \<Rightarrow> Inr (bs \<noteq> [], b, advance 1 rb))"
proof (cases "rest rb")
  case Nil
  with assms show ?thesis
    by (auto simp: ReadByte_def Let_def rbuf_wf_def rest_def)
next
  case (Cons b bs)
  then have len: "nat (m_index rb) < length (m_buffer rb)"
    and b: "m_buffer rb ! nat (m_index rb) = b"
    and bs: "drop (Suc (nat (m_index rb))) (m_buffer rb) = bs"
    unfolding rest_def by (rule drop_eq_Cons_length drop_eq_Cons_nth drop_eq_Cons_Suc)+
  have i: "0 \<le> m_index rb" and l: "m_len rb = int (length (m_buffer rb))"
    using assms by (simp_all add: rbuf_wf_def)
  have "bs \<noteq> [] \<longleftrightarrow> Suc (nat (m_index rb)) < length (m_buffer rb)"
    unfolding bs [symmetric] by (simp add: not_le)
  also have "\<dots> \<longleftrightarrow> m_index rb + 1 < m_len rb"
    using i l by linarith
  finally show ?thesis
    using len b i unfolding Cons by (simp add: ReadByte_def Let_def advance_def)
qed

lemma ReadBuffer_rest:
  assumes "rbuf_wf rb" and "0 \<le> sz"
  shows "ReadBuffer sz rb =
           (if nat sz \<le> length (rest rb)
            then Inr (nat sz < length (rest rb), take (nat sz) (rest rb), advance (nat sz) rb)
            else Inl OutOfBounds)"
proof -
  let ?i = "nat (m_index rb)" and ?n = "length (m_buffer rb)"
  have i: "0 \<le> m_index rb" "?i \<le> ?n" and l: "m_len rb = int ?n"
    using assms(1) by (auto simp: rbuf_wf_def)
  have len: "length (rest rb) = ?n - ?i"
    by (simp add: rest_def)
  have fits: "(?i + nat sz \<le> ?n) = (nat sz \<le> length (rest rb))"
    using i len by linarith
  have more: "(m_index rb + sz < m_len rb) = (nat sz < length (rest rb))"
    using i l len assms(2) by linarith
  have adv: "rb\<lparr>m_index := m_index rb + sz\<rparr> = advance (nat sz) rb"
    using assms(2) by (simp add: advance_def)
  have "ReadBuffer sz rb =
      (if ?i + nat sz \<le> ?n
       then Inr (m_index rb + sz < m_len rb, take (nat sz) (rest rb), advance (nat sz) rb)
       else Inl OutOfBounds)"
    using i(1) assms(2) unfolding ReadBuffer_def Let_def adv [symmetric] rest_def by simp
  then show ?thesis
    unfolding fits more .
qed

lemma ReadAll_rest:
  assumes "rbuf_wf rb" and "unat len < 2 ^ 31"
  shows "ReadAll len rb =
           (if unat len \<le> length (rest rb)
            then Inr (unat len < length (rest rb), take (unat len) (rest rb), advance (unat len) rb)
            else Inl OutOfBounds)"
  using ReadBuffer_rest [OF assms(1), of "int (unat len)"] sint_ucast_small [OF assms(2)]
  by (simp add: ReadAll_def)

end
