(* ===== verification/Wire_Write.thy ===== *)
theory Wire_Write
  imports Wire_Read
begin

text \<open>
  \<open>ClickWriteProtoBuffer\<close> of \<open>src/decoder/ClickHouse_Wire.cpp\<close>: the buffer a packet is assembled
  in. \<open>WriteBuffer\<close> copies at the write position without comparing it with the capacity, so a write
  past the end is \<open>Inl OutOfBounds\<close>. The interface the packet encoder relies on is the locale
  \<open>byte_sink\<close>: a write that fits appends to the content and uses up room, one that does not is out
  of bounds. It is interpreted on \<open>WriteAll\<close>.
\<close>

section \<open>State and operations\<close>

record wbuf =
  w_buffer :: bytes
  w_index :: int
  w_len :: int

definition new_wbuf :: "bytes \<Rightarrow> int \<Rightarrow> fault + wbuf outcome" where
  "new_wbuf buffer len =
     (if len < 0 then Inr (Throw ''std::bad_array_new_length'')
      else if length buffer < nat len then Inl OutOfBounds
      else Inr (Ret \<lparr>w_buffer = take (nat len) buffer, w_index = 0, w_len = len\<rparr>))"

text \<open>\<open>GetBuffer\<close> copies the written prefix into a caller's buffer of \<open>cap\<close> bytes.\<close>

definition GetBuffer :: "nat \<Rightarrow> wbuf \<Rightarrow> fault + (bool \<times> bytes \<times> int)" where
  "GetBuffer cap wb =
     (let n = w_index wb
      in if 0 \<le> n \<and> nat n \<le> length (w_buffer wb) \<and> nat n \<le> cap
         then Inr (True, take (nat n) (w_buffer wb), n)
         else Inl OutOfBounds)"

definition WriteBuffer :: "bytes \<Rightarrow> int \<Rightarrow> wbuf \<Rightarrow> fault + wbuf" where
  "WriteBuffer buff len wb =
     (let i = nat (w_index wb); n = nat len
      in if 0 \<le> w_index wb \<and> 0 \<le> len \<and> n \<le> length buff \<and> i + n \<le> length (w_buffer wb)
         then Inr (wb\<lparr>w_buffer := take i (w_buffer wb) @ take n buff @ drop (i + n) (w_buffer wb),
                      w_index := w_index wb + len\<rparr>)
         else Inl OutOfBounds)"

text \<open>As in the read buffer, the \<open>size_t\<close> length is narrowed to \<open>int\<close> on the way.\<close>

definition WriteAll :: "bytes \<Rightarrow> u64 \<Rightarrow> wbuf \<Rightarrow> fault + wbuf" where
  "WriteAll buf len wb = WriteBuffer buf (sint (ucast len :: u32)) wb"

definition WriteBytes :: "bytes \<Rightarrow> u64 \<Rightarrow> wbuf \<Rightarrow> fault + wbuf" where
  "WriteBytes buf len wb = WriteAll buf len wb"

text \<open>\<open>WriteFixed<T>\<close> writes the object representation of its argument.\<close>

definition WriteFixed :: "bytes \<Rightarrow> wbuf \<Rightarrow> fault + wbuf" where
  "WriteFixed object_bytes wb = WriteAll object_bytes (of_nat (length object_bytes)) wb"

text \<open>The loop of \<open>WriteVarint64\<close>; \<open>out\<close> is the filled part of the array \<open>bytes\<close>.\<close>

function write_varint_loop :: "nat \<Rightarrow> u64 \<Rightarrow> bytes \<Rightarrow> bytes" where
  "write_varint_loop i value out =
     (if i < MAX_VARINT_BYTES then
        let byte = ucast (value AND 0x7F) :: u8;
            byte = (if value > 0x7F then byte OR 0x80 else byte);
            out = out @ [byte];
            value = drop_bit 7 value
        in if value = 0 then out else write_varint_loop (Suc i) value out
      else out)"
  by pat_completeness auto
termination
  by (relation "measure (\<lambda>(i, _, _). MAX_VARINT_BYTES - i)") auto

declare write_varint_loop.simps [simp del]

definition varint_bytes :: "u64 \<Rightarrow> bytes" where
  "varint_bytes value = write_varint_loop 0 value []"

definition WriteVarint64 :: "u64 \<Rightarrow> wbuf \<Rightarrow> fault + wbuf" where
  "WriteVarint64 value wb =
     (let out = varint_bytes value in WriteAll out (of_nat (length out)) wb)"

definition WriteUInt64 :: "u64 \<Rightarrow> wbuf \<Rightarrow> fault + wbuf" where
  "WriteUInt64 value wb = WriteVarint64 value wb"

definition WriteString :: "bytes \<Rightarrow> wbuf \<Rightarrow> fault + wbuf" where
  "WriteString value wb =
     fbind (WriteVarint64 (of_nat (length value)) wb)
       (WriteAll value (of_nat (length value)))"

section \<open>The interface of an output buffer\<close>

locale byte_sink =
  fixes put :: "bytes \<Rightarrow> 's \<Rightarrow> fault + 's"
    and content :: "'s \<Rightarrow> bytes"
    and room :: "'s \<Rightarrow> nat"
    and valid :: "'s \<Rightarrow> bool"
    and limit :: nat
  assumes put_fits:
      "valid s \<Longrightarrow> length bs < limit \<Longrightarrow> length bs \<le> room s \<Longrightarrow>
       \<exists>s'. put bs s = Inr s' \<and> valid s' \<and> content s' = content s @ bs \<and>
            room s' = room s - length bs"
    and put_full:
      "valid s \<Longrightarrow> length bs < limit \<Longrightarrow> room s < length bs \<Longrightarrow> put bs s = Inl OutOfBounds"
begin

text \<open>A sequence of writes appends the concatenation, as long as it fits as a whole.\<close>

lemma puts_fit:
  assumes "valid s" and "\<forall>bs \<in> set bss. length bs < limit" and "length (concat bss) \<le> room s"
  shows "\<exists>s'. fold_fault put bss s = Inr s' \<and> valid s' \<and>
              content s' = content s @ concat bss \<and> room s' = room s - length (concat bss)"
  using assms
proof (induction bss arbitrary: s)
  case (Cons bs bss)
  then obtain s1 where s1: "put bs s = Inr s1" "valid s1" "content s1 = content s @ bs"
      "room s1 = room s - length bs"
    using put_fits [of s bs] by auto
  with Cons.prems Cons.IH [of s1] show ?case by auto
qed simp

lemma puts_full:
  assumes "valid s" and "\<forall>bs \<in> set bss. length bs < limit" and "room s < length (concat bss)"
  shows "fold_fault put bss s = Inl OutOfBounds"
  using assms
proof (induction bss arbitrary: s)
  case (Cons bs bss)
  show ?case
  proof (cases "length bs \<le> room s")
    case True
    with Cons.prems obtain s1 where s1: "put bs s = Inr s1" "valid s1"
        "room s1 = room s - length bs"
      using put_fits [of s bs] by auto
    with True Cons.prems Cons.IH [of s1] show ?thesis by auto
  next
    case False
    with Cons.prems put_full [of s bs] show ?thesis by simp
  qed
qed simp

lemma puts_iff:
  assumes "valid s" and "\<forall>bs \<in> set bss. length bs < limit"
  shows "(\<exists>s'. fold_fault put bss s = Inr s') \<longleftrightarrow> length (concat bss) \<le> room s"
  using puts_fit [OF assms] puts_full [OF assms]
  by (cases "length (concat bss) \<le> room s") (auto simp: not_le)

end

section \<open>The write buffer provides it\<close>

definition wbuf_wf :: "wbuf \<Rightarrow> bool" where
  "wbuf_wf wb \<longleftrightarrow> w_len wb = int (length (w_buffer wb)) \<and> 0 \<le> w_index wb \<and> w_index wb \<le> w_len wb"

definition written :: "wbuf \<Rightarrow> bytes" where
  "written wb = take (nat (w_index wb)) (w_buffer wb)"

definition room_left :: "wbuf \<Rightarrow> nat" where
  "room_left wb = nat (w_len wb - w_index wb)"

definition put_all :: "bytes \<Rightarrow> wbuf \<Rightarrow> fault + wbuf" where
  "put_all bs wb = WriteAll bs (of_nat (length bs)) wb"

lemma put_all_eq:
  assumes "length bs < 2 ^ 31"
  shows "put_all bs wb = WriteBuffer bs (int (length bs)) wb"
proof -
  have "unat (of_nat (length bs) :: u64) = length bs"
    using assms by (simp add: unat_of_nat take_bit_nat_eq_self)
  then show ?thesis
    using sint_ucast_small [of "of_nat (length bs)"] assms by (simp add: put_all_def WriteAll_def)
qed

lemma WriteBuffer_wf:
  assumes "wbuf_wf wb" and "int (length bs) \<le> w_len wb - w_index wb"
  shows "\<exists>wb'. WriteBuffer bs (int (length bs)) wb = Inr wb' \<and> wbuf_wf wb' \<and>
               written wb' = written wb @ bs \<and> room_left wb' = room_left wb - length bs"
proof -
  let ?i = "nat (w_index wb)" and ?k = "length (w_buffer wb)"
  have i: "0 \<le> w_index wb" "w_len wb = int ?k" "?i + length bs \<le> ?k" "?i \<le> ?k"
    using assms by (auto simp: wbuf_wf_def)
  let ?wb = "wb\<lparr>w_buffer := take ?i (w_buffer wb) @ bs @ drop (?i + length bs) (w_buffer wb),
               w_index := w_index wb + int (length bs)\<rparr>"
  have "WriteBuffer bs (int (length bs)) wb = Inr ?wb"
    using i by (simp add: WriteBuffer_def Let_def)
  moreover have "wbuf_wf ?wb"
    using i by (auto simp: wbuf_wf_def)
  moreover have "written ?wb = written wb @ bs"
    using i by (simp add: written_def nat_add_distrib)
  moreover have "room_left ?wb = room_left wb - length bs"
    by (simp add: room_left_def)
  ultimately show ?thesis by blast
qed

lemma WriteBuffer_full:
  assumes "wbuf_wf wb" and "w_len wb - w_index wb < int (length bs)"
  shows "WriteBuffer bs (int (length bs)) wb = Inl OutOfBounds"
  using assms by (auto simp: WriteBuffer_def Let_def wbuf_wf_def)

interpretation wb: byte_sink put_all written room_left wbuf_wf "2 ^ 31"
proof unfold_locales
  fix s bs
  assume "wbuf_wf s" "length (bs :: bytes) < 2 ^ 31" "length bs \<le> room_left s"
  moreover from this have "int (length bs) \<le> w_len s - w_index s"
    by (simp add: room_left_def wbuf_wf_def le_nat_iff)
  ultimately show "\<exists>s'. put_all bs s = Inr s' \<and> wbuf_wf s' \<and> written s' = written s @ bs \<and>
      room_left s' = room_left s - length bs"
    using WriteBuffer_wf [of s bs] put_all_eq [of bs s] by simp
next
  fix s bs
  assume "wbuf_wf s" "length (bs :: bytes) < 2 ^ 31" "room_left s < length bs"
  moreover from this have "w_len s - w_index s < int (length bs)"
    by (simp add: room_left_def wbuf_wf_def nat_less_iff)
  ultimately show "put_all bs s = Inl OutOfBounds"
    using WriteBuffer_full [of s bs] put_all_eq [of bs s] by simp
qed

definition wbuf_of :: "bytes \<Rightarrow> wbuf" where
  "wbuf_of buf = \<lparr>w_buffer = buf, w_index = 0, w_len = int (length buf)\<rparr>"

lemma new_wbuf_of [simp]: "new_wbuf buf (int (length buf)) = Inr (Ret (wbuf_of buf))"
  by (simp add: new_wbuf_def wbuf_of_def)

lemma wbuf_of_simps [simp]:
  "wbuf_wf (wbuf_of buf)" "written (wbuf_of buf) = []" "room_left (wbuf_of buf) = length buf"
  by (simp_all add: wbuf_of_def wbuf_wf_def written_def room_left_def)

lemma GetBuffer_written:
  assumes "wbuf_wf wb"
  shows "GetBuffer cap wb =
           (if length (written wb) \<le> cap
            then Inr (True, written wb, int (length (written wb))) else Inl OutOfBounds)"
  using assms by (auto simp: GetBuffer_def Let_def wbuf_wf_def written_def min_def)

text \<open>The operations of the class are sequences of writes through this interface.\<close>

lemma write_ops_put:
  "WriteVarint64 v wb = put_all (varint_bytes v) wb"
  "WriteUInt64 v wb = put_all (varint_bytes v) wb"
  "WriteString s wb = fold_fault put_all [varint_bytes (of_nat (length s)), s] wb"
  by (auto simp: WriteVarint64_def WriteUInt64_def WriteString_def put_all_def Let_def fbind_def
      split: sum.splits)

section \<open>Sequences of writes\<close>

text \<open>
  The write functions of the class as data: \<open>write_call\<close> performs one, and \<open>pieces\<close> are the blocks of
  bytes that it copies, one after the other.
\<close>

datatype write_op =
    OpBytes bytes
  | OpFixed bytes
  | OpVarint64 u64
  | OpUInt64 u64
  | OpString bytes

fun write_call :: "write_op \<Rightarrow> wbuf \<Rightarrow> fault + wbuf" where
  "write_call (OpBytes bs) wb = WriteBytes bs (of_nat (length bs)) wb"
| "write_call (OpFixed bs) wb = WriteFixed bs wb"
| "write_call (OpVarint64 v) wb = WriteVarint64 v wb"
| "write_call (OpUInt64 v) wb = WriteUInt64 v wb"
| "write_call (OpString s) wb = WriteString s wb"

fun pieces :: "write_op \<Rightarrow> bytes list" where
  "pieces (OpBytes bs) = [bs]"
| "pieces (OpFixed bs) = [bs]"
| "pieces (OpVarint64 v) = [varint_bytes v]"
| "pieces (OpUInt64 v) = [varint_bytes v]"
| "pieces (OpString s) = [varint_bytes (of_nat (length s)), s]"

lemma write_call_puts: "write_call c wb = fold_fault put_all (pieces c) wb"
  by (cases c)
    (auto simp: write_ops_put WriteBytes_def WriteFixed_def put_all_def fbind_def split: sum.splits)

lemma write_calls_put: "fold_fault write_call cs wb = fold_fault put_all (concat (map pieces cs)) wb"
  by (induction cs arbitrary: wb) (simp_all add: write_call_puts fold_fault_append fbind_def split: sum.splits)

end
