(* ===== verification/Wire_Varint.thy ===== *)
theory Wire_Varint
  imports Wire_Write
begin

text \<open>
  The variable-length integers of the ClickHouse protocol. \<open>leb128\<close> is the wire format on natural
  numbers: groups of seven bits, least significant first, with bit 7 set on every byte but the last.
  The write loop of \<open>WriteVarint64\<close> produces it, and the read loop of \<open>ReadVarint64\<close> inverts it up
  to the class's convention on the last byte of a packet.
\<close>

section \<open>The wire format\<close>

fun leb128 :: "nat \<Rightarrow> bytes" where
  "leb128 n = (if n < 128 then [word_of_nat n] else word_of_nat (n mod 128 + 128) # leb128 (n div 128))"

declare leb128.simps [simp del]

lemma leb128_small: "n < 128 \<Longrightarrow> leb128 n = [word_of_nat n]"
  by (subst leb128.simps) simp

lemma leb128_large:
  "128 \<le> n \<Longrightarrow> leb128 n = word_of_nat (n mod 128 + 128) # leb128 (n div 128)"
  by (subst leb128.simps) simp

lemma leb128_nonempty [simp]: "leb128 n \<noteq> []"
  by (subst leb128.simps) simp

text \<open>Of a byte, bit 7 says that more follow, and the low seven bits are the payload.\<close>

lemma unat_byte: "n < 256 \<Longrightarrow> unat (word_of_nat n :: u8) = n"
  by (simp add: unat_of_nat take_bit_nat_eq_self)

lemma unat_cont_byte: "unat (word_of_nat (n mod 128 + 128) :: u8) = n mod 128 + 128"
  by (rule unat_byte) (use mod_less_divisor [of 128 n] in linarith)

lemma unat_byte_lt [simp]: "unat (b :: u8) < 256"
  using unsigned_less [of b] by simp

lemma and_7F_mod: "(w :: 'a::len word) AND 0x7F = take_bit 7 w"
  by (simp add: take_bit_eq_mask mask_eq_exp_minus_1)

lemma unat_and_7F: "unat ((w :: 'a::len word) AND 0x7F) = unat w mod 128"
proof -
  have "unat (take_bit 7 w) = take_bit 7 (unat w)"
    by (fact unsigned_take_bit_eq)
  then show ?thesis
    unfolding and_7F_mod by (simp add: take_bit_eq_mod)
qed

lemma even_top_bit: "n < 256 \<Longrightarrow> even (n div 128) = (n < (128 :: nat))"
proof (cases "n < 128")
  case False
  assume "n < 256"
  with False have "n div 128 = 1" by (intro div_nat_eqI) auto
  with False show ?thesis by simp
qed simp

lemma byte_and_80: "((b :: u8) AND 0x80 = 0) = (unat b < 128)"
proof -
  have "(b AND 0x80 = 0) = (\<not> bit b 7)"
    using and_exp_eq_0_iff_not_bit [of b 7] by simp
  also have "\<dots> = (\<not> bit (unat b) 7)"
    by (simp add: bit_unsigned_iff)
  also have "\<dots> = even (unat b div 128)"
    by (simp add: bit_iff_odd)
  also have "\<dots> = (unat b < 128)"
    by (rule even_top_bit) simp
  finally show ?thesis .
qed

lemma low7_small: "(ucast ((v :: u64) AND 0x7F) :: u8) = word_of_nat (unat v mod 128)"
proof -
  have "(ucast (v AND 0x7F) :: u8) = word_of_nat (unat (v AND 0x7F))"
    by simp
  then show ?thesis
    unfolding unat_and_7F .
qed

lemma byte_or_80:
  assumes "m < 128"
  shows "(word_of_nat m :: u8) OR 0x80 = word_of_nat (m + 128)"
proof -
  have "(word_of_nat m :: u8) AND 0x80 = 0"
    using assms by (simp add: byte_and_80 unat_byte)
  then have "(word_of_nat m :: u8) OR 0x80 = word_of_nat m + 0x80"
    by (simp add: disjunctive_add_eq_or)
  then show ?thesis by simp
qed

section \<open>Writing\<close>

lemma write_loop_leb128:
  "i < MAX_VARINT_BYTES \<Longrightarrow> unat v < 2 ^ (7 * (MAX_VARINT_BYTES - i)) \<Longrightarrow>
   write_varint_loop i v out = out @ leb128 (unat v)"
proof (induction i v out rule: write_varint_loop.induct)
  case (1 i v out)
  let ?n = "unat v"
  have low: "(ucast (v AND 0x7F) :: u8) = word_of_nat (?n mod 128)"
    by (rule low7_small)
  have gt: "v > 0x7F \<longleftrightarrow> 128 \<le> ?n"
    by (auto simp: word_less_nat_alt)
  have dv: "unat (drop_bit 7 v) = ?n div 128"
    unfolding unat_drop_bit_eq by (simp add: drop_bit_eq_div)
  then have z: "drop_bit 7 v = 0 \<longleftrightarrow> ?n < 128"
    by (simp add: unat_eq_0 [symmetric] div_eq_0_iff)
  show ?case
  proof (cases "?n < 128")
    case True
    then show ?thesis
      using 1(2) gt z low by (simp add: write_varint_loop.simps leb128_small Let_def)
  next
    case False
    have "Suc i < MAX_VARINT_BYTES"
    proof (rule ccontr)
      assume "\<not> Suc i < MAX_VARINT_BYTES"
      with 1(2) have "MAX_VARINT_BYTES - i = 1" by simp
      with 1(3) False show False by simp
    qed
    moreover have "?n div 128 < 2 ^ (7 * (MAX_VARINT_BYTES - Suc i))"
    proof (rule less_mult_imp_div_less)
      from 1(2) have "7 * (MAX_VARINT_BYTES - i) = 7 * (MAX_VARINT_BYTES - Suc i) + 7"
        by simp
      with 1(3) show "?n < 2 ^ (7 * (MAX_VARINT_BYTES - Suc i)) * 128"
        by (simp add: power_add)
    qed
    ultimately have "write_varint_loop (Suc i) (drop_bit 7 v) (out @ [word_of_nat (?n mod 128 + 128)])
        = out @ [word_of_nat (?n mod 128 + 128)] @ leb128 (?n div 128)"
      using 1(1) [OF 1(2) refl refl refl refl] False gt z dv low byte_or_80 [of "?n mod 128"]
      by simp
    then show ?thesis
      using 1(2) False gt z low byte_or_80 [of "?n mod 128"]
      by (subst write_varint_loop.simps) (simp add: leb128_large Let_def)
  qed
qed

lemma varint_bytes_leb128: "varint_bytes v = leb128 (unat v)"
proof -
  have "unat v < 2 ^ 70"
    using unsigned_less [of v, where ?'a = nat] by simp
  then show ?thesis
    using write_loop_leb128 [of 0 v "[]"] by (simp add: varint_bytes_def MAX_VARINT_BYTES_def)
qed

section \<open>Reading\<close>

text \<open>
  \<open>groups_value\<close> is the number that the payloads of a byte sequence denote. One iteration of the
  read loop adds one group to it, modulo \<open>2 ^ 64\<close>.
\<close>

fun groups_value :: "bytes \<Rightarrow> nat" where
  "groups_value [] = 0"
| "groups_value (b # bs) = unat b mod 128 + 128 * groups_value bs"

lemma groups_value_append:
  "groups_value (xs @ ys) = groups_value xs + 2 ^ (7 * length xs) * groups_value ys"
  by (induction xs) (auto simp: algebra_simps power_add)

lemma groups_value_bound: "groups_value bs < 2 ^ (7 * length bs)"
proof (induction bs)
  case (Cons b bs)
  have "unat b mod 128 + 128 * groups_value bs < 128 * Suc (groups_value bs)"
    by simp
  also have "\<dots> \<le> 128 * 2 ^ (7 * length bs)"
    using Cons by (intro mult_le_mono2) simp
  finally show ?case by (simp add: power_add)
qed simp

lemma groups_value_leb128: "groups_value (leb128 n) = n"
proof (induction n rule: leb128.induct)
  case (1 n)
  show ?case
  proof (cases "n < 128")
    case True
    then show ?thesis by (simp add: leb128_small unat_byte)
  next
    case False
    then have "groups_value (leb128 n) = n mod 128 + 128 * groups_value (leb128 (n div 128))"
      by (simp add: leb128_large unat_cont_byte del: of_nat_add)
    also have "\<dots> = n"
      using 1 [OF False] by simp
    finally show ?thesis .
  qed
qed

lemma or_group:
  assumes "a < 2 ^ k"
  shows "(word_of_nat a :: u64) OR push_bit k (word_of_nat m) = word_of_nat (a + 2 ^ k * m)"
proof -
  have high: "\<not> bit a n" if "k \<le> n" for n
  proof -
    have "a < 2 ^ n"
      using assms that by (meson less_le_trans one_le_numeral power_increasing)
    then show ?thesis by (simp add: bit_iff_odd)
  qed
  have "(word_of_nat a :: u64) AND push_bit k (word_of_nat m) = 0"
    by (rule bit_word_eqI) (auto simp: bit_and_iff bit_push_bit_iff bit_of_nat_iff dest: high)
  then have "(word_of_nat a :: u64) OR push_bit k (word_of_nat m) =
      word_of_nat a + push_bit k (word_of_nat m)"
    by (simp add: disjunctive_add_eq_or)
  then show ?thesis
    by (simp add: push_bit_eq_mult mult.commute)
qed

lemma read_loop_Cons:
  assumes "rbuf_wf rb" and "rest rb = b # bs" and "i < MAX_VARINT_BYTES" and "a < 2 ^ (7 * i)"
  shows "read_varint_loop i (word_of_nat a) rb =
    (if bs = [] then Inr (False, word_of_nat a, advance 1 rb)
     else let a' = word_of_nat (a + 2 ^ (7 * i) * (unat b mod 128))
          in if unat b < 128 then Inr (True, a', advance 1 rb)
             else read_varint_loop (Suc i) a' (advance 1 rb))"
proof -
  have "(ucast (b AND 0x7F) :: u64) = word_of_nat (unat b mod 128)"
    by (simp flip: unat_and_7F)
  then have "(word_of_nat a :: u64) OR push_bit (7 * i) (ucast (b AND 0x7F)) =
      word_of_nat (a + 2 ^ (7 * i) * (unat b mod 128))"
    using or_group [OF assms(4), of "unat b mod 128"] by simp
  then show ?thesis
    using ReadByte_rest [OF assms(1)] assms(2,3)
    by (subst read_varint_loop.simps) (simp add: byte_and_80 Let_def)
qed

lemma read_loop_Nil:
  "rbuf_wf rb \<Longrightarrow> rest rb = [] \<Longrightarrow> i < MAX_VARINT_BYTES \<Longrightarrow>
   read_varint_loop i value rb = Inl OutOfBounds"
  using ReadByte_rest [of rb] by (subst read_varint_loop.simps) simp

lemma read_loop_stop: "MAX_VARINT_BYTES \<le> i \<Longrightarrow> read_varint_loop i value rb = Inr (False, value, rb)"
  by (subst read_varint_loop.simps) simp

text \<open>
  The whole loop, on each shape the unread bytes can have: a run of continuation bytes ended by a
  final byte that is, or is not, followed by more input; the tenth continuation byte; no input.
\<close>

abbreviation cont_bytes :: "bytes \<Rightarrow> bool" where
  "cont_bytes bs \<equiv> (\<forall>b \<in> set bs. 128 \<le> unat b)"

lemma read_loop_run:
  assumes "rbuf_wf rb" and "rest rb = cs @ t" and "cont_bytes cs" and "t \<noteq> []"
    and "i + length cs \<le> MAX_VARINT_BYTES" and "a < 2 ^ (7 * i)"
  shows "read_varint_loop i (word_of_nat a) rb =
    read_varint_loop (i + length cs) (word_of_nat (a + 2 ^ (7 * i) * groups_value cs))
      (advance (length cs) rb)"
  using assms
proof (induction cs arbitrary: i a rb)
  case (Cons b cs)
  let ?a = "a + 2 ^ (7 * i) * (unat b mod 128)"
  have a: "?a < 2 ^ (7 * Suc i)"
  proof -
    have "?a < 2 ^ (7 * i) * Suc (unat b mod 128)" using Cons.prems by simp
    also have "\<dots> \<le> 2 ^ (7 * i) * 128" by (intro mult_le_mono2) (simp add: Suc_leI)
    finally show ?thesis by (simp add: power_add)
  qed
  have rest: "rest (advance 1 rb) = cs @ t" "rbuf_wf (advance 1 rb)"
    using Cons.prems by simp_all
  have "read_varint_loop i (word_of_nat a) rb =
      read_varint_loop (Suc i) (word_of_nat ?a) (advance 1 rb)"
    using Cons.prems read_loop_Cons [of rb b "cs @ t" i a] by (simp add: Let_def)
  also have "\<dots> = read_varint_loop (Suc i + length cs)
      (word_of_nat (?a + 2 ^ (7 * Suc i) * groups_value cs)) (advance (length cs) (advance 1 rb))"
    using Cons.prems rest a by (intro Cons.IH) auto
  finally show ?case
    by (simp add: algebra_simps power_add)
qed simp

lemma varint_read_terminated:
  assumes "rbuf_wf rb" and "rest rb = cs @ b # t" and "cont_bytes cs" and "unat b < 128"
    and "length cs < MAX_VARINT_BYTES"
  shows "ReadVarint64 rb =
    Inr (if t \<noteq> [] then (True, word_of_nat (groups_value (cs @ [b])), advance (Suc (length cs)) rb)
         else (False, word_of_nat (groups_value cs), advance (Suc (length cs)) rb))"
proof -
  have "ReadVarint64 rb =
      read_varint_loop (length cs) (word_of_nat (groups_value cs)) (advance (length cs) rb)"
    using read_loop_run [of rb cs "b # t" 0 0] assms by (simp add: ReadVarint64_def)
  also have "\<dots> = Inr (if t \<noteq> []
      then (True, word_of_nat (groups_value (cs @ [b])), advance (Suc (length cs)) rb)
      else (False, word_of_nat (groups_value cs), advance (Suc (length cs)) rb))"
    using assms groups_value_bound [of cs]
      read_loop_Cons [of "advance (length cs) rb" b t "length cs" "groups_value cs"]
    by (simp add: groups_value_append Let_def)
  finally show ?thesis .
qed

lemma varint_read_cut:
  assumes "rbuf_wf rb" and "rest rb = cs" and "cont_bytes cs" and "cs \<noteq> []"
    and "length cs \<le> MAX_VARINT_BYTES"
  shows "ReadVarint64 rb =
    Inr (False, word_of_nat (groups_value (butlast cs)), advance (length cs) rb)"
proof -
  obtain ds d where cs: "cs = ds @ [d]"
    using assms(4) by (metis append_butlast_last_id)
  have "ReadVarint64 rb =
      read_varint_loop (length ds) (word_of_nat (groups_value ds)) (advance (length ds) rb)"
    using read_loop_run [of rb ds "[d]" 0 0] assms cs by (simp add: ReadVarint64_def)
  also have "\<dots> = Inr (False, word_of_nat (groups_value ds), advance (Suc (length ds)) rb)"
    using assms cs groups_value_bound [of ds]
      read_loop_Cons [of "advance (length ds) rb" d "[]" "length ds" "groups_value ds"]
    by simp
  finally show ?thesis
    using cs by simp
qed

lemma varint_read_overlong:
  assumes "rbuf_wf rb" and "rest rb = cs @ t" and "cont_bytes cs" and "t \<noteq> []"
    and "length cs = MAX_VARINT_BYTES"
  shows "ReadVarint64 rb =
    Inr (False, word_of_nat (groups_value cs), advance MAX_VARINT_BYTES rb)"
  using read_loop_run [of rb cs t 0 0] assms
  by (simp add: ReadVarint64_def read_loop_stop)

lemma varint_read_empty: "rbuf_wf rb \<Longrightarrow> rest rb = [] \<Longrightarrow> ReadVarint64 rb = Inl OutOfBounds"
  by (simp add: ReadVarint64_def read_loop_Nil MAX_VARINT_BYTES_def)

end
