(* ===== verification/Wire_Packets.thy ===== *)
theory Wire_Packets
  imports Wire_Varint
begin

text \<open>
  \<open>CProtocolPacketDecoder\<close> and \<open>CProtocolPacketEncoder\<close> of \<open>src/decoder/ClickHouse_Wire.cpp\<close>. A
  decoder is its read cursor, an encoder its write buffer. The decoding functions of the code fill
  a local packet and print it; their definitions return that local beside the \<open>bool\<close> result and
  the cursor. \<open>send\<close> of the operating system is the argument \<open>snd_fd\<close> of
  \<open>DispatchBufferForSocket\<close>. Console output is not modelled.
\<close>

section \<open>Packet codes and packets\<close>

datatype ServerCodes =
    SHello | SData | SException | SProgress | SPong | SEndOfStream | SProfileInfo | STotals
  | SExtremes | STablesStatusResponse | SLog

fun server_code :: "ServerCodes \<Rightarrow> u64" where
  "server_code SHello = 0"
| "server_code SData = 1"
| "server_code SException = 2"
| "server_code SProgress = 3"
| "server_code SPong = 4"
| "server_code SEndOfStream = 5"
| "server_code SProfileInfo = 6"
| "server_code STotals = 7"
| "server_code SExtremes = 8"
| "server_code STablesStatusResponse = 9"
| "server_code SLog = 10"

datatype ClientCodes = CHello | CQuery | CData | CCancel | CPing

fun client_code :: "ClientCodes \<Rightarrow> u64" where
  "client_code CHello = 0"
| "client_code CQuery = 1"
| "client_code CData = 2"
| "client_code CCancel = 3"
| "client_code CPing = 4"

record ServerInfo =
  si_name :: bytes
  si_timezone :: bytes
  si_display_name :: bytes
  si_version_major :: u64
  si_version_minor :: u64
  si_version_patch :: u64
  si_revision :: u64

record ClientHelloPacket =
  ch_client_name :: bytes
  ch_version_major :: u64
  ch_version_minor :: u64
  ch_protocol_version :: u64
  ch_database :: bytes
  ch_username :: bytes
  ch_password :: bytes

record ServerHelloPacket =
  sh_name :: bytes
  sh_version_major :: u64
  sh_version_minor :: u64
  sh_revision :: u64
  sh_tz :: bytes
  sh_display_name :: bytes
  sh_version_patch :: u64

text \<open>What \<open>DecodeQueryPacket\<close> reads into its locals.\<close>

record QueryPacket =
  qp_packet_type :: u64
  qp_query_id :: bytes
  qp_stage :: u64
  qp_compression :: u64
  qp_query :: bytes

section \<open>Decoding\<close>

text \<open>The code returns \<open>-1\<close> for an unreadable type, that is, all ones as a \<open>uint64_t\<close>.\<close>

definition GetPacketType :: "rbuf \<Rightarrow> fault + (u64 \<times> rbuf)" where
  "GetPacketType rb =
     fbind (ReadVarint64 rb) (\<lambda>(ok, packet_type, rb).
       if \<not> ok then Inr (- 1, rb) else Inr (packet_type, rb))"

definition DecidePacketType :: "rbuf \<Rightarrow> fault + (bool \<times> rbuf)" where
  "DecidePacketType rb =
     fbind (ReadVarint64 rb) (\<lambda>(ok, packet_type, rb).
       if \<not> ok then Inr (False, rb) else Inr (False, rb))"

definition DecodeQueryPacket :: "rbuf \<Rightarrow> fault + (bool \<times> QueryPacket option \<times> rbuf)" where
  "DecodeQueryPacket rb =
     fbind (ReadVarint64 rb) (\<lambda>(ok, packet_type, rb).
       if \<not> ok then Inr (False, None, rb) else
     fbind (ReadString [] rb) (\<lambda>(ok, query_id, rb).
       if \<not> ok then Inr (False, None, rb) else
     fbind (ReadVarint64 rb) (\<lambda>(_, stage, rb).
     fbind (ReadVarint64 rb) (\<lambda>(_, compression, rb).
     fbind (ReadString [] rb) (\<lambda>(_, temp, rb).
       Inr (False,
            Some \<lparr>qp_packet_type = packet_type, qp_query_id = query_id, qp_stage = stage,
                  qp_compression = compression, qp_query = temp\<rparr>, rb))))))"

definition DecodeClientHelloPacket :: "rbuf \<Rightarrow> fault + (bool \<times> ClientHelloPacket \<times> rbuf)" where
  "DecodeClientHelloPacket rb =
     fbind (ReadString [] rb) (\<lambda>(_, client_name, rb).
     fbind (ReadVarint64 rb) (\<lambda>(_, version_major, rb).
     fbind (ReadVarint64 rb) (\<lambda>(_, version_minor, rb).
     fbind (ReadVarint64 rb) (\<lambda>(_, protocol_version, rb).
     fbind (ReadString [] rb) (\<lambda>(_, database, rb).
     fbind (ReadString [] rb) (\<lambda>(_, username, rb).
     fbind (ReadString [] rb) (\<lambda>(_, password, rb).
       Inr (True,
            \<lparr>ch_client_name = client_name, ch_version_major = version_major,
             ch_version_minor = version_minor, ch_protocol_version = protocol_version,
             ch_database = database, ch_username = username, ch_password = password\<rparr>, rb))))))))"

text \<open>\<open>DecodeClientPacket\<close> dispatches on the packet type: only the hello packet is decoded.\<close>

definition DecodeClientPacket ::
    "u64 \<Rightarrow> rbuf \<Rightarrow> fault + (ClientHelloPacket option \<times> rbuf)" where
  "DecodeClientPacket packet_type rb =
     (if packet_type = 0
      then fbind (DecodeClientHelloPacket rb) (\<lambda>(_, hello, rb). Inr (Some hello, rb))
      else Inr (None, rb))"

definition DecodeHelloPacket :: "rbuf \<Rightarrow> fault + (bool \<times> bytes \<times> rbuf)" where
  "DecodeHelloPacket rb =
     fbind (ReadVarint64 rb) (\<lambda>(ok, packet_type, rb).
       if \<not> ok then Inr (False, [], rb)
       else if packet_type \<noteq> client_code CHello then Inr (False, [], rb)
       else fbind (ReadString [] rb) (\<lambda>(ok, client_name, rb).
         if \<not> ok then Inr (False, client_name, rb) else Inr (True, client_name, rb)))"

definition DecodeServerHelloPacket :: "rbuf \<Rightarrow> fault + (bool \<times> ServerHelloPacket \<times> rbuf)" where
  "DecodeServerHelloPacket rb =
     fbind (ReadString [] rb) (\<lambda>(_, name, rb).
     fbind (ReadVarint64 rb) (\<lambda>(_, version_major, rb).
     fbind (ReadVarint64 rb) (\<lambda>(_, version_minor, rb).
     fbind (ReadVarint64 rb) (\<lambda>(_, revision, rb).
     fbind (ReadString [] rb) (\<lambda>(_, tz, rb).
     fbind (ReadString [] rb) (\<lambda>(_, display_name, rb).
     fbind (ReadVarint64 rb) (\<lambda>(_, version_patch, rb).
       Inr (True,
            \<lparr>sh_name = name, sh_version_major = version_major, sh_version_minor = version_minor,
             sh_revision = revision, sh_tz = tz, sh_display_name = display_name,
             sh_version_patch = version_patch\<rparr>, rb))))))))"

definition DecodeServerPackets ::
    "u64 \<Rightarrow> rbuf \<Rightarrow> fault + (ServerHelloPacket option \<times> rbuf)" where
  "DecodeServerPackets packet_type rb =
     (if packet_type = 0
      then fbind (DecodeServerHelloPacket rb) (\<lambda>(_, hello, rb). Inr (Some hello, rb))
      else Inr (None, rb))"

section \<open>Encoding\<close>

definition DBMS_VERSION_MAJOR :: u64 where "DBMS_VERSION_MAJOR = 2"
definition DBMS_VERSION_MINOR :: u64 where "DBMS_VERSION_MINOR = 1"
definition DBMS_MIN_REVISION_WITH_SERVER_TIMEZONE :: u64 where
  "DBMS_MIN_REVISION_WITH_SERVER_TIMEZONE = 54058"
definition DBMS_MIN_REVISION_WITH_SERVER_DISPLAY_NAME :: u64 where
  "DBMS_MIN_REVISION_WITH_SERVER_DISPLAY_NAME = 54372"
definition DBMS_MIN_REVISION_WITH_VERSION_PATCH :: u64 where
  "DBMS_MIN_REVISION_WITH_VERSION_PATCH = 54401"
definition REVISION :: u64 where "REVISION = 54405"

lemmas dbms_constants =
  DBMS_VERSION_MAJOR_def DBMS_VERSION_MINOR_def DBMS_MIN_REVISION_WITH_SERVER_TIMEZONE_def
  DBMS_MIN_REVISION_WITH_SERVER_DISPLAY_NAME_def DBMS_MIN_REVISION_WITH_VERSION_PATCH_def
  REVISION_def

definition bytes_of :: "string \<Rightarrow> bytes" where
  "bytes_of s = map (\<lambda>c. of_char c) s"

lemma length_bytes_of [simp]: "length (bytes_of s) = length s"
  by (simp add: bytes_of_def)

text \<open>The \<open>ServerInfo\<close> that \<open>EncodeHelloPacket\<close> fills before it writes.\<close>

definition hello_info :: ServerInfo where
  "hello_info =
     \<lparr>si_name = bytes_of ''ClickHouse server'', si_timezone = bytes_of ''Israel'',
      si_display_name = bytes_of ''Server version 22.9'', si_version_major = DBMS_VERSION_MAJOR,
      si_version_minor = DBMS_VERSION_MAJOR, si_version_patch = 1, si_revision = REVISION\<rparr>"

definition EncodeHelloPacket :: "wbuf \<Rightarrow> fault + (bool \<times> wbuf)" where
  "EncodeHelloPacket wb =
     (let info = hello_info in
      fbind (WriteVarint64 (server_code SHello) wb) (\<lambda>wb.
      fbind (WriteString (si_name info) wb) (\<lambda>wb.
      fbind (WriteUInt64 (si_version_major info) wb) (\<lambda>wb.
      fbind (WriteUInt64 (si_version_minor info) wb) (\<lambda>wb.
      fbind (WriteUInt64 (si_revision info) wb) (\<lambda>wb.
      fbind (if si_revision info \<ge> DBMS_MIN_REVISION_WITH_SERVER_TIMEZONE
             then WriteString (si_timezone info) wb else Inr wb) (\<lambda>wb.
      fbind (if si_revision info \<ge> DBMS_MIN_REVISION_WITH_SERVER_DISPLAY_NAME
             then WriteString (si_display_name info) wb else Inr wb) (\<lambda>wb.
      fbind (if si_revision info \<ge> DBMS_MIN_REVISION_WITH_VERSION_PATCH
             then WriteUInt64 (si_version_patch info) wb else Inr wb) (\<lambda>wb.
        Inr (True, wb))))))))))"

definition DispatchBufferForSocket ::
    "(int \<Rightarrow> bytes \<Rightarrow> 'w \<Rightarrow> int \<times> 'w) \<Rightarrow> int \<Rightarrow> wbuf \<Rightarrow> 'w \<Rightarrow> fault + (bool \<times> 'w)" where
  "DispatchBufferForSocket snd_fd sock wb w =
     fbind (GetBuffer 32000 wb) (\<lambda>(_, buffer_ptr, num_read).
       let (_, w') = snd_fd sock (take (nat num_read) buffer_ptr) w in Inr (True, w'))"

end
