(* ===== verification/Wire_Fields.thy ===== *)
theory Wire_Fields
  imports Wire_Packets
begin

text \<open>
  What each read of \<open>ClickReadProtoBuffer\<close> does to the unread bytes: the exact behaviour of
  \<open>ReadVarint64\<close> on every input, the behaviour of the reads on an encoded field, and how much a
  read consumes. The proofs about packets use only these lemmas.
\<close>

section \<open>The shape of an encoded number\<close>

lemma leb128_shape:
  "\<exists>cs b. leb128 n = cs @ [b] \<and> cont_bytes cs \<and> unat b < 128"
proof (induction n rule: leb128.induct)
  case (1 n)
  show ?case
  proof (cases "n < 128")
    case True
    then show ?thesis
      by (intro exI [of _ "[]"]) (simp add: leb128_small unat_byte)
  next
    case False
    with 1 obtain cs b where "leb128 (n div 128) = cs @ [b]" "cont_bytes cs" "unat b < 128"
      by auto
    with False show ?thesis
      by (intro exI [of _ "word_of_nat (n mod 128 + 128) # cs"] exI [of _ b])
        (simp add: leb128_large unat_cont_byte del: of_nat_add)
  qed
qed

lemma leb128_length: "n < 2 ^ (7 * k) \<Longrightarrow> 0 < k \<Longrightarrow> length (leb128 n) \<le> k"
proof (induction n arbitrary: k rule: leb128.induct)
  case (1 n)
  show ?case
  proof (cases "n < 128")
    case True
    with 1 show ?thesis by (simp add: leb128_small)
  next
    case False
    then obtain j where k: "k = Suc j"
      using "1.prems"(2) gr0_conv_Suc by blast
    have j: "0 < j"
      using False "1.prems"(1) k by (cases j) auto
    have "n div 128 < 2 ^ (7 * j)"
      using "1.prems"(1) k by (intro less_mult_imp_div_less) (simp add: power_add mult.commute)
    with 1(1) [OF False this j] False k show ?thesis
      by (simp add: leb128_large)
  qed
qed

lemma varint_bytes_length: "length (varint_bytes v) \<le> MAX_VARINT_BYTES"
proof -
  have "unat v < 2 ^ (7 * 10)"
    using unsigned_less [of v, where ?'a = nat] by simp
  then show ?thesis
    using leb128_length [of "unat v" 10] by (simp add: varint_bytes_leb128 MAX_VARINT_BYTES_def)
qed

lemma varint_bytes_nonempty [simp]: "varint_bytes v \<noteq> []"
  by (simp add: varint_bytes_leb128)

section \<open>ReadVarint64 on every input\<close>

definition varint_span :: "bytes \<Rightarrow> nat" where
  "varint_span bs =
     min (length bs) (min MAX_VARINT_BYTES (Suc (length (takeWhile (\<lambda>b. 128 \<le> unat b) bs))))"

lemma varint_span_pos: "bs \<noteq> [] \<Longrightarrow> 0 < varint_span bs"
  by (simp add: varint_span_def MAX_VARINT_BYTES_def)

lemma varint_span_le: "varint_span bs \<le> length bs"
  by (simp add: varint_span_def)

text \<open>A number that ends within the limit, or at the end of the packet.\<close>

lemma varint_read_short:
  fixes rb
  defines "bs \<equiv> rest rb" and "cs \<equiv> takeWhile (\<lambda>b. 128 \<le> unat b) (rest rb)"
  assumes wf: "rbuf_wf rb" and ne: "bs \<noteq> []" and short: "length cs < MAX_VARINT_BYTES"
  shows "ReadVarint64 rb = (let n = varint_span bs
    in Inr (n < length bs \<and> unat (bs ! (n - 1)) < 128,
            word_of_nat (groups_value (take (min n (length bs - 1)) bs)), advance n rb))"
proof (cases "dropWhile (\<lambda>b. 128 \<le> unat b) bs")
  have cont: "cont_bytes cs" by (auto simp: cs_def dest: set_takeWhileD)
  have bs: "bs = cs @ dropWhile (\<lambda>b. 128 \<le> unat b) bs" by (simp add: bs_def cs_def)
  {
    case Nil
    then have all: "cs = bs" using bs by (metis append_Nil2)
    then have "length cs = length bs" by simp
    then have "varint_span bs = length bs"
      using short by (simp add: varint_span_def cs_def bs_def)
    then show ?thesis
      using varint_read_cut [OF wf, folded bs_def, OF all [symmetric] cont] short all ne
      by (simp add: Let_def butlast_conv_take)
  next
    case (Cons b t)
    then have b: "unat b < 128"
      using hd_dropWhile [of "\<lambda>b. 128 \<le> unat b" bs] by simp
    have split: "bs = cs @ b # t" using bs Cons by metis
    have len: "length bs = Suc (length cs + length t)"
      by (subst split) simp
    then have span: "varint_span bs = Suc (length cs)"
      using short by (simp add: varint_span_def cs_def bs_def)
    have nth: "bs ! length cs = b"
      by (subst split) simp
    have tk: "take (length cs) bs = cs" "take (Suc (length cs)) bs = cs @ [b]"
      by (subst split, simp)+
    show ?thesis
      using varint_read_terminated [OF wf, folded bs_def, OF split cont b short] span len nth tk b
      by (cases t) (simp_all add: Let_def)
  }
qed

text \<open>A number that is still going on at the limit.\<close>

lemma varint_read_long:
  fixes rb
  defines "bs \<equiv> rest rb"
  assumes wf: "rbuf_wf rb" and ne: "bs \<noteq> []"
    and long: "MAX_VARINT_BYTES \<le> length (takeWhile (\<lambda>b. 128 \<le> unat b) bs)"
  shows "ReadVarint64 rb = (let n = varint_span bs
    in Inr (n < length bs \<and> unat (bs ! (n - 1)) < 128,
            word_of_nat (groups_value (take (min n (length bs - 1)) bs)), advance n rb))"
proof -
  let ?M = MAX_VARINT_BYTES and ?cs = "takeWhile (\<lambda>b. 128 \<le> unat b) bs"
  let ?ds = "take ?M bs"
  have len': "length ?cs \<le> length bs" by (rule length_takeWhile_le)
  have span: "varint_span bs = ?M" using long len' by (simp add: varint_span_def)
  have "?ds = take ?M ?cs"
    using long by (metis takeWhile_dropWhile_id take_append diff_is_0_eq take0 append_Nil2)
  then have cont: "cont_bytes ?ds" by (auto dest!: in_set_takeD set_takeWhileD)
  have len: "length ?ds = ?M" using long len' by simp
  have pos: "0 < ?M" by (simp add: MAX_VARINT_BYTES_def)
  have "bs ! (?M - 1) \<in> set ?ds"
    using len pos by (metis diff_less nth_mem nth_take zero_less_one)
  then have nth: "\<not> unat (bs ! (?M - 1)) < 128" using cont by (simp add: not_less)
  show ?thesis
  proof (cases "drop ?M bs = []")
    case True
    then have all: "?ds = bs" "length bs = ?M" using long len' by auto
    show ?thesis
      using varint_read_cut [OF wf, folded bs_def, OF all(1) [symmetric] cont] all span pos ne
      by (simp add: Let_def butlast_conv_take)
  next
    case False
    then show ?thesis
      using varint_read_overlong [OF wf, folded bs_def, OF _ cont False len] span nth len
      by (auto simp: Let_def min_def)
  qed
qed

lemma ReadVarint64_spec:
  assumes "rbuf_wf rb" and "rest rb \<noteq> []"
  shows "ReadVarint64 rb =
    (let bs = rest rb; n = varint_span bs
     in Inr (n < length bs \<and> unat (bs ! (n - 1)) < 128,
             word_of_nat (groups_value (take (min n (length bs - 1)) bs)), advance n rb))"
  using varint_read_short [OF assms] varint_read_long [OF assms] unfolding Let_def by (meson not_le)

lemma ReadVarint64_progress:
  assumes "rbuf_wf rb" and "ReadVarint64 rb = Inr (ok, v, rb')"
  shows "\<exists>n. 0 < n \<and> n \<le> length (rest rb) \<and> rb' = advance n rb \<and> (ok \<longrightarrow> n < length (rest rb))"
proof (cases "rest rb = []")
  case True
  with assms varint_read_empty show ?thesis by simp
next
  case False
  with assms show ?thesis
    using ReadVarint64_spec [OF assms(1) False] varint_span_pos [OF False] varint_span_le [of "rest rb"]
    by (intro exI [of _ "varint_span (rest rb)"]) (auto simp: Let_def)
qed

section \<open>Reading what was encoded\<close>

definition string_bytes :: "bytes \<Rightarrow> bytes" where
  "string_bytes s = varint_bytes (of_nat (length s)) @ s"

definition string_fits :: "bytes \<Rightarrow> bool" where
  "string_fits s \<longleftrightarrow> length s \<le> 0x00FFFFFF"

text \<open>The payload that is left of a number when its last group is dropped.\<close>

definition varint_without_last :: "u64 \<Rightarrow> u64" where
  "varint_without_last v = take_bit (7 * (length (varint_bytes v) - 1)) v"

lemma groups_value_butlast:
  "word_of_nat (groups_value (butlast (varint_bytes v))) = varint_without_last v"
proof -
  let ?m = "7 * (length (varint_bytes v) - 1)"
  obtain cs b where shape: "varint_bytes v = cs @ [b]"
    using leb128_shape [of "unat v"] by (auto simp: varint_bytes_leb128)
  have "groups_value (varint_bytes v) = groups_value cs + 2 ^ (7 * length cs) * groups_value [b]"
    unfolding shape by (rule groups_value_append)
  moreover have "groups_value (varint_bytes v) = unat v"
    by (simp add: varint_bytes_leb128 groups_value_leb128)
  ultimately have "unat v mod 2 ^ (7 * length cs) = groups_value cs"
    using groups_value_bound [of cs] by (metis mod_less mod_mult_self2)
  then have "groups_value (butlast (varint_bytes v)) = take_bit ?m (unat v)"
    by (simp add: shape take_bit_eq_mod)
  also have "\<dots> = unat (take_bit ?m v)"
    by (rule unsigned_take_bit_eq [symmetric])
  finally show ?thesis
    by (simp add: varint_without_last_def)
qed

lemma ReadVarint64_encoded:
  assumes "rbuf_wf rb" and "rest rb = varint_bytes v @ t"
  shows "ReadVarint64 rb =
    Inr (if t \<noteq> [] then (True, v, advance (length (varint_bytes v)) rb)
         else (False, varint_without_last v, advance (length (varint_bytes v)) rb))"
proof -
  obtain cs b where shape: "varint_bytes v = cs @ [b]" "cont_bytes cs" "unat b < 128"
    using leb128_shape [of "unat v"] by (auto simp: varint_bytes_leb128)
  then have "length cs < MAX_VARINT_BYTES"
    using varint_bytes_length [of v] by simp
  moreover have "groups_value (cs @ [b]) = unat v"
    using shape(1) groups_value_leb128 [of "unat v"] by (simp add: varint_bytes_leb128)
  moreover have "word_of_nat (groups_value cs) = varint_without_last v"
    using groups_value_butlast [of v] shape(1) by simp
  ultimately show ?thesis
    using varint_read_terminated [OF assms(1) _ shape(2,3), of t] assms(2) shape(1) by simp
qed

lemma string_fits_len:
  assumes "string_fits s"
  shows "unat (of_nat (length s) :: u64) = length s" "\<not> (of_nat (length s) :: u64) > 0x00FFFFFF"
proof -
  show len: "unat (of_nat (length s) :: u64) = length s"
    using assms by (simp add: string_fits_def unat_of_nat take_bit_nat_eq_self)
  then show "\<not> (of_nat (length s) :: u64) > 0x00FFFFFF"
    using assms by (simp add: word_less_nat_alt string_fits_def)
qed

lemma ReadString_encoded:
  assumes wf: "rbuf_wf rb" and rest: "rest rb = string_bytes s @ t" and "string_fits s"
    and "s \<noteq> [] \<or> t \<noteq> [] \<or> old = []"
  shows "ReadString old rb = Inr (t \<noteq> [], s, advance (length (string_bytes s)) rb)"
proof (cases "s = [] \<and> t = []")
  case True
  then show ?thesis
    using ReadVarint64_encoded [OF wf, of 0 "[]"] rest assms(4)
    by (simp add: ReadString_def string_bytes_def)
next
  case False
  let ?l = "of_nat (length s) :: u64" and ?n = "length (varint_bytes (of_nat (length s)))"
  have r: "rest rb = varint_bytes ?l @ s @ t"
    using rest by (simp add: string_bytes_def)
  have "ReadString old rb = ReadAll ?l (advance ?n rb)"
    using ReadVarint64_encoded [OF wf r] False string_fits_len(2) [OF assms(3)]
    by (auto simp: ReadString_def)
  also have "\<dots> = Inr (t \<noteq> [], s, advance (length (string_bytes s)) rb)"
    using ReadAll_rest [of "advance ?n rb" ?l] wf r string_fits_len(1) [OF assms(3)] assms(3)
    by (simp add: string_fits_def string_bytes_def)
  finally show ?thesis .
qed

section \<open>Consumption\<close>

text \<open>A string read either consumes at least one byte or is out of bounds.\<close>

lemma ReadString_progress:
  assumes wf: "rbuf_wf rb" and read: "ReadString old rb = Inr (ok, s, rb')"
  shows "\<exists>n. 0 < n \<and> n \<le> length (rest rb) \<and> rb' = advance n rb \<and> (ok \<longrightarrow> n < length (rest rb))"
proof -
  from read obtain ok1 len rb1 where v: "ReadVarint64 rb = Inr (ok1, len, rb1)"
    and tail: "(if ok1 then if len > 0x00FFFFFF then Inr (False, old, rb1) else ReadAll len rb1
                else Inr (False, old, rb1)) = Inr (ok, s, rb')"
    unfolding ReadString_def by (auto simp: fbind_eq_Inr_iff)
  obtain n where n: "0 < n" "n \<le> length (rest rb)" "rb1 = advance n rb"
    using ReadVarint64_progress [OF wf v] by blast
  show ?thesis
  proof (cases "ok1 \<and> \<not> len > 0x00FFFFFF")
    case True
    then have "unat len < 2 ^ 31"
      by (simp add: word_less_nat_alt)
    then have "ReadAll len rb1 = (if unat len \<le> length (rest rb1)
        then Inr (unat len < length (rest rb1), take (unat len) (rest rb1), advance (unat len) rb1)
        else Inl OutOfBounds)"
      using wf n by (intro ReadAll_rest) simp_all
    with tail True have "unat len \<le> length (rest rb1)" "rb' = advance (unat len) rb1"
      "ok = (unat len < length (rest rb1))"
      by (auto split: if_splits)
    with wf n show ?thesis
      by (intro exI [of _ "n + unat len"]) auto
  next
    case False
    with tail n show ?thesis by (intro exI [of _ n]) (auto split: if_splits)
  qed
qed

end
