(* ===== verification/Wire_Theorems.thy ===== *)
theory Wire_Theorems
  imports Wire_Fields
begin

text \<open>
  The properties of the wire component: round trips of numbers, strings and the two hello packets,
  the exact cost of the class's convention on the last byte of a packet, and the inputs on which
  the decoder leaves its buffer.
\<close>

section \<open>Readers as consumers\<close>

text \<open>
  \<open>consumes k r\<close>: on a well-formed cursor, \<open>r\<close> either is out of bounds or moves forward by at
  least \<open>k\<close> bytes, never past the end of the packet.
\<close>

definition consumes :: "nat \<Rightarrow> (rbuf \<Rightarrow> fault + ('a \<times> 'b \<times> rbuf)) \<Rightarrow> bool" where
  "consumes k r \<longleftrightarrow> (\<forall>rb. rbuf_wf rb \<longrightarrow>
     (case r rb of Inl f \<Rightarrow> f = OutOfBounds
      | Inr (_, _, rb') \<Rightarrow> (\<exists>n. k \<le> n \<and> n \<le> length (rest rb) \<and> rb' = advance n rb)))"

lemma consumes_ret: "consumes 0 (\<lambda>rb. Inr (a, b, rb))"
  by (force simp: consumes_def intro: exI [of _ 0])

lemma consumes_bind:
  assumes "consumes k r" and "\<And>a b. consumes m (f a b)"
  shows "consumes (k + m) (\<lambda>rb. fbind (r rb) (\<lambda>(a, b, rb). f a b rb))"
  unfolding consumes_def
proof (intro allI impI)
  fix rb assume wf: "rbuf_wf rb"
  show "case fbind (r rb) (\<lambda>(a, b, rb). f a b rb) of Inl f \<Rightarrow> f = OutOfBounds
      | Inr (_, _, rb') \<Rightarrow> \<exists>n\<ge>k + m. n \<le> length (rest rb) \<and> rb' = advance n rb"
  proof (cases "r rb")
    case (Inl e)
    with assms(1) wf show ?thesis by (auto simp: consumes_def dest!: spec [of _ rb])
  next
    case (Inr x)
    then obtain a b rb1 where x: "r rb = Inr (a, b, rb1)" by (metis prod_cases3)
    with assms(1) wf obtain n where n: "k \<le> n" "n \<le> length (rest rb)" "rb1 = advance n rb"
      by (auto simp: consumes_def dest!: spec [of _ rb])
    with wf have "rbuf_wf rb1" "rest rb1 = drop n (rest rb)" by simp_all
    with assms(2) [of a b] n x show ?thesis
      by (force simp: consumes_def split: sum.splits dest!: spec [of _ rb1]
          intro: exI [of _ "n + _"])
  qed
qed

lemma ReadVarint64_Inl: "rbuf_wf rb \<Longrightarrow> ReadVarint64 rb = Inl f \<Longrightarrow> f = OutOfBounds"
  using ReadVarint64_spec [of rb] varint_read_empty [of rb]
  by (cases "rest rb = []") (auto simp: Let_def)

lemma consumes_varint: "consumes 1 ReadVarint64"
  unfolding consumes_def
  using ReadVarint64_Inl ReadVarint64_progress by (fastforce split: sum.splits simp: Suc_le_eq)

lemma ReadString_Inl:
  assumes wf: "rbuf_wf rb" and inl: "ReadString old rb = Inl f"
  shows "f = OutOfBounds"
proof (cases "ReadVarint64 rb")
  case (Inl e)
  with wf inl show ?thesis by (auto simp: ReadString_def dest: ReadVarint64_Inl)
next
  case (Inr x)
  then obtain ok len rb1 where v: "ReadVarint64 rb = Inr (ok, len, rb1)" by (metis prod_cases3)
  then obtain n where "rb1 = advance n rb" "n \<le> length (rest rb)"
    using ReadVarint64_progress [OF wf v] by blast
  with wf inl v show ?thesis
    using ReadAll_rest [of rb1 len]
    by (cases "len > 0x00FFFFFF") (auto simp: ReadString_def word_less_nat_alt split: if_splits)
qed

lemma consumes_string: "consumes 1 (ReadString old)"
  unfolding consumes_def
  using ReadString_Inl ReadString_progress by (fastforce split: sum.splits simp: Suc_le_eq)

lemmas consumes_intros = consumes_bind consumes_varint consumes_string consumes_ret

lemma consumes_client_hello: "consumes 7 DecodeClientHelloPacket"
proof -
  have "consumes (1 + (1 + (1 + (1 + (1 + (1 + (1 + 0))))))) DecodeClientHelloPacket"
    unfolding DecodeClientHelloPacket_def by (intro consumes_intros)
  then show ?thesis by (simp add: eval_nat_numeral)
qed

lemma consumes_server_hello: "consumes 7 DecodeServerHelloPacket"
proof -
  have "consumes (1 + (1 + (1 + (1 + (1 + (1 + (1 + 0))))))) DecodeServerHelloPacket"
    unfolding DecodeServerHelloPacket_def by (intro consumes_intros)
  then show ?thesis by (simp add: eval_nat_numeral)
qed

lemma consumes_short:
  assumes "consumes k r" and "rbuf_wf rb" and "length (rest rb) < k"
  shows "r rb = Inl OutOfBounds"
  using assms by (cases "r rb") (auto simp: consumes_def dest!: spec [of _ rb])

section \<open>Packets on the wire\<close>

text \<open>The body of a hello packet, after its type, in the order of the wire protocol.\<close>

definition client_hello_body :: "ClientHelloPacket \<Rightarrow> bytes" where
  "client_hello_body p =
     string_bytes (ch_client_name p) @ varint_bytes (ch_version_major p) @
     varint_bytes (ch_version_minor p) @ varint_bytes (ch_protocol_version p) @
     string_bytes (ch_database p) @ string_bytes (ch_username p) @ string_bytes (ch_password p)"

definition server_hello_body :: "ServerHelloPacket \<Rightarrow> bytes" where
  "server_hello_body p =
     string_bytes (sh_name p) @ varint_bytes (sh_version_major p) @
     varint_bytes (sh_version_minor p) @ varint_bytes (sh_revision p) @
     string_bytes (sh_tz p) @ string_bytes (sh_display_name p) @ varint_bytes (sh_version_patch p)"

definition client_hello_fits :: "ClientHelloPacket \<Rightarrow> bool" where
  "client_hello_fits p \<longleftrightarrow> string_fits (ch_client_name p) \<and> string_fits (ch_database p) \<and>
     string_fits (ch_username p) \<and> string_fits (ch_password p)"

definition server_hello_fits :: "ServerHelloPacket \<Rightarrow> bool" where
  "server_hello_fits p \<longleftrightarrow> string_fits (sh_name p) \<and> string_fits (sh_tz p) \<and>
     string_fits (sh_display_name p)"

lemma string_bytes_nonempty [simp]: "string_bytes s \<noteq> []"
  by (simp add: string_bytes_def)

text \<open>
  \<open>decodes r bs ok x t\<close>: on any cursor that stands before the bytes \<open>bs\<close>, \<open>r\<close> answers \<open>ok\<close>, yields
  \<open>x\<close> and leaves \<open>t\<close>. Decoding a packet is a chain of such steps.
\<close>

definition decodes ::
    "(rbuf \<Rightarrow> fault + ('a \<times> 'b \<times> rbuf)) \<Rightarrow> bytes \<Rightarrow> 'a \<Rightarrow> 'b \<Rightarrow> bytes \<Rightarrow> bool" where
  "decodes r bs ok x t \<longleftrightarrow> (\<forall>rb. rbuf_wf rb \<longrightarrow> rest rb = bs \<longrightarrow>
     (\<exists>rb'. r rb = Inr (ok, x, rb') \<and> rbuf_wf rb' \<and> rest rb' = t))"

lemma decodes_ret: "decodes (\<lambda>rb. Inr (a, x, rb)) bs a x bs"
  by (simp add: decodes_def)

lemma decodes_bind:
  "decodes r bs a x t \<Longrightarrow> decodes (f a x) t b y u \<Longrightarrow>
   decodes (\<lambda>rb. fbind (r rb) (\<lambda>(a, x, rb). f a x rb)) bs b y u"
  by (fastforce simp: decodes_def)

lemma decodes_varint:
  "decodes ReadVarint64 (varint_bytes v @ t) (t \<noteq> [])
     (if t \<noteq> [] then v else varint_without_last v) t"
  by (auto simp: decodes_def ReadVarint64_encoded)

lemma decodes_string:
  "string_fits s \<Longrightarrow> decodes (ReadString []) (string_bytes s @ t) (t \<noteq> []) s t"
  by (auto simp: decodes_def ReadString_encoded)

lemma decodes_result: "decodes r bs a x t \<Longrightarrow> x = y \<Longrightarrow> decodes r bs a y t"
  by simp

lemmas decodes_intros = decodes_bind decodes_varint decodes_string decodes_ret

lemma decodes_client_hello:
  assumes "client_hello_fits p"
  shows "decodes DecodeClientHelloPacket (client_hello_body p @ t) True p t"
  unfolding DecodeClientHelloPacket_def client_hello_body_def append_assoc
  by (rule decodes_result, (rule decodes_intros | use assms in \<open>simp add: client_hello_fits_def\<close>)+)

lemma decodes_server_hello:
  assumes "server_hello_fits p"
  shows "decodes DecodeServerHelloPacket (server_hello_body p @ t) True
    (if t \<noteq> [] then p
     else p\<lparr>sh_version_patch := varint_without_last (sh_version_patch p)\<rparr>) t"
  unfolding DecodeServerHelloPacket_def server_hello_body_def append_assoc
  by (rule decodes_result, (rule decodes_intros | use assms in \<open>simp add: server_hello_fits_def\<close>)+)

section \<open>The server hello packet that the engine writes\<close>

definition own_hello :: ServerHelloPacket where
  "own_hello =
     \<lparr>sh_name = si_name hello_info, sh_version_major = si_version_major hello_info,
      sh_version_minor = si_version_minor hello_info, sh_revision = si_revision hello_info,
      sh_tz = si_timezone hello_info, sh_display_name = si_display_name hello_info,
      sh_version_patch = si_version_patch hello_info\<rparr>"

definition own_hello_bytes :: bytes where
  "own_hello_bytes = varint_bytes (server_code SHello) @ server_hello_body own_hello"

text \<open>The writes of \<open>EncodeHelloPacket\<close>, one entry per \<open>WriteAll\<close>.\<close>

definition own_hello_writes :: "bytes list" where
  "own_hello_writes =
     [varint_bytes (server_code SHello),
      varint_bytes (of_nat (length (sh_name own_hello))), sh_name own_hello,
      varint_bytes (sh_version_major own_hello), varint_bytes (sh_version_minor own_hello),
      varint_bytes (sh_revision own_hello),
      varint_bytes (of_nat (length (sh_tz own_hello))), sh_tz own_hello,
      varint_bytes (of_nat (length (sh_display_name own_hello))), sh_display_name own_hello,
      varint_bytes (sh_version_patch own_hello)]"

lemma own_hello_writes_concat: "concat own_hello_writes = own_hello_bytes"
  by (simp add: own_hello_writes_def own_hello_bytes_def server_hello_body_def string_bytes_def)

lemma varint_bytes_limit: "length (varint_bytes v) < 2 ^ 31"
  using varint_bytes_length [of v] by (simp add: MAX_VARINT_BYTES_def)

lemma own_hello_writes_limit: "\<forall>bs \<in> set own_hello_writes. length bs < 2 ^ 31"
  using varint_bytes_limit by (simp add: own_hello_writes_def own_hello_def hello_info_def)

lemma EncodeHelloPacket_writes:
  "EncodeHelloPacket wb = fbind (fold_fault put_all own_hello_writes wb) (\<lambda>wb. Inr (True, wb))"
proof -
  have revs: "DBMS_MIN_REVISION_WITH_SERVER_TIMEZONE \<le> si_revision hello_info"
    "DBMS_MIN_REVISION_WITH_SERVER_DISPLAY_NAME \<le> si_revision hello_info"
    "DBMS_MIN_REVISION_WITH_VERSION_PATCH \<le> si_revision hello_info"
    by (simp_all add: hello_info_def dbms_constants)
  show ?thesis
    unfolding EncodeHelloPacket_def Let_def write_ops_put
    by (simp add: revs own_hello_writes_def own_hello_def fbind_assoc del: server_code.simps)
qed

lemma EncodeHelloPacket_fits:
  assumes "wbuf_wf wb" and "length own_hello_bytes \<le> room_left wb"
  shows "\<exists>wb'. EncodeHelloPacket wb = Inr (True, wb') \<and> wbuf_wf wb' \<and>
               written wb' = written wb @ own_hello_bytes \<and>
               room_left wb' = room_left wb - length own_hello_bytes"
  using wb.puts_fit [OF assms(1) own_hello_writes_limit] assms(2)
  by (auto simp: EncodeHelloPacket_writes own_hello_writes_concat)

lemma EncodeHelloPacket_full:
  assumes "wbuf_wf wb" and "room_left wb < length own_hello_bytes"
  shows "EncodeHelloPacket wb = Inl OutOfBounds"
  using wb.puts_full [OF assms(1) own_hello_writes_limit] assms(2)
  by (auto simp: EncodeHelloPacket_writes own_hello_writes_concat)

lemma own_hello_fits: "server_hello_fits own_hello"
  by (simp add: server_hello_fits_def own_hello_def hello_info_def string_fits_def)

lemma GetPacketType_encoded:
  "rbuf_wf rb \<Longrightarrow> rest rb = varint_bytes v @ t \<Longrightarrow> t \<noteq> [] \<Longrightarrow>
   \<exists>rb'. GetPacketType rb = Inr (v, rb') \<and> rbuf_wf rb' \<and> rest rb' = t"
  by (simp add: GetPacketType_def ReadVarint64_encoded)

lemma own_hello_type:
  "\<exists>rb. GetPacketType (rbuf_of own_hello_bytes) = Inr (server_code SHello, rb) \<and> rbuf_wf rb \<and>
        rest rb = server_hello_body own_hello"
  by (rule GetPacketType_encoded) (simp_all only: rest_rbuf_of rbuf_of_wf own_hello_bytes_def,
      simp add: server_hello_body_def)

text \<open>A query packet, and what its decoder makes of it.\<close>

definition query_body :: "QueryPacket \<Rightarrow> bytes" where
  "query_body p =
     varint_bytes (qp_packet_type p) @ string_bytes (qp_query_id p) @ varint_bytes (qp_stage p) @
     varint_bytes (qp_compression p) @ string_bytes (qp_query p)"

lemma decodes_query:
  assumes "string_fits (qp_query_id p)" and "string_fits (qp_query p)"
  shows "decodes DecodeQueryPacket (query_body p @ t) False (Some p) t"
  unfolding decodes_def
proof (intro allI impI)
  fix rb assume wf: "rbuf_wf rb" and r: "rest rb = query_body p @ t"
  let ?tail = "\<lambda>rb. fbind (ReadVarint64 rb) (\<lambda>(_, stage, rb). fbind (ReadVarint64 rb) (\<lambda>(_, compression, rb).
     fbind (ReadString [] rb) (\<lambda>(_, temp, rb). Inr (False, Some \<lparr>qp_packet_type = qp_packet_type p,
       qp_query_id = qp_query_id p, qp_stage = stage, qp_compression = compression,
       qp_query = temp\<rparr>, rb))))"
  have "decodes ?tail (varint_bytes (qp_stage p) @ varint_bytes (qp_compression p) @
      string_bytes (qp_query p) @ t) False (Some p) t"
    by (rule decodes_result, (rule decodes_intros | use assms in simp)+)
  with wf r assms show "\<exists>rb'. DecodeQueryPacket rb = Inr (False, Some p, rb') \<and> rbuf_wf rb' \<and> rest rb' = t"
    by (simp add: DecodeQueryPacket_def query_body_def ReadVarint64_encoded ReadString_encoded decodes_def)
qed

lemma own_hello_length: "length own_hello_bytes = 52"
  by (simp add: own_hello_bytes_def server_hello_body_def string_bytes_def own_hello_def
      hello_info_def dbms_constants varint_bytes_leb128 leb128_small leb128_large)

section \<open>Properties\<close>

text \<open>C24: a number that was written with \<open>WriteVarint64\<close> and is followed by further input is read
  back by \<open>ReadVarint64\<close>, which answers \<open>true\<close> and stops exactly after it.\<close>

theorem varint_roundtrip:
  assumes "rbuf_wf rb" and "rest rb = varint_bytes v @ t" and "t \<noteq> []"
  shows "\<exists>rb'. ReadVarint64 rb = Inr (True, v, rb') \<and> rbuf_wf rb' \<and> rest rb' = t"
  using assms by (simp add: ReadVarint64_encoded)

theorem varint_roundtrip_witness:
  "\<exists>rb'. ReadVarint64 (rbuf_of (varint_bytes 300 @ [7])) = Inr (True, 300, rb') \<and>
         rbuf_wf rb' \<and> rest rb' = [7]"
  by (rule varint_roundtrip) simp_all

text \<open>A number that ends its packet is never accepted: \<open>ReadVarint64\<close> answers \<open>false\<close> for every
  value, and the value it leaves has lost its most significant group of seven bits.\<close>

theorem varint_at_end_refused:
  assumes "rbuf_wf rb" and "rest rb = varint_bytes v"
  shows "\<exists>rb'. ReadVarint64 rb =
           Inr (False, take_bit (7 * (length (varint_bytes v) - 1)) v, rb') \<and> rest rb' = []"
  using assms ReadVarint64_encoded [of rb v "[]"] by (simp add: varint_without_last_def)

theorem varint_at_end_refused_witness:
  "\<exists>rb'. ReadVarint64 (rbuf_of (varint_bytes 4)) =
           Inr (False, take_bit (7 * (length (varint_bytes 4) - 1)) 4, rb') \<and> rest rb' = []"
  by (rule varint_at_end_refused) simp_all

text \<open>C30: the bytes that \<open>WriteVarint64\<close> emits are the LEB128 encoding of the value: between one and
  ten bytes, all but the last with bit 7 set, whose seven-bit groups spell the value.\<close>

theorem write_varint_is_leb128:
  "varint_bytes v = leb128 (unat v) \<and> 1 \<le> length (varint_bytes v) \<and>
   length (varint_bytes v) \<le> MAX_VARINT_BYTES \<and> groups_value (varint_bytes v) = unat v \<and>
   (\<exists>cs b. varint_bytes v = cs @ [b] \<and> cont_bytes cs \<and> unat b < 128)"
  using varint_bytes_length [of v] leb128_shape [of "unat v"]
  by (auto simp: varint_bytes_leb128 groups_value_leb128 Suc_le_eq)

theorem write_varint_is_leb128_witness:
  "varint_bytes 300 = [172, 2] \<and> length (varint_bytes 300) \<le> MAX_VARINT_BYTES \<and>
   groups_value (varint_bytes 300) = 300"
  using write_varint_is_leb128 [of 300] by (simp add: leb128_small leb128_large MAX_VARINT_BYTES_def)

text \<open>C29: the exact result of \<open>ReadVarint64\<close> on every non-empty input. It consumes up to and including
  the first byte without bit 7, at most ten bytes and at most the packet; it answers \<open>true\<close> iff
  that byte was found and is not the last of the packet; its value is the consumed groups modulo
  \<open>2 ^ 64\<close>, without the packet's last byte. On an empty input it reads out of bounds.\<close>

theorem read_varint_characterised:
  assumes "rbuf_wf rb"
  shows "ReadVarint64 rb =
    (let bs = rest rb; n = varint_span bs
     in if bs = [] then Inl OutOfBounds
        else Inr (n < length bs \<and> unat (bs ! (n - 1)) < 128,
                  word_of_nat (groups_value (take (min n (length bs - 1)) bs)), advance n rb))"
  using assms ReadVarint64_spec [of rb] varint_read_empty [of rb]
  by (cases "rest rb = []") (simp_all add: Let_def)

theorem read_varint_characterised_witness:
  "ReadVarint64 (rbuf_of [0x80, 1, 9]) =
    (let bs = rest (rbuf_of [0x80, 1, 9]); n = varint_span bs
     in if bs = [] then Inl OutOfBounds
        else Inr (n < length bs \<and> unat (bs ! (n - 1)) < 128,
                  word_of_nat (groups_value (take (min n (length bs - 1)) bs)),
                  advance n (rbuf_of [0x80, 1, 9])))"
  by (rule read_varint_characterised) simp

text \<open>A string written with \<open>WriteString\<close>, of at most \<open>0xFFFFFF\<close> bytes, is read back by
  \<open>ReadString\<close> wherever it stands in a packet; the answer is \<open>true\<close> iff more input follows.\<close>

theorem string_roundtrip:
  assumes "rbuf_wf rb" and "rest rb = string_bytes s @ t" and "length s \<le> 0xFFFFFF"
    and "s \<noteq> [] \<or> t \<noteq> []"
  shows "\<exists>rb'. ReadString old rb = Inr (t \<noteq> [], s, rb') \<and> rbuf_wf rb' \<and> rest rb' = t"
proof -
  have "ReadString old rb = Inr (t \<noteq> [], s, advance (length (string_bytes s)) rb)"
    using assms by (intro ReadString_encoded) (auto simp: string_fits_def)
  with assms(1,2) show ?thesis by simp
qed

theorem string_roundtrip_witness:
  "\<exists>rb'. ReadString [] (rbuf_of (string_bytes [65, 66] @ [0])) =
           Inr ([0 :: u8] \<noteq> [], [65, 66], rb') \<and> rbuf_wf rb' \<and> rest rb' = [0]"
  by (rule string_roundtrip) simp_all

text \<open>C38: \<open>ReadString\<close> leaves the packet on exactly these inputs: nothing is left to read, or an
  accepted length of at most \<open>0xFFFFFF\<close> exceeds the bytes that follow it. The length taken from
  the packet is never compared with the packet.\<close>

theorem read_string_out_of_bounds_iff:
  assumes "rbuf_wf rb"
  shows "ReadString old rb = Inl OutOfBounds \<longleftrightarrow>
    rest rb = [] \<or>
    (\<exists>len rb'. ReadVarint64 rb = Inr (True, len, rb') \<and> len \<le> 0x00FFFFFF \<and>
               length (rest rb') < unat len)"
proof (cases "ReadVarint64 rb")
  case (Inl e)
  then have "e = OutOfBounds" "rest rb = []"
    using assms ReadVarint64_Inl ReadVarint64_spec [of rb] by (auto simp: Let_def)
  with Inl show ?thesis by (simp add: ReadString_def)
next
  case (Inr x)
  then obtain ok len rb1 where v: "ReadVarint64 rb = Inr (ok, len, rb1)" by (metis prod_cases3)
  then have "rest rb \<noteq> []" and "rbuf_wf rb1"
    using ReadVarint64_progress [OF assms v] varint_read_empty [OF assms] assms by auto
  with v ReadAll_rest [of rb1 len] show ?thesis
    by (cases "len > 0x00FFFFFF") (auto simp: ReadString_def word_less_nat_alt word_le_nat_alt)
qed

theorem read_string_out_of_bounds_iff_witness:
  "ReadString [] (rbuf_of [5, 65]) = Inl OutOfBounds \<longleftrightarrow>
    rest (rbuf_of [5, 65]) = [] \<or>
    (\<exists>len rb'. ReadVarint64 (rbuf_of [5, 65]) = Inr (True, len, rb') \<and> len \<le> 0x00FFFFFF \<and>
               length (rest rb') < unat len)"
  by (rule read_string_out_of_bounds_iff) simp

text \<open>C3: a client hello packet whose strings respect the length limit is decoded to exactly the
  fields it was built from, whatever follows it, and the decoder stops right after it.\<close>

theorem client_hello_roundtrip:
  assumes "rbuf_wf rb" and "rest rb = client_hello_body p @ t" and "client_hello_fits p"
  shows "\<exists>rb'. DecodeClientPacket (client_code CHello) rb = Inr (Some p, rb') \<and>
               rbuf_wf rb' \<and> rest rb' = t"
  using decodes_client_hello [OF assms(3), of t] assms(1,2)
  by (auto simp: decodes_def DecodeClientPacket_def)

definition sample_hello :: ClientHelloPacket where
  "sample_hello =
     \<lparr>ch_client_name = [67], ch_version_major = 22, ch_version_minor = 9,
      ch_protocol_version = 54405, ch_database = [100, 98], ch_username = [117],
      ch_password = []\<rparr>"

theorem client_hello_roundtrip_witness:
  "\<exists>rb'. DecodeClientPacket (client_code CHello) (rbuf_of (client_hello_body sample_hello)) =
           Inr (Some sample_hello, rb') \<and> rbuf_wf rb' \<and> rest rb' = []"
  by (rule client_hello_roundtrip)
    (simp_all add: client_hello_fits_def string_fits_def sample_hello_def)

text \<open>A client hello of fewer than seven bytes makes the decoder read outside its buffer: the
  results of the seven reads are ignored, and each needs at least one byte.\<close>

theorem short_client_hello_out_of_bounds:
  assumes "rbuf_wf rb" and "length (rest rb) < 7"
  shows "DecodeClientPacket 0 rb = Inl OutOfBounds"
  using consumes_short [OF consumes_client_hello assms] by (simp add: DecodeClientPacket_def)

theorem short_client_hello_out_of_bounds_witness:
  "DecodeClientPacket 0 (rbuf_of [1, 65, 0]) = Inl OutOfBounds"
  by (rule short_client_hello_out_of_bounds) simp_all

text \<open>Decoding never moves the cursor outside the packet: a hello decoder that does not fault has
  consumed at least seven bytes, at most those that were left, and leaves a well-formed cursor.\<close>

theorem hello_decoders_stay_inside:
  assumes "rbuf_wf rb"
  shows "(case DecodeClientHelloPacket rb of Inl f \<Rightarrow> f = OutOfBounds
          | Inr (_, _, rb') \<Rightarrow> rbuf_wf rb' \<and> length (rest rb') + 7 \<le> length (rest rb)) \<and>
         (case DecodeServerHelloPacket rb of Inl f \<Rightarrow> f = OutOfBounds
          | Inr (_, _, rb') \<Rightarrow> rbuf_wf rb' \<and> length (rest rb') + 7 \<le> length (rest rb))"
  using consumes_client_hello consumes_server_hello assms
  unfolding consumes_def by (fastforce split: sum.splits)

theorem hello_decoders_stay_inside_witness:
  "(case DecodeClientHelloPacket (rbuf_of [0, 0, 0]) of Inl f \<Rightarrow> f = OutOfBounds
    | Inr (_, _, rb') \<Rightarrow> rbuf_wf rb' \<and> length (rest rb') + 7 \<le> length (rest (rbuf_of [0, 0, 0]))) \<and>
   (case DecodeServerHelloPacket (rbuf_of [0, 0, 0]) of Inl f \<Rightarrow> f = OutOfBounds
    | Inr (_, _, rb') \<Rightarrow> rbuf_wf rb' \<and> length (rest rb') + 7 \<le> length (rest (rbuf_of [0, 0, 0])))"
  by (rule hello_decoders_stay_inside) simp

text \<open>C23: a server hello is decoded to the fields it was built from if further input follows it; at
  the end of a packet every field but the last is, and the patch version loses its top group.\<close>

theorem server_hello_roundtrip:
  assumes "rbuf_wf rb" and "rest rb = server_hello_body p @ t" and "server_hello_fits p"
  shows "\<exists>rb'. DecodeServerPackets (server_code SHello) rb =
           Inr (Some (if t \<noteq> [] then p
                      else p\<lparr>sh_version_patch := varint_without_last (sh_version_patch p)\<rparr>), rb') \<and>
         rbuf_wf rb' \<and> rest rb' = t"
  using decodes_server_hello [OF assms(3), of t] assms(1,2)
  by (auto simp: decodes_def DecodeServerPackets_def)

theorem server_hello_roundtrip_witness:
  "\<exists>rb'. DecodeServerPackets (server_code SHello) (rbuf_of (server_hello_body own_hello @ [1])) =
           Inr (Some (if [1 :: u8] \<noteq> [] then own_hello
                      else own_hello\<lparr>sh_version_patch :=
                             varint_without_last (sh_version_patch own_hello)\<rparr>), rb') \<and>
         rbuf_wf rb' \<and> rest rb' = [1]"
  by (rule server_hello_roundtrip) (simp_all add: own_hello_fits)

text \<open>\<open>EncodeHelloPacket\<close> appends the 52 bytes of the engine's hello packet (type, then the body
  of \<open>own_hello\<close>) when the buffer has room for them, and writes out of bounds when it has not.\<close>

theorem encode_hello_spec:
  assumes "wbuf_wf wb"
  shows "if 52 \<le> room_left wb
         then \<exists>wb'. EncodeHelloPacket wb = Inr (True, wb') \<and> wbuf_wf wb' \<and>
                    written wb' = written wb @ varint_bytes (server_code SHello) @
                      server_hello_body own_hello \<and>
                    room_left wb' = room_left wb - 52
         else EncodeHelloPacket wb = Inl OutOfBounds"
  using EncodeHelloPacket_fits [OF assms] EncodeHelloPacket_full [OF assms]
  by (auto simp: own_hello_length own_hello_bytes_def [symmetric] simp del: server_code.simps)

theorem encode_hello_spec_witness:
  "if 52 \<le> room_left (wbuf_of (replicate 60 0))
   then \<exists>wb'. EncodeHelloPacket (wbuf_of (replicate 60 0)) = Inr (True, wb') \<and> wbuf_wf wb' \<and>
              written wb' = written (wbuf_of (replicate 60 0)) @ varint_bytes (server_code SHello) @
                server_hello_body own_hello \<and>
              room_left wb' = room_left (wbuf_of (replicate 60 0)) - 52
   else EncodeHelloPacket (wbuf_of (replicate 60 0)) = Inl OutOfBounds"
  by (rule encode_hello_spec) simp

text \<open>The engine cannot read back the hello packet it sends. Written into any buffer of at least
  52 bytes, taken out with \<open>GetBuffer\<close> and decoded as a server packet, it comes back with patch
  version 0 instead of 1; and the minor version it carries is the major one.\<close>

theorem own_hello_loses_patch_version:
  assumes "52 \<le> length buf"
  shows "\<exists>wb out rb rb'.
    EncodeHelloPacket (wbuf_of buf) = Inr (True, wb) \<and>
    GetBuffer 32000 wb = Inr (True, out, 52) \<and>
    new_rbuf out 52 = Inr (Ret rb) \<and>
    (\<exists>rb1. GetPacketType rb = Inr (server_code SHello, rb1) \<and>
       DecodeServerPackets (server_code SHello) rb1 =
         Inr (Some (own_hello\<lparr>sh_version_patch := 0\<rparr>), rb')) \<and>
    sh_version_patch own_hello = 1 \<and> sh_version_minor own_hello \<noteq> DBMS_VERSION_MINOR"
proof -
  obtain wb where wb: "EncodeHelloPacket (wbuf_of buf) = Inr (True, wb)" "wbuf_wf wb"
    "written wb = own_hello_bytes"
    using EncodeHelloPacket_fits [of "wbuf_of buf"] assms by (auto simp: own_hello_length)
  then have out: "GetBuffer 32000 wb = Inr (True, own_hello_bytes, 52)"
    by (simp add: GetBuffer_written own_hello_length)
  have new: "new_rbuf own_hello_bytes 52 = Inr (Ret (rbuf_of own_hello_bytes))"
    using new_rbuf_of [of own_hello_bytes] by (simp add: own_hello_length)
  obtain rb1 where rb1: "GetPacketType (rbuf_of own_hello_bytes) = Inr (server_code SHello, rb1)"
    "rbuf_wf rb1" "rest rb1 = server_hello_body own_hello"
    using own_hello_type by blast
  have "varint_without_last (sh_version_patch own_hello) = 0" "sh_version_patch own_hello = 1"
    by (simp_all add: varint_without_last_def own_hello_def hello_info_def varint_bytes_leb128 leb128_small)
  then obtain rb' where "DecodeServerPackets (server_code SHello) rb1 =
      Inr (Some (own_hello\<lparr>sh_version_patch := 0\<rparr>), rb')"
    using decodes_server_hello [OF own_hello_fits, of "[]"] rb1(2,3)
    by (auto simp: decodes_def DecodeServerPackets_def)
  moreover have "sh_version_patch own_hello = 1" "sh_version_minor own_hello \<noteq> DBMS_VERSION_MINOR"
    by (simp_all add: own_hello_def hello_info_def dbms_constants)
  ultimately show ?thesis
    using wb(1) out new rb1(1) by blast
qed

theorem own_hello_loses_patch_version_witness:
  "\<exists>wb out rb rb'.
    EncodeHelloPacket (wbuf_of (replicate 64 0)) = Inr (True, wb) \<and>
    GetBuffer 32000 wb = Inr (True, out, 52) \<and>
    new_rbuf out 52 = Inr (Ret rb) \<and>
    (\<exists>rb1. GetPacketType rb = Inr (server_code SHello, rb1) \<and>
       DecodeServerPackets (server_code SHello) rb1 =
         Inr (Some (own_hello\<lparr>sh_version_patch := 0\<rparr>), rb')) \<and>
    sh_version_patch own_hello = 1 \<and> sh_version_minor own_hello \<noteq> DBMS_VERSION_MINOR"
  by (rule own_hello_loses_patch_version) simp

text \<open>A well-formed query packet is decoded to its fields, and yet \<open>DecodeQueryPacket\<close> answers
  \<open>false\<close>, as on an error: its success path returns 0.\<close>

theorem query_decoded_but_refused:
  assumes "rbuf_wf rb" and "rest rb = query_body p @ t"
    and "length (qp_query_id p) \<le> 0xFFFFFF" and "length (qp_query p) \<le> 0xFFFFFF"
  shows "\<exists>rb'. DecodeQueryPacket rb = Inr (False, Some p, rb') \<and> rbuf_wf rb' \<and> rest rb' = t"
  using decodes_query [of p t] assms by (simp add: string_fits_def decodes_def)

definition sample_query :: QueryPacket where
  "sample_query = \<lparr>qp_packet_type = 1, qp_query_id = [113], qp_stage = 2, qp_compression = 0,
                   qp_query = [83, 69, 76]\<rparr>"

theorem query_decoded_but_refused_witness:
  "\<exists>rb'. DecodeQueryPacket (rbuf_of (query_body sample_query)) = Inr (False, Some sample_query, rb') \<and>
         rbuf_wf rb' \<and> rest rb' = []"
  by (rule query_decoded_but_refused) (simp_all add: sample_query_def)

text \<open>What each write puts on the wire.\<close>

fun wire_format :: "write_op \<Rightarrow> bytes" where
  "wire_format (OpBytes bs) = bs"
| "wire_format (OpFixed bs) = bs"
| "wire_format (OpVarint64 v) = leb128 (unat v)"
| "wire_format (OpUInt64 v) = leb128 (unat v)"
| "wire_format (OpString s) = leb128 (length s) @ s"

lemma pieces_format:
  assumes "length (wire_format c) < 2 ^ 31"
  shows "concat (pieces c) = wire_format c \<and> (\<forall>bs \<in> set (pieces c). length bs < 2 ^ 31)"
proof (cases c)
  case (OpString s)
  then have "length s < 2 ^ 64" using assms by simp
  then have "unat (of_nat (length s) :: u64) = length s" by (simp add: unat_of_nat take_bit_nat_eq_self)
  then show ?thesis using OpString assms by (simp add: varint_bytes_leb128)
qed (use assms varint_bytes_limit in \<open>simp_all add: varint_bytes_leb128\<close>)

text \<open>C31: Assembling a packet. Any sequence of calls of \<open>WriteBytes\<close>, \<open>WriteFixed\<close>, \<open>WriteVarint64\<close>, \<open>WriteUInt64\<close>
  and \<open>WriteString\<close> on a fresh buffer, each of which puts less than \<open>2 ^ 31\<close> bytes, followed by \<open>GetBuffer\<close>
  into an array of \<open>cap\<close> bytes, either returns what the calls put on the wire, joined in order (raw bytes,
  LEB128 numbers, and strings after their length), or leaves its bounds, the latter exactly when all of
  it does not fit both the buffer and the array: then a write or the final copy is out of bounds.\<close>

theorem writes_are_collected_in_order:
  assumes "\<forall>c \<in> set cs. length (wire_format c) < 2 ^ 31"
  shows "fbind (fold_fault write_call cs (wbuf_of buf)) (GetBuffer cap) =
    (if length (concat (map wire_format cs)) \<le> min (length buf) cap
     then Inr (True, concat (map wire_format cs), int (length (concat (map wire_format cs))))
     else Inl OutOfBounds)"
proof -
  let ?bss = "concat (map pieces cs)"
  have p: "concat (pieces c) = wire_format c \<and> (\<forall>bs \<in> set (pieces c). length bs < 2 ^ 31)" if "c \<in> set cs" for c
    by (rule pieces_format [OF bspec [OF assms that]])
  have "concat (concat (map pieces ds)) = concat (map (\<lambda>c. concat (pieces c)) ds)" for ds
    by (induction ds) simp_all
  from this [of cs] have f: "concat ?bss = concat (map wire_format cs)" using p by (simp cong: map_cong)
  have l: "\<forall>bs \<in> set ?bss. length bs < 2 ^ 31" using p by (simp only: set_concat set_map) blast
  show ?thesis
  proof (cases "length (concat ?bss) \<le> length buf")
    case True
    then obtain wb where "fold_fault put_all ?bss (wbuf_of buf) = Inr wb" "wbuf_wf wb" "written wb = concat ?bss"
      using wb.puts_fit [of "wbuf_of buf" ?bss] l by auto
    with True show ?thesis unfolding write_calls_put f by (simp add: GetBuffer_written)
  next
    case False
    with wb.puts_full [of "wbuf_of buf" ?bss] l show ?thesis unfolding write_calls_put f by simp
  qed
qed

theorem writes_are_collected_in_order_witness:
  "fbind (fold_fault write_call [OpUInt64 3, OpString [72, 105], OpBytes [9]] (wbuf_of [0, 0, 0, 0, 0, 0])) (GetBuffer 8) =
    Inr (True, [3, 2, 72, 105, 9], 5)"
proof -
  let ?cs = "[OpUInt64 3, OpString [72, 105], OpBytes [9]]"
  have c: "concat (map wire_format ?cs) = [3, 2, 72, 105, 9]" by (simp add: leb128_small)
  have "\<forall>c \<in> set ?cs. length (wire_format c) < 2 ^ 31" by (simp add: leb128_small)
  from writes_are_collected_in_order [OF this, of "[0, 0, 0, 0, 0, 0]" 8]
  show ?thesis unfolding c by (simp del: fold_fault.simps)
qed

text \<open>\<open>DispatchBufferForSocket\<close> hands exactly the written bytes to \<open>send\<close>, once, and overruns its
  stack buffer when more than 32000 bytes were written.\<close>

theorem dispatch_sends_written:
  assumes "wbuf_wf wb"
  shows "DispatchBufferForSocket snd_fd sock wb w =
    (if length (written wb) \<le> 32000 then Inr (True, snd (snd_fd sock (written wb) w))
     else Inl OutOfBounds)"
  using assms
  by (simp add: DispatchBufferForSocket_def GetBuffer_written case_prod_unfold Let_def)

theorem dispatch_sends_written_witness:
  "DispatchBufferForSocket (\<lambda>fd bs w. (int (length bs), w @ bs)) 4
      \<lparr>w_buffer = [7, 8, 9], w_index = 2, w_len = 3\<rparr> [] =
    (if length (written \<lparr>w_buffer = [7, 8, 9], w_index = 2, w_len = 3\<rparr>) \<le> 32000
     then Inr (True, snd ((\<lambda>fd bs w. (int (length bs), w @ bs)) 4
            (written \<lparr>w_buffer = [7, 8, 9], w_index = 2, w_len = 3\<rparr>) []))
     else Inl OutOfBounds)"
  by (rule dispatch_sends_written) (simp add: wbuf_wf_def)

end
