(* ===== verification/Wire_Objects.thy ===== *)
theory Wire_Objects
  imports Wire_Write
begin

text \<open>
  The objects around a packet (\<open>decoder/ClickHouse_Wire.cpp\<close>): a \<open>CProtocolPacketDecoder\<close> or
  \<open>CProtocolPacketEncoder\<close> owns a \<open>ClickReadProtoBuffer\<close> or \<open>ClickWriteProtoBuffer\<close> on the heap, which owns
  a copy of the packet in an array. The two pairs of classes are written alike, with constructors and
  destructors of the same text; they are modelled once. The cursors \<open>rbuf\<close> and \<open>wbuf\<close> are the values of
  the inner objects.
\<close>

section \<open>The heap\<close>

text \<open>The members of a buffer object, its array being a pointer.\<close>

record proto_buffer =
  pb_buffer :: nat
  pb_index :: int
  pb_len :: int

text \<open>What \<open>new char[len]\<close> and \<open>new Click...ProtoBuffer\<close> allocate.\<close>

datatype block = CharArray bytes | ProtoBuffer proto_buffer

record store =
  blocks :: "nat \<rightharpoonup> block"
  next_block :: nat

definition allocate :: "block \<Rightarrow> store \<Rightarrow> nat \<times> store" where
  "allocate b st =
     (next_block st, st\<lparr>blocks := (blocks st)(next_block st \<mapsto> b), next_block := Suc (next_block st)\<rparr>)"

section \<open>Construction\<close>

definition ProtoBuffer_new :: "bytes \<Rightarrow> int \<Rightarrow> store \<Rightarrow> fault + (proto_buffer outcome \<times> store)" where
  "ProtoBuffer_new buffer len st =
     (if len < 0 then Inr (Throw ''std::bad_array_new_length'', st)
      else if length buffer < nat len then Inl OutOfBounds
      else let (p, st) = allocate (CharArray (take (nat len) buffer)) st
           in Inr (Ret \<lparr>pb_buffer = p, pb_index = 0, pb_len = len\<rparr>, st))"

text \<open>The constructors of decoder and encoder; the result is their only member, \<open>m_buffer\<close>.\<close>

definition Packet_new :: "bytes \<Rightarrow> int \<Rightarrow> store \<Rightarrow> fault + (nat outcome \<times> store)" where
  "Packet_new buffer len st =
     fbind (ProtoBuffer_new buffer len st) (\<lambda>(r, st).
       case r of Throw e \<Rightarrow> Inr (Throw e, st)
       | Ret b \<Rightarrow> let (p, st) = allocate (ProtoBuffer b) st in Inr (Ret p, st))"

section \<open>Destruction\<close>

text \<open>
  \<open>delete p\<close> of a pointer to one object runs its destructor and releases it; an array must be released
  with \<open>delete[]\<close>. \<open>delete_char\<close> is \<open>delete\<close> of a \<open>char *\<close>.
\<close>

definition delete_char :: "nat \<Rightarrow> store \<Rightarrow> fault + store" where
  "delete_char p st = (case blocks st p of None \<Rightarrow> Inl UseAfterFree | Some b \<Rightarrow> Inl InvalidFree)"

definition ProtoBuffer_dtor :: "proto_buffer \<Rightarrow> store \<Rightarrow> fault + (proto_buffer \<times> store)" where
  "ProtoBuffer_dtor this st = fbind (delete_char (pb_buffer this) st) (\<lambda>st. Inr (this\<lparr>pb_len := 0\<rparr>, st))"

definition Packet_dtor :: "nat \<Rightarrow> store \<Rightarrow> fault + store" where
  "Packet_dtor p st =
     (case blocks st p of None \<Rightarrow> Inl UseAfterFree
      | Some (CharArray _) \<Rightarrow> Inl InvalidFree
      | Some (ProtoBuffer b) \<Rightarrow>
          fbind (ProtoBuffer_dtor b st) (\<lambda>(_, st). Inr (st\<lparr>blocks := (blocks st)(p := None)\<rparr>)))"

section \<open>The value of an object\<close>

text \<open>The cursors that the operations of \<open>Wire_Read\<close> and \<open>Wire_Write\<close> work on.\<close>

definition reader_of :: "store \<Rightarrow> nat \<Rightarrow> rbuf option" where
  "reader_of st p =
     (case blocks st p of Some (ProtoBuffer b) \<Rightarrow>
        (case blocks st (pb_buffer b) of
           Some (CharArray bs) \<Rightarrow> Some \<lparr>m_buffer = bs, m_index = pb_index b, m_len = pb_len b\<rparr>
         | _ \<Rightarrow> None)
      | _ \<Rightarrow> None)"

definition writer_of :: "store \<Rightarrow> nat \<Rightarrow> wbuf option" where
  "writer_of st p =
     (case reader_of st p of None \<Rightarrow> None
      | Some rb \<Rightarrow> Some \<lparr>w_buffer = m_buffer rb, w_index = m_index rb, w_len = m_len rb\<rparr>)"

text \<open>Every pointer below \<open>next_block\<close>, so that an allocation is fresh.\<close>

definition store_ok :: "store \<Rightarrow> bool" where
  "store_ok st \<longleftrightarrow> (\<forall>p b. blocks st p = Some b \<longrightarrow> p < next_block st)"

lemma store_ok_fresh: "store_ok st \<Longrightarrow> next_block st \<le> p \<Longrightarrow> blocks st p = None"
  by (cases "blocks st p") (auto simp: store_ok_def)

text \<open>
  Constructing an object gives the cursors of the value models, touches no other block, and cannot be
  undone: its destructor releases an array with \<open>delete\<close>.
\<close>

lemma packet_new:
  assumes "store_ok st"
  shows "case Packet_new buffer len st of
      Inl e \<Rightarrow> new_rbuf buffer len = Inl e \<and> new_wbuf buffer len = Inl e
    | Inr (Throw e, st') \<Rightarrow> st' = st \<and> new_rbuf buffer len = Inr (Throw e) \<and> new_wbuf buffer len = Inr (Throw e)
    | Inr (Ret p, st') \<Rightarrow> store_ok st' \<and> (\<exists>rb wb. new_rbuf buffer len = Inr (Ret rb) \<and> reader_of st' p = Some rb \<and>
        new_wbuf buffer len = Inr (Ret wb) \<and> writer_of st' p = Some wb) \<and>
        (\<forall>q b. blocks st q = Some b \<longrightarrow> blocks st' q = Some b) \<and> Packet_dtor p st' = Inl InvalidFree"
  using assms store_ok_fresh [OF assms]
  by (auto simp: Packet_new_def ProtoBuffer_new_def new_rbuf_def new_wbuf_def allocate_def reader_of_def writer_of_def
      Packet_dtor_def ProtoBuffer_dtor_def delete_char_def Let_def store_ok_def less_Suc_eq)

end
