(* ===== verification/Wire_Safety.thy ===== *)
theory Wire_Safety
  imports Wire_Theorems Wire_Objects
begin

text \<open>
  The life of a packet decoder: constructed over a copy of a packet, then called in any order, as
  handlers do that look at the type of a packet before they decode it, and at last destroyed.
\<close>

section \<open>Sequences of calls\<close>

datatype decoder_call = TypeOf | Decide | Query | Hello | Client u64 | Server u64

text \<open>The cursor that a member function of \<open>CProtocolPacketDecoder\<close> leaves.\<close>

fun decode_call :: "decoder_call \<Rightarrow> rbuf \<Rightarrow> fault + rbuf" where
  "decode_call TypeOf rb = fbind (GetPacketType rb) (\<lambda>(t, rb). Inr rb)"
| "decode_call Decide rb = fbind (DecidePacketType rb) (\<lambda>(b, rb). Inr rb)"
| "decode_call Query rb = fbind (DecodeQueryPacket rb) (\<lambda>(b, q, rb). Inr rb)"
| "decode_call Hello rb = fbind (DecodeHelloPacket rb) (\<lambda>(b, n, rb). Inr rb)"
| "decode_call (Client t) rb = fbind (DecodeClientPacket t rb) (\<lambda>(p, rb). Inr rb)"
| "decode_call (Server t) rb = fbind (DecodeServerPackets t rb) (\<lambda>(p, rb). Inr rb)"

fun decode_calls :: "decoder_call list \<Rightarrow> rbuf \<Rightarrow> fault + rbuf" where
  "decode_calls [] rb = Inr rb"
| "decode_calls (c # cs) rb = fbind (decode_call c rb) (decode_calls cs)"

text \<open>\<open>moved\<close>: the cursor went forward inside the packet. \<open>moves r\<close>: \<open>r\<close> is out of bounds or does that.\<close>

definition moved :: "rbuf \<Rightarrow> rbuf \<Rightarrow> bool" where
  "moved rb rb' \<longleftrightarrow> (\<exists>n. n \<le> length (rest rb) \<and> rb' = advance n rb)"

definition moves :: "(rbuf \<Rightarrow> fault + rbuf) \<Rightarrow> bool" where
  "moves r \<longleftrightarrow> (\<forall>rb. rbuf_wf rb \<longrightarrow> (case r rb of Inl f \<Rightarrow> f = OutOfBounds | Inr rb' \<Rightarrow> moved rb rb'))"

lemma moved_refl: "moved rb rb"
  unfolding moved_def by (rule exI [of _ 0]) (simp add: advance_def)

lemma moved_wf: "rbuf_wf rb \<Longrightarrow> moved rb rb' \<Longrightarrow> rbuf_wf rb'"
  by (auto simp: moved_def)

lemma moved_trans:
  assumes "rbuf_wf rb" and "moved rb rb1" and "moved rb1 rb2"
  shows "moved rb rb2"
proof -
  obtain n m where n: "n \<le> length (rest rb)" "rb1 = advance n rb" "m \<le> length (rest rb1)" "rb2 = advance m rb1"
    using assms(2,3) by (auto simp: moved_def)
  then have "n + m \<le> length (rest rb)" "rb2 = advance (n + m) rb"
    using assms(1) by simp_all
  then show ?thesis unfolding moved_def by blast
qed

lemma moves_ret: "moves Inr"
  by (simp add: moves_def moved_refl)

lemma moves_if: "moves f \<Longrightarrow> moves g \<Longrightarrow> moves (\<lambda>rb. if b then f rb else g rb)"
  by (cases b) simp_all

lemma moves_then:
  assumes "consumes k r" and "\<And>a b. moves (f a b)"
  shows "moves (\<lambda>rb. fbind (r rb) (\<lambda>(a, b, rb). f a b rb))"
  unfolding moves_def
proof (intro allI impI)
  fix rb assume wf: "rbuf_wf rb"
  show "case fbind (r rb) (\<lambda>(a, b, rb). f a b rb) of Inl f \<Rightarrow> f = OutOfBounds | Inr rb' \<Rightarrow> moved rb rb'"
  proof (cases "r rb")
    case (Inl e)
    then show ?thesis using assms(1) wf by (auto simp: consumes_def dest!: spec [of _ rb])
  next
    case (Inr q)
    then obtain a b rb1 where q: "r rb = Inr (a, b, rb1)" by (metis prod_cases3)
    then have m: "moved rb rb1" using assms(1) wf by (auto simp: consumes_def moved_def dest!: spec [of _ rb])
    have "case f a b rb1 of Inl f \<Rightarrow> f = OutOfBounds | Inr rb' \<Rightarrow> moved rb1 rb'"
      using assms(2) [of a b] moved_wf [OF wf m] by (simp add: moves_def)
    then show ?thesis using q moved_trans [OF wf m] by (auto split: sum.splits)
  qed
qed

lemma moves_bind:
  assumes "moves f" and "moves g"
  shows "moves (\<lambda>rb. fbind (f rb) g)"
  unfolding moves_def
proof (intro allI impI)
  fix rb assume wf: "rbuf_wf rb"
  then have f: "case f rb of Inl e \<Rightarrow> e = OutOfBounds | Inr rb' \<Rightarrow> moved rb rb'" using assms(1) by (simp add: moves_def)
  show "case fbind (f rb) g of Inl e \<Rightarrow> e = OutOfBounds | Inr rb' \<Rightarrow> moved rb rb'"
  proof (cases "f rb")
    case (Inl e)
    then show ?thesis using f by simp
  next
    case (Inr rb1)
    then have m: "moved rb rb1" using f by simp
    have "case g rb1 of Inl e \<Rightarrow> e = OutOfBounds | Inr rb' \<Rightarrow> moved rb1 rb'"
      using assms(2) moved_wf [OF wf m] by (simp add: moves_def)
    then show ?thesis using Inr moved_trans [OF wf m] by (auto split: sum.splits)
  qed
qed

text \<open>Every call as a sequence of reads.\<close>

lemma decode_call_reads:
  "decode_call TypeOf = (\<lambda>rb. fbind (ReadVarint64 rb) (\<lambda>(ok, t, rb). Inr rb))"
  "decode_call Decide = (\<lambda>rb. fbind (ReadVarint64 rb) (\<lambda>(ok, t, rb). Inr rb))"
  "decode_call Query = (\<lambda>rb. fbind (ReadVarint64 rb) (\<lambda>(ok, t, rb). if \<not> ok then Inr rb else
     fbind (ReadString [] rb) (\<lambda>(ok, i, rb). if \<not> ok then Inr rb else
     fbind (ReadVarint64 rb) (\<lambda>(ok, s, rb). fbind (ReadVarint64 rb) (\<lambda>(ok, c, rb).
     fbind (ReadString [] rb) (\<lambda>(ok, q, rb). Inr rb))))))"
  "decode_call Hello = (\<lambda>rb. fbind (ReadVarint64 rb) (\<lambda>(ok, t, rb). if \<not> ok then Inr rb else
     if t \<noteq> client_code CHello then Inr rb else fbind (ReadString [] rb) (\<lambda>(ok, n, rb). Inr rb)))"
  "decode_call (Client t) = (\<lambda>rb. if t = 0 then fbind (DecodeClientHelloPacket rb) (\<lambda>(ok, p, rb). Inr rb) else Inr rb)"
  "decode_call (Server t) = (\<lambda>rb. if t = 0 then fbind (DecodeServerHelloPacket rb) (\<lambda>(ok, p, rb). Inr rb) else Inr rb)"
  by (auto simp: fun_eq_iff GetPacketType_def DecidePacketType_def DecodeQueryPacket_def DecodeHelloPacket_def
      DecodeClientPacket_def DecodeServerPackets_def fbind_def split: sum.splits prod.splits)

lemma moves_call: "moves (decode_call c)"
  by (cases c; simp only: decode_call_reads;
    intro moves_then [OF consumes_varint] moves_then [OF consumes_string] moves_then [OF consumes_client_hello]
      moves_then [OF consumes_server_hello] moves_if moves_ret)

lemma moves_calls: "moves (decode_calls cs)"
  by (induction cs) (use moves_ret moves_bind [OF moves_call] in \<open>simp_all add: moves_def\<close>)

section \<open>Properties\<close>

text \<open>C25: A decoder is well typed at every moment. Whatever packet it is constructed over, and whichever of its
  members are called, in whatever order and with whatever packet types, the only thing that can go
  wrong is a read beyond the packet; otherwise the decoder still holds the same packet, and its index
  has not moved backwards and is inside the packet or at its end.
\<close>

theorem decoder_stays_well_typed:
  assumes "new_rbuf buf len = Inr (Ret rb)"
  shows "case decode_calls calls rb of Inl f \<Rightarrow> f = OutOfBounds
    | Inr rb' \<Rightarrow> rbuf_wf rb' \<and> m_buffer rb' = m_buffer rb \<and> m_len rb' = m_len rb \<and>
        m_index rb \<le> m_index rb' \<and> m_index rb' \<le> m_len rb"
proof -
  have wf: "rbuf_wf rb" using new_rbuf_wf [OF assms] .
  then have "case decode_calls calls rb of Inl f \<Rightarrow> f = OutOfBounds | Inr rb' \<Rightarrow> moved rb rb'"
    using moves_calls [of calls] by (simp add: moves_def)
  moreover have "rbuf_wf rb' \<and> m_buffer rb' = m_buffer rb \<and> m_len rb' = m_len rb \<and>
      m_index rb \<le> m_index rb' \<and> m_index rb' \<le> m_len rb" if m: "moved rb rb'" for rb'
  proof -
    obtain n where "rb' = advance n rb" using m by (auto simp: moved_def)
    then show ?thesis using moved_wf [OF wf m] by (simp add: advance_def rbuf_wf_def)
  qed
  ultimately show ?thesis by (simp split: sum.splits)
qed

theorem decoder_stays_well_typed_witness:
  "case decode_calls [TypeOf, Client 0] (rbuf_of [0, 1, 65, 0, 0, 0, 0, 0, 0, 7]) of Inl f \<Rightarrow> f = OutOfBounds
    | Inr rb' \<Rightarrow> rbuf_wf rb' \<and> m_index rb' \<le> 10"
proof -
  have "new_rbuf [0, 1, 65, 0, 0, 0, 0, 0, 0, 7] 10 = Inr (Ret (rbuf_of [0, 1, 65, 0, 0, 0, 0, 0, 0, 7]))"
    by (simp add: new_rbuf_def rbuf_of_def)
  from decoder_stays_well_typed [OF this, of "[TypeOf, Client 0]"] show ?thesis
    by (auto simp: rbuf_of_def split: sum.splits)
qed

text \<open>No decoder or encoder can be destroyed. Constructing one over a packet gives the cursor that the reads
  and writes are modelled on, in blocks of its own, whatever is on the heap; from that moment on, its
  destructor releases an array with the wrong operator.
\<close>

theorem packet_objects_cannot_be_destroyed:
  assumes "store_ok st" and "Packet_new buffer len st = Inr (Ret p, st')"
  shows "store_ok st' \<and> (\<exists>rb wb. new_rbuf buffer len = Inr (Ret rb) \<and> reader_of st' p = Some rb \<and>
      new_wbuf buffer len = Inr (Ret wb) \<and> writer_of st' p = Some wb) \<and>
    (\<forall>q b. blocks st q = Some b \<longrightarrow> blocks st' q = Some b) \<and> Packet_dtor p st' = Inl InvalidFree"
  using packet_new [OF assms(1), of buffer len] assms(2) by simp

theorem packet_objects_cannot_be_destroyed_witness:
  "\<exists>p st. Packet_new [1, 2] 2 \<lparr>blocks = Map.empty, next_block = 0\<rparr> = Inr (Ret p, st) \<and>
     Packet_dtor p st = Inl InvalidFree"
proof -
  obtain p st where "Packet_new [1, 2] 2 \<lparr>blocks = Map.empty, next_block = 0\<rparr> = Inr (Ret p, st)"
    by (simp add: Packet_new_def ProtoBuffer_new_def allocate_def Let_def)
  with packet_objects_cannot_be_destroyed [OF _ this] show ?thesis by (auto simp: store_ok_def)
qed

end
