(* ===== verification/Pool.thy ===== *)
theory Pool
  imports Prelude
begin

text \<open>
  \<open>cpool::ConnectionPool\<close> and \<open>ConnectionProxy\<close> of \<open>src/connection_pool/pool.cpp\<close> and
  \<open>include/connection-pool/pool.h\<close>, over the interface \<open>cpool::Connection\<close> of \<open>connection.h\<close>.

  A connection is addressed by its pointer (\<open>ptr\<close>), an \<open>unordered_map\<close> keyed by pointers is the
  list of its nodes in iteration order, and the virtual functions of a connection class are a
  record of operations on the object's state \<open>'c\<close> and the outside world \<open>'w\<close>. A virtual function
  may throw; the object and the world keep what it did before. All operations of the pool hold its
  mutex from start to end, so each is one atomic transition.
\<close>

section \<open>Connections\<close>

type_synonym ptr = nat

type_synonym ('c, 'w, 'r) vmethod = "'c \<Rightarrow> 'w \<Rightarrow> fault + ('r outcome \<times> 'c \<times> 'w)"

record ('c, 'w) Connection =
  heart_beat :: "('c, 'w, bool) vmethod"
  is_healthy :: "('c, 'w, bool) vmethod"
  connect :: "('c, 'w, bool) vmethod"
  disconnect :: "('c, 'w, unit) vmethod"

text \<open>\<open>check_connect\<close>: an exception of either call is logged, and the function answers \<open>true\<close>.\<close>

definition check_connect :: "('c, 'w) Connection \<Rightarrow> 'c \<Rightarrow> 'w \<Rightarrow> fault + (bool \<times> 'c \<times> 'w)" where
  "check_connect vt c w =
     fbind (is_healthy vt c w) (\<lambda>(h, c, w).
       case h of Throw e \<Rightarrow> Inr (True, c, w)
       | Ret healthy \<Rightarrow>
           if \<not> healthy then
             fbind (connect vt c w) (\<lambda>(r, c, w).
               case r of Throw e \<Rightarrow> Inr (True, c, w) | Ret b \<Rightarrow> Inr (b, c, w))
           else Inr (True, c, w))"

section \<open>The maps of the pool\<close>

type_synonym 'c conn_map = "(ptr \<times> 'c) list"

abbreviation keys :: "'c conn_map \<Rightarrow> ptr list" where
  "keys m \<equiv> map fst m"

definition um_emplace :: "ptr \<Rightarrow> 'c \<Rightarrow> 'c conn_map \<Rightarrow> 'c conn_map" where
  "um_emplace k c m = (if k \<in> set (keys m) then m else (k, c) # m)"

text \<open>\<open>extract\<close> takes the node out of the map; inserting an empty node handle does nothing.\<close>

definition um_extract :: "ptr \<Rightarrow> 'c conn_map \<Rightarrow> (ptr \<times> 'c) option \<times> 'c conn_map" where
  "um_extract k m = (map_option (Pair k) (map_of m k), filter (\<lambda>n. fst n \<noteq> k) m)"

definition um_insert :: "(ptr \<times> 'c) option \<Rightarrow> 'c conn_map \<Rightarrow> 'c conn_map" where
  "um_insert node m = (case node of None \<Rightarrow> m | Some (k, c) \<Rightarrow> um_emplace k c m)"

lemma um_extract_keys: "snd (um_extract k m) = filter (\<lambda>n. fst n \<noteq> k) m"
  by (simp add: um_extract_def)

lemma keys_filter: "keys (filter (\<lambda>n. fst n \<noteq> k) m) = filter (\<lambda>j. j \<noteq> k) (keys m)"
  by (induction m) auto

lemma filter_neq_notin: "k \<notin> set ks \<Longrightarrow> filter (\<lambda>j. j \<noteq> k) ks = ks"
  by (induction ks) auto

lemma map_of_keys: "k \<in> set (keys m) \<Longrightarrow> \<exists>c. map_of m k = Some c"
  by (metis domIff dom_map_of_conv_image_fst image_set not_None_eq)

section \<open>The pool\<close>

record 'c pool =
  m_connections_idle :: "'c conn_map"
  m_connections_busy :: "'c conn_map"

definition new_pool :: "(ptr \<times> 'c) list \<Rightarrow> 'c pool" where
  "new_pool connections =
     \<lparr>m_connections_idle = fold (\<lambda>(key, c). um_emplace key c) connections [],
      m_connections_busy = []\<rparr>"

text \<open>A proxy points to its pool (or to none) and to a connection (or to none).\<close>

record ConnectionProxy =
  m_pool :: bool
  m_connection :: "ptr option"

definition null_proxy :: ConnectionProxy where
  "null_proxy = \<lparr>m_pool = False, m_connection = None\<rparr>"

text \<open>
  The loop of \<open>get_connection\<close> over the idle connections; \<open>seen\<close> are the nodes already refused, in
  reverse order, with the state their checks left them in.
\<close>

fun get_loop ::
    "('c, 'w) Connection \<Rightarrow> 'c conn_map \<Rightarrow> 'c conn_map \<Rightarrow> 'w \<Rightarrow>
     fault + (ptr option \<times> 'c conn_map \<times> 'w)" where
  "get_loop vt seen [] w = Inr (None, rev seen, w)"
| "get_loop vt seen ((k, c) # todo) w =
     fbind (check_connect vt c w) (\<lambda>(ok, c, w).
       if \<not> ok then get_loop vt ((k, c) # seen) todo w
       else Inr (Some k, rev seen @ (k, c) # todo, w))"

definition get_connection ::
    "('c, 'w) Connection \<Rightarrow> 'c pool \<Rightarrow> 'w \<Rightarrow> fault + (ConnectionProxy \<times> 'c pool \<times> 'w)" where
  "get_connection vt p w =
     (if m_connections_idle p = [] then Inr (null_proxy, p, w)
      else fbind (get_loop vt [] (m_connections_idle p) w) (\<lambda>(found, idle, w).
        case found of
          None \<Rightarrow> Inr (null_proxy, p\<lparr>m_connections_idle := idle\<rparr>, w)
        | Some k \<Rightarrow>
            let (node, idle) = um_extract k idle
            in Inr (\<lparr>m_pool = True, m_connection = Some k\<rparr>,
                    \<lparr>m_connections_idle = idle,
                     m_connections_busy = um_insert node (m_connections_busy p)\<rparr>, w)))"

definition release_connection :: "ptr option \<Rightarrow> 'c pool \<Rightarrow> 'c pool" where
  "release_connection connection p =
     (case connection of None \<Rightarrow> p
      | Some k \<Rightarrow>
          if k \<in> set (keys (m_connections_busy p)) then
            let (node, busy) = um_extract k (m_connections_busy p)
            in \<lparr>m_connections_idle = um_insert node (m_connections_idle p),
                m_connections_busy = busy\<rparr>
          else p)"

text \<open>
  The public overload, on a proxy. It takes an rvalue reference but moves nothing out of it: the
  caller's proxy still points to the pool and the connection afterwards.
\<close>

definition release_proxy :: "ConnectionProxy \<Rightarrow> 'c pool \<Rightarrow> 'c pool" where
  "release_proxy proxy p = release_connection (m_connection proxy) p"

definition pool_size :: "'c pool \<Rightarrow> nat" where
  "pool_size p = length (m_connections_busy p) + length (m_connections_idle p)"

definition size_idle :: "'c pool \<Rightarrow> nat" where
  "size_idle p = length (m_connections_idle p)"

definition size_busy :: "'c pool \<Rightarrow> nat" where
  "size_busy p = length (m_connections_busy p)"

text \<open>\<open>heart_beat\<close> visits the idle connections; an exception leaves the loop where it was thrown.\<close>

fun beat_loop ::
    "('c, 'w) Connection \<Rightarrow> 'c conn_map \<Rightarrow> 'c conn_map \<Rightarrow> 'w \<Rightarrow>
     fault + (unit outcome \<times> 'c conn_map \<times> 'w)" where
  "beat_loop vt seen [] w = Inr (Ret (), rev seen, w)"
| "beat_loop vt seen ((k, c) # todo) w =
     fbind (heart_beat vt c w) (\<lambda>(r, c, w).
       case r of Throw e \<Rightarrow> Inr (Throw e, rev seen @ (k, c) # todo, w)
       | Ret _ \<Rightarrow> beat_loop vt ((k, c) # seen) todo w)"

definition pool_heart_beat ::
    "('c, 'w) Connection \<Rightarrow> 'c pool \<Rightarrow> 'w \<Rightarrow> fault + (unit outcome \<times> 'c pool \<times> 'w)" where
  "pool_heart_beat vt p w =
     fbind (beat_loop vt [] (m_connections_idle p) w) (\<lambda>(r, idle, w).
       Inr (r, p\<lparr>m_connections_idle := idle\<rparr>, w))"

section \<open>Proxies\<close>

text \<open>Move construction and move assignment: the new contents of the target and of the source.\<close>

definition proxy_move :: "ConnectionProxy \<Rightarrow> ConnectionProxy \<times> ConnectionProxy" where
  "proxy_move other = (other, null_proxy)"

definition proxy_assign ::
    "bool \<Rightarrow> ConnectionProxy \<Rightarrow> ConnectionProxy \<Rightarrow> ConnectionProxy \<times> ConnectionProxy" where
  "proxy_assign same this other = (if same then (this, other) else (other, null_proxy))"

definition proxy_dtor :: "ConnectionProxy \<Rightarrow> 'c pool \<Rightarrow> 'c pool" where
  "proxy_dtor px p = (if m_pool px then release_connection (m_connection px) p else p)"

definition valid :: "ConnectionProxy \<Rightarrow> 'c pool \<Rightarrow> bool" where
  "valid px p =
     (if m_pool px then
        (case m_connection px of None \<Rightarrow> False
         | Some k \<Rightarrow> count_list (keys (m_connections_busy p)) k > 0)
      else False)"

text \<open>\<open>operator*\<close> dereferences the connection pointer without a check.\<close>

definition proxy_deref :: "ConnectionProxy \<Rightarrow> fault + ptr" where
  "proxy_deref px = (case m_connection px of None \<Rightarrow> Inl NullDeref | Some k \<Rightarrow> Inr k)"

section \<open>What each operation does to the two maps\<close>

text \<open>
  A pool is well formed when no connection occurs twice, in one map or across both. Lending moves
  one connection from the idle to the busy keys, giving back moves it the other way.
\<close>

definition pool_wf :: "'c pool \<Rightarrow> bool" where
  "pool_wf p \<longleftrightarrow> distinct (keys (m_connections_idle p) @ keys (m_connections_busy p))"

abbreviation idle_keys :: "'c pool \<Rightarrow> ptr set" where
  "idle_keys p \<equiv> set (keys (m_connections_idle p))"

abbreviation busy_keys :: "'c pool \<Rightarrow> ptr set" where
  "busy_keys p \<equiv> set (keys (m_connections_busy p))"

lemma get_loop_keys:
  "get_loop vt seen todo w = Inr (found, m, w') \<Longrightarrow>
   keys m = rev (keys seen) @ keys todo \<and> (\<forall>k. found = Some k \<longrightarrow> k \<in> set (keys todo))"
proof (induction vt seen todo w rule: get_loop.induct)
  case (1 vt seen w)
  then show ?case by (auto simp: rev_map)
next
  case (2 vt seen k c todo w)
  then obtain ok c1 w1 where c: "check_connect vt c w = Inr (ok, c1, w1)"
    by (auto simp: fbind_eq_Inr_iff)
  show ?case
  proof (cases ok)
    case True
    with 2(2) c show ?thesis by (auto simp: rev_map)
  next
    case False
    with 2(2) c have "get_loop vt ((k, c1) # seen) todo w1 = Inr (found, m, w')" by simp
    with 2(1) [OF c refl refl False] show ?thesis by auto
  qed
qed

lemma get_connection_keys:
  assumes "get_connection vt p w = Inr (px, p', w')" and "pool_wf p"
  shows "(px = null_proxy \<and> keys (m_connections_idle p') = keys (m_connections_idle p) \<and>
          m_connections_busy p' = m_connections_busy p) \<or>
         (\<exists>k. px = \<lparr>m_pool = True, m_connection = Some k\<rparr> \<and> k \<in> idle_keys p \<and>
          keys (m_connections_idle p') = filter (\<lambda>j. j \<noteq> k) (keys (m_connections_idle p)) \<and>
          keys (m_connections_busy p') = k # keys (m_connections_busy p))"
proof (cases "m_connections_idle p = []")
  case True
  with assms(1) show ?thesis by (simp add: get_connection_def)
next
  case False
  with assms(1) obtain found m w1 where
    loop: "get_loop vt [] (m_connections_idle p) w = Inr (found, m, w1)"
    by (auto simp: get_connection_def fbind_eq_Inr_iff)
  have m: "keys m = keys (m_connections_idle p)"
    and found: "\<And>k. found = Some k \<Longrightarrow> k \<in> idle_keys p"
    using get_loop_keys [OF loop] by auto
  show ?thesis
  proof (cases found)
    case None
    with False assms(1) loop m show ?thesis by (auto simp: get_connection_def)
  next
    case (Some k)
    then have k: "k \<in> idle_keys p" "k \<in> set (keys m)" using found m by simp_all
    then obtain c where "map_of m k = Some c" using map_of_keys by metis
    moreover have "k \<notin> busy_keys p" using assms(2) k(1) by (auto simp: pool_wf_def)
    ultimately show ?thesis
      using False assms(1) loop m Some k(1)
      by (auto simp: get_connection_def um_extract_def um_insert_def um_emplace_def keys_filter)
  qed
qed

lemma get_connection_sets:
  assumes "get_connection vt p w = Inr (px, p', w')" and "pool_wf p"
  shows "(px = null_proxy \<and> pool_wf p' \<and> idle_keys p' = idle_keys p \<and>
          busy_keys p' = busy_keys p) \<or>
         (\<exists>k. px = \<lparr>m_pool = True, m_connection = Some k\<rparr> \<and> pool_wf p' \<and> k \<in> idle_keys p \<and>
          idle_keys p' = idle_keys p - {k} \<and> busy_keys p' = insert k (busy_keys p))"
  using get_connection_keys [OF assms]
proof (elim disjE exE conjE)
  fix k
  assume "px = \<lparr>m_pool = True, m_connection = Some k\<rparr>" "k \<in> idle_keys p"
    and "keys (m_connections_idle p') = filter (\<lambda>j. j \<noteq> k) (keys (m_connections_idle p))"
    and "keys (m_connections_busy p') = k # keys (m_connections_busy p)"
  with assms(2) show ?thesis
    by (intro disjI2 exI [of _ k]) (auto simp: pool_wf_def simp del: set_map)
qed (use assms(2) in \<open>simp add: pool_wf_def del: set_map\<close>)

lemma release_busy_keys:
  assumes "pool_wf p" and "k \<in> busy_keys p"
  shows "keys (m_connections_idle (release_connection (Some k) p)) = k # keys (m_connections_idle p)"
    and "keys (m_connections_busy (release_connection (Some k) p)) =
         filter (\<lambda>j. j \<noteq> k) (keys (m_connections_busy p))"
proof -
  obtain c where "map_of (m_connections_busy p) k = Some c" using assms(2) map_of_keys by metis
  moreover have "k \<notin> idle_keys p" using assms by (auto simp: pool_wf_def)
  ultimately show
    "keys (m_connections_idle (release_connection (Some k) p)) = k # keys (m_connections_idle p)"
    "keys (m_connections_busy (release_connection (Some k) p)) =
     filter (\<lambda>j. j \<noteq> k) (keys (m_connections_busy p))"
    using assms(2)
    by (simp_all add: release_connection_def um_extract_def um_insert_def um_emplace_def keys_filter)
qed

lemma release_other [simp]:
  "release_connection None p = p"
  "k \<notin> busy_keys p \<Longrightarrow> release_connection (Some k) p = p"
  by (simp_all add: release_connection_def)

lemma beat_loop_keys:
  "beat_loop vt seen todo w = Inr (r, m, w') \<Longrightarrow> keys m = rev (keys seen) @ keys todo"
proof (induction vt seen todo w rule: beat_loop.induct)
  case (1 vt seen w)
  then show ?case by (auto simp: rev_map)
next
  case (2 vt seen k c todo w)
  then obtain r1 c1 w1 where c: "heart_beat vt c w = Inr (r1, c1, w1)"
    by (auto simp: fbind_eq_Inr_iff)
  show ?case
  proof (cases r1)
    case (Ret b)
    with 2(2) c have "beat_loop vt ((k, c1) # seen) todo w1 = Inr (r, m, w')" by simp
    with 2(1) [OF c refl refl Ret] show ?thesis by auto
  next
    case (Throw e)
    with 2(2) c show ?thesis by (auto simp: rev_map)
  qed
qed

lemma heart_beat_keys:
  "pool_heart_beat vt p w = Inr (r, p', w') \<Longrightarrow>
   keys (m_connections_idle p') = keys (m_connections_idle p) \<and>
   m_connections_busy p' = m_connections_busy p"
  by (auto simp: pool_heart_beat_def fbind_eq_Inr_iff dest: beat_loop_keys)

section \<open>The lending interface\<close>

text \<open>
  What a holder of connections relies on, whatever the maps look like: lending hands out an idle
  connection and makes it busy, giving back a busy one makes it idle, and giving back anything else
  changes nothing.
\<close>

locale lending =
  fixes wf :: "'p \<Rightarrow> bool"
    and idle busy :: "'p \<Rightarrow> 'k set"
    and lend :: "'p \<Rightarrow> 'k option \<Rightarrow> 'p \<Rightarrow> bool"
    and give_back :: "'k option \<Rightarrow> 'p \<Rightarrow> 'p"
  assumes apart: "wf p \<Longrightarrow> idle p \<inter> busy p = {}"
    and lend_none: "wf p \<Longrightarrow> lend p None p' \<Longrightarrow> wf p' \<and> idle p' = idle p \<and> busy p' = busy p"
    and lend_some: "wf p \<Longrightarrow> lend p (Some k) p' \<Longrightarrow>
      wf p' \<and> k \<in> idle p \<and> idle p' = idle p - {k} \<and> busy p' = insert k (busy p)"
    and give_back_busy: "wf p \<Longrightarrow> k \<in> busy p \<Longrightarrow> wf (give_back (Some k) p) \<and>
      idle (give_back (Some k) p) = insert k (idle p) \<and> busy (give_back (Some k) p) = busy p - {k}"
    and give_back_none: "give_back None p = p"
    and give_back_other: "k \<notin> busy p \<Longrightarrow> give_back (Some k) p = p"
begin

text \<open>\<open>h\<close> says which connection each live holder has, if any.\<close>

definition holders :: "('q \<Rightarrow> 'k option option) \<Rightarrow> 'k \<Rightarrow> 'q set" where
  "holders h k = {q. h q = Some (Some k)}"

definition exclusive :: "('q \<Rightarrow> 'k option option) \<Rightarrow> 'p \<Rightarrow> bool" where
  "exclusive h p \<longleftrightarrow>
     (\<forall>k. if k \<in> busy p then \<exists>q. holders h k = {q} else holders h k = {})"

definition lost :: "'k \<Rightarrow> ('q \<Rightarrow> 'k option option) \<Rightarrow> 'p \<Rightarrow> bool" where
  "lost k h p \<longleftrightarrow> k \<in> busy p \<and> holders h k = {}"

lemma holders_give:
  "holders (h(q \<mapsto> c)) k = (if c = Some k then insert q (holders h k) else holders h k - {q})"
  by (auto simp: holders_def)

lemma holders_drop: "holders (h(q := None)) k = holders h k - {q}"
  by (auto simp: holders_def)

lemma holders_other: "h q \<noteq> Some (Some k) \<Longrightarrow> holders h k - {q} = holders h k"
  by (auto simp: holders_def)

lemma exclusive_holder: "exclusive h p \<Longrightarrow> h q = Some (Some k) \<Longrightarrow> k \<in> busy p \<and> holders h k = {q}"
proof -
  assume ex: "exclusive h p" and "h q = Some (Some k)"
  then have q: "q \<in> holders h k" by (simp add: holders_def)
  moreover from ex have "if k \<in> busy p then \<exists>q. holders h k = {q} else holders h k = {}"
    by (simp add: exclusive_def)
  ultimately show ?thesis by (cases "k \<in> busy p") auto
qed

lemma give_back_wf: "wf p \<Longrightarrow> wf (give_back c p)"
  by (cases c) (auto simp: give_back_none, metis give_back_busy give_back_other)

lemma give_back_all: "wf p \<Longrightarrow> idle (give_back c p) \<union> busy (give_back c p) = idle p \<union> busy p"
proof (cases c)
  case (Some k)
  assume "wf p"
  with Some show ?thesis
    by (cases "k \<in> busy p") (auto simp: give_back_busy give_back_other)
qed (simp add: give_back_none)

lemma lend_all: "wf p \<Longrightarrow> lend p c p' \<Longrightarrow> wf p' \<and> idle p' \<union> busy p' = idle p \<union> busy p"
  using lend_none [of p p'] lend_some [of p _ p'] by (cases c) auto

lemma exclusive_lend:
  assumes "wf p" and "exclusive h p" and "h q = None" and "lend p c p'"
  shows "exclusive (h(q \<mapsto> c)) p'"
proof (cases c)
  case None
  with assms lend_none [of p p'] show ?thesis
    by (simp add: exclusive_def holders_give holders_other)
next
  case (Some j)
  with assms have "busy p' = insert j (busy p)" "j \<notin> busy p"
    using lend_some [of p j p'] apart [of p] by auto
  with assms(2,3) Some show ?thesis
    by (auto simp: exclusive_def holders_give holders_other)
qed

lemma exclusive_drop:
  assumes "wf p" and "exclusive h p" and "h q = Some c"
  shows "exclusive (h(q := None)) (give_back c p)"
proof (cases c)
  case None
  with assms show ?thesis
    by (simp add: exclusive_def holders_drop holders_other give_back_none)
next
  case (Some j)
  with assms have j: "j \<in> busy p" "holders h j = {q}"
    using exclusive_holder [of h p q j] by auto
  have other: "holders h k - {q} = holders h k" if "k \<noteq> j" for k
    using that assms(3) Some by (intro holders_other) auto
  have "busy (give_back c p) = busy p - {j}"
    using give_back_busy [OF assms(1) j(1)] Some by simp
  with assms(2) j other show ?thesis
    by (auto simp: exclusive_def holders_drop)
qed

lemma exclusive_move:
  assumes "exclusive h p" and "h q = Some c" and "h r = None \<or> h r = Some None" and "q \<noteq> r"
  shows "exclusive (h(r \<mapsto> c, q \<mapsto> None)) p"
proof -
  have "holders (h(r \<mapsto> c, q \<mapsto> None)) k = (if c = Some k then {r} else holders h k)" for k
  proof (cases "c = Some k")
    case True
    then have "holders h k = {q}"
      using assms(1,2) exclusive_holder [of h p q k] by simp
    with True assms(4) show ?thesis by (auto simp: holders_give)
  next
    case False
    then have "q \<notin> holders h k" "r \<notin> holders h k"
      using assms(2,3) by (auto simp: holders_def)
    with False show ?thesis by (simp add: holders_give)
  qed
  moreover have "k \<in> busy p" if "c = Some k" for k
    using that assms(1,2) exclusive_holder [of h p q k] by simp
  ultimately show ?thesis
    using assms(1) by (simp add: exclusive_def)
qed

lemma lost_lend:
  assumes "wf p" and "lost k h p" and "h q = None" and "lend p c p'"
  shows "lost k (h(q \<mapsto> c)) p'"
  using assms lend_none [of p p'] lend_some [of p _ p'] apart [of p]
  by (cases c) (auto simp: lost_def holders_give)

lemma lost_give_back:
  assumes "wf p" and "lost k h p" and "h q = Some c"
  shows "lost k h (give_back c p)"
proof (cases c)
  case (Some j)
  with assms have "j \<noteq> k" by (auto simp: lost_def holders_def)
  with assms Some show ?thesis
    by (cases "j \<in> busy p") (auto simp: lost_def give_back_busy give_back_other)
qed (use assms in \<open>simp add: give_back_none\<close>)

lemma lost_shrink: "lost k h p \<Longrightarrow> holders h' k \<subseteq> holders h k \<Longrightarrow> lost k h' p"
  by (auto simp: lost_def)

lemma lost_after_overwrite:
  assumes "exclusive h p" and "h r = Some (Some k)" and "h q = Some c" and "q \<noteq> r"
  shows "lost k (h(r \<mapsto> c, q \<mapsto> None)) p"
proof -
  have "k \<in> busy p" "holders h k = {r}"
    using exclusive_holder [OF assms(1,2)] by simp_all
  moreover from this have "c \<noteq> Some k"
    using assms(3,4) by (auto simp: holders_def)
  ultimately show ?thesis
    by (auto simp: lost_def holders_give)
qed

end

definition pool_lend ::
    "('c, 'w) Connection \<Rightarrow> 'c pool \<Rightarrow> ptr option \<Rightarrow> 'c pool \<Rightarrow> bool" where
  "pool_lend vt p c p' \<longleftrightarrow>
     (\<exists>w px w'. get_connection vt p w = Inr (px, p', w') \<and> m_connection px = c)"

lemma pool_wf_apart: "pool_wf p \<Longrightarrow> idle_keys p \<inter> busy_keys p = {}"
  by (simp add: pool_wf_def)

lemma pool_lend_none:
  assumes "pool_wf p" and "pool_lend vt p None p'"
  shows "pool_wf p' \<and> idle_keys p' = idle_keys p \<and> busy_keys p' = busy_keys p"
proof -
  from assms(2) obtain w px w' where "get_connection vt p w = Inr (px, p', w')"
    and "m_connection px = None"
    by (auto simp: pool_lend_def)
  with get_connection_sets [OF this(1) assms(1)] show ?thesis
    by (elim disjE exE conjE) (simp_all del: set_map)
qed

lemma pool_lend_some:
  assumes "pool_wf p" and "pool_lend vt p (Some k) p'"
  shows "pool_wf p' \<and> k \<in> idle_keys p \<and> idle_keys p' = idle_keys p - {k} \<and>
         busy_keys p' = insert k (busy_keys p)"
proof -
  from assms(2) obtain w px w' where "get_connection vt p w = Inr (px, p', w')"
    and "m_connection px = Some k"
    by (auto simp: pool_lend_def)
  with get_connection_sets [OF this(1) assms(1)] show ?thesis
    by (elim disjE exE conjE) (simp_all add: null_proxy_def del: set_map)
qed

lemma pool_give_back:
  assumes "pool_wf p" and "k \<in> busy_keys p"
  shows "pool_wf (release_connection (Some k) p) \<and>
    idle_keys (release_connection (Some k) p) = insert k (idle_keys p) \<and>
    busy_keys (release_connection (Some k) p) = busy_keys p - {k}"
  using assms release_busy_keys [OF assms] by (auto simp: pool_wf_def simp del: set_map)

interpretation cp: lending pool_wf idle_keys busy_keys "pool_lend vt" release_connection for vt
  by (unfold_locales; (rule release_other)?;
      (fact pool_wf_apart pool_lend_none pool_lend_some pool_give_back)?)

lemma new_pool_idle:
  assumes "distinct (map fst connections)"
  shows "m_connections_idle (new_pool connections) = rev connections"
proof -
  have "fold (\<lambda>(key, c). um_emplace key c) cs m = rev cs @ m"
    if "distinct (map fst cs)" "set (map fst cs) \<inter> set (keys m) = {}" for cs and m :: "'a conn_map"
    using that
  proof (induction cs arbitrary: m)
    case (Cons x cs)
    obtain key c where x: "x = (key, c)" by (cases x)
    have "fold (\<lambda>(key, c). um_emplace key c) cs ((key, c) # m) = rev cs @ (key, c) # m"
      using Cons.prems x by (intro Cons.IH) (auto simp del: set_map)
    moreover have "um_emplace key c m = (key, c) # m"
      using Cons.prems x by (simp add: um_emplace_def)
    ultimately show ?case using x by simp
  qed simp
  from this [of connections "[]"] assms show ?thesis by (simp add: new_pool_def)
qed

lemma new_pool_keys:
  "distinct (map fst connections) \<Longrightarrow>
   keys (m_connections_idle (new_pool connections)) = rev (map fst connections)"
  by (simp add: new_pool_idle rev_map)

section \<open>Connections that are always accepted\<close>

lemma get_connection_head:
  assumes "m_connections_idle p = (k, c) # others" and "pool_wf p"
    and "check_connect vt c w = Inr (True, c', w')"
  shows "get_connection vt p w =
    Inr (\<lparr>m_pool = True, m_connection = Some k\<rparr>,
         \<lparr>m_connections_idle = others, m_connections_busy = (k, c') # m_connections_busy p\<rparr>, w')"
proof -
  have "k \<notin> set (keys others)" "k \<notin> busy_keys p"
    using assms(1,2) by (auto simp: pool_wf_def)
  moreover from this have "filter (\<lambda>n. fst n \<noteq> k) others = others"
    by (auto simp: filter_id_conv)
  ultimately show ?thesis
    using assms(1,3)
    by (simp add: get_connection_def um_extract_def um_insert_def um_emplace_def del: set_map)
qed

locale accepting =
  fixes vt :: "('c, 'w) Connection"
    and inv :: "'c \<Rightarrow> bool"
  assumes accepts: "inv c \<Longrightarrow> \<exists>c' w'. check_connect vt c w = Inr (True, c', w') \<and> inv c'"
begin

lemma get_head:
  assumes "m_connections_idle p = (k, c) # others" and "inv c" and "pool_wf p"
  shows "\<exists>c' w'. check_connect vt c w = Inr (True, c', w') \<and> inv c' \<and>
    get_connection vt p w =
      Inr (\<lparr>m_pool = True, m_connection = Some k\<rparr>,
           \<lparr>m_connections_idle = others, m_connections_busy = (k, c') # m_connections_busy p\<rparr>, w')"
proof -
  obtain c' w' where c': "check_connect vt c w = Inr (True, c', w')" "inv c'"
    using accepts [OF assms(2)] by blast
  with get_connection_head [OF assms(1,3) c'(1)] show ?thesis by blast
qed

end

end
