(* ===== verification/Pool_Run.thy ===== *)
theory Pool_Run
  imports Pool
begin

text \<open>
  The connection pool in use: any number of proxies, any interleaving of the operations of the pool
  and of its proxies. Since every operation of the pool holds the mutex, an execution of several
  threads is a sequence of these steps. \<open>Rehash\<close> lets the unordered maps change their iteration
  order at any time, and \<open>Use\<close> lets the holders of busy connections do anything to them.
\<close>

section \<open>Steps\<close>

record ('c, 'w) sys =
  s_pool :: "'c pool"
  s_prox :: "nat \<rightharpoonup> ConnectionProxy"
  s_world :: 'w

datatype pool_op =
    Get nat            \<comment> \<open>\<open>get_connection\<close> into a new proxy\<close>
  | Move nat nat       \<comment> \<open>move construction of the second from the first\<close>
  | Assign nat nat     \<comment> \<open>move assignment of the first to the second\<close>
  | Dtor nat           \<comment> \<open>the end of a proxy's life\<close>
  | Release nat        \<comment> \<open>\<open>release_connection\<close> on a proxy\<close>
  | HeartBeat
  | Use
  | Rehash

inductive step ::
    "('c, 'w) Connection \<Rightarrow> pool_op \<Rightarrow> ('c, 'w) sys \<Rightarrow> ('c, 'w) sys \<Rightarrow> bool" for vt where
  get: "s_prox s q = None \<Longrightarrow> get_connection vt (s_pool s) (s_world s) = Inr (px, p', w') \<Longrightarrow>
    step vt (Get q) s (s\<lparr>s_pool := p', s_prox := (s_prox s)(q \<mapsto> px), s_world := w'\<rparr>)"
| move: "s_prox s q = Some px \<Longrightarrow> s_prox s r = None \<Longrightarrow> proxy_move px = (new, old) \<Longrightarrow>
    step vt (Move q r) s (s\<lparr>s_prox := (s_prox s)(r \<mapsto> new, q \<mapsto> old)\<rparr>)"
| assign: "s_prox s q = Some other \<Longrightarrow> s_prox s r = Some this \<Longrightarrow>
    proxy_assign (q = r) this other = (this', other') \<Longrightarrow>
    step vt (Assign q r) s (s\<lparr>s_prox := (s_prox s)(r \<mapsto> this', q \<mapsto> other')\<rparr>)"
| dtor: "s_prox s q = Some px \<Longrightarrow>
    step vt (Dtor q) s
      (s\<lparr>s_pool := proxy_dtor px (s_pool s), s_prox := (s_prox s)(q := None)\<rparr>)"
| release: "s_prox s q = Some px \<Longrightarrow>
    step vt (Release q) s (s\<lparr>s_pool := release_proxy px (s_pool s)\<rparr>)"
| beat: "pool_heart_beat vt (s_pool s) (s_world s) = Inr (r, p', w') \<Longrightarrow>
    step vt HeartBeat s (s\<lparr>s_pool := p', s_world := w'\<rparr>)"
| use: "keys busy = keys (m_connections_busy (s_pool s)) \<Longrightarrow>
    step vt Use s
      (s\<lparr>s_pool := (s_pool s)\<lparr>m_connections_busy := busy\<rparr>, s_world := w'\<rparr>)"
| rehash: "mset idle = mset (m_connections_idle (s_pool s)) \<Longrightarrow>
    mset busy = mset (m_connections_busy (s_pool s)) \<Longrightarrow>
    step vt Rehash s
      (s\<lparr>s_pool := \<lparr>m_connections_idle = idle, m_connections_busy = busy\<rparr>\<rparr>)"

inductive_cases step_GetE: "step vt (Get q) s t"
inductive_cases step_AssignE: "step vt (Assign q r) s t"
inductive_cases step_DtorE: "step vt (Dtor q) s t"

inductive run ::
    "('c, 'w) Connection \<Rightarrow> pool_op list \<Rightarrow> ('c, 'w) sys \<Rightarrow> ('c, 'w) sys \<Rightarrow> bool" for vt where
  nil: "run vt [] s s"
| cons: "step vt x s t \<Longrightarrow> run vt xs t u \<Longrightarrow> run vt (x # xs) s u"

text \<open>The state in which a pool is handed to its users.\<close>

definition initial :: "(ptr \<times> 'c) list \<Rightarrow> 'w \<Rightarrow> ('c, 'w) sys" where
  "initial connections w =
     \<lparr>s_pool = new_pool connections, s_prox = Map.empty, s_world = w\<rparr>"

section \<open>Conservation\<close>

definition pool_keys :: "'c pool \<Rightarrow> ptr set" where
  "pool_keys p = idle_keys p \<union> busy_keys p"

lemma pool_wf_mset:
  assumes i: "mset (keys (m_connections_idle p')) = mset (keys (m_connections_idle p))"
    and b: "mset (keys (m_connections_busy p')) = mset (keys (m_connections_busy p))"
  shows "pool_wf p' = pool_wf p \<and> idle_keys p' = idle_keys p \<and> busy_keys p' = busy_keys p"
proof -
  note sets = mset_eq_setD [OF i] mset_eq_setD [OF b]
  note dist = mset_eq_imp_distinct_iff [OF i] mset_eq_imp_distinct_iff [OF b]
  show ?thesis
    unfolding pool_wf_def distinct_append sets dist by simp
qed

lemma pool_size_card:
  assumes "pool_wf p"
  shows "pool_size p = card (pool_keys p)"
proof -
  have "card (pool_keys p) = length (keys (m_connections_idle p) @ keys (m_connections_busy p))"
    using assms distinct_card [of "keys (m_connections_idle p) @ keys (m_connections_busy p)"]
    unfolding pool_wf_def pool_keys_def by (simp del: set_map)
  then show ?thesis by (simp add: pool_size_def)
qed

lemma step_pool_cases:
  assumes "step vt x s t"
  obtains (lend) c where "pool_lend vt (s_pool s) c (s_pool t)"
  | (give) c where "s_pool t = release_connection c (s_pool s)"
  | (same) "mset (keys (m_connections_idle (s_pool t))) = mset (keys (m_connections_idle (s_pool s)))"
      "mset (keys (m_connections_busy (s_pool t))) = mset (keys (m_connections_busy (s_pool s)))"
  using assms
proof cases
  case (get q px p' w')
  then show ?thesis by (intro lend) (auto simp: pool_lend_def)
next
  case (dtor q px)
  then show ?thesis
    by (cases "m_pool px") (auto simp: proxy_dtor_def intro: give same)
next
  case (release q px)
  then show ?thesis by (auto simp: release_proxy_def intro: give)
next
  case (beat r p' w')
  then show ?thesis using heart_beat_keys [OF beat(3)] by (intro same) simp_all
next
  case (rehash idle busy)
  then show ?thesis by (intro same) (simp_all add: mset_map)
qed (auto intro: same)

lemma step_pool_wf:
  assumes "step vt x s t" and "pool_wf (s_pool s)"
  shows "pool_wf (s_pool t) \<and> pool_keys (s_pool t) = pool_keys (s_pool s)"
  using assms(1)
proof (cases rule: step_pool_cases)
  case (lend c)
  with cp.lend_all [OF assms(2) this] show ?thesis by (simp add: pool_keys_def)
next
  case (give c)
  with cp.give_back_wf [OF assms(2)] cp.give_back_all [OF assms(2)] show ?thesis
    by (simp add: pool_keys_def)
next
  case same
  with pool_wf_mset [OF same] assms(2) show ?thesis by (simp add: pool_keys_def)
qed

lemma run_pool_wf:
  "run vt xs s t \<Longrightarrow> pool_wf (s_pool s) \<Longrightarrow>
   pool_wf (s_pool t) \<and> pool_keys (s_pool t) = pool_keys (s_pool s)"
  by (induction rule: run.induct) (use step_pool_wf in blast)+

section \<open>Who holds what\<close>

definition holdings :: "('c, 'w) sys \<Rightarrow> nat \<Rightarrow> ptr option option" where
  "holdings s q = map_option m_connection (s_prox s q)"

text \<open>A proxy has a pool exactly when it has a connection.\<close>

definition proxies_ok :: "('c, 'w) sys \<Rightarrow> bool" where
  "proxies_ok s \<longleftrightarrow>
     (\<forall>q px. s_prox s q = Some px \<longrightarrow> m_pool px = (m_connection px \<noteq> None))"

lemma step_proxies_ok: "step vt x s t \<Longrightarrow> proxies_ok s \<Longrightarrow> pool_wf (s_pool s) \<Longrightarrow> proxies_ok t"
proof (induction rule: step.induct)
  case (get s q px p' w')
  with get_connection_sets [OF get(2)] show ?case
    by (auto simp: proxies_ok_def null_proxy_def)
next
  case (move s q px r new old)
  then show ?case by (auto simp: proxies_ok_def proxy_move_def null_proxy_def)
next
  case (assign s q other r this this' other')
  then show ?case
    by (auto simp: proxies_ok_def proxy_assign_def null_proxy_def split: if_splits)
qed (auto simp: proxies_ok_def)

lemma dtor_gives_back:
  "proxies_ok s \<Longrightarrow> s_prox s q = Some px \<Longrightarrow>
   proxy_dtor px (s_pool s) = release_connection (m_connection px) (s_pool s)"
  by (cases "m_connection px") (auto simp: proxies_ok_def proxy_dtor_def)

text \<open>
  The discipline that the class documents by its destructor: connections are given back by
  destroying proxies, never by an explicit \<open>release_connection\<close>, and a proxy is only assigned to
  when it holds nothing.
\<close>

fun raii :: "('c, 'w) sys \<Rightarrow> pool_op \<Rightarrow> bool" where
  "raii s (Release q) = False"
| "raii s (Assign q r) = (q = r \<or> holdings s r = Some None)"
| "raii s x = True"

inductive raii_run ::
    "('c, 'w) Connection \<Rightarrow> pool_op list \<Rightarrow> ('c, 'w) sys \<Rightarrow> ('c, 'w) sys \<Rightarrow> bool" for vt where
  nil: "raii_run vt [] s s"
| cons: "raii s x \<Longrightarrow> step vt x s t \<Longrightarrow> raii_run vt xs t u \<Longrightarrow> raii_run vt (x # xs) s u"

definition sys_inv :: "('c, 'w) sys \<Rightarrow> bool" where
  "sys_inv s \<longleftrightarrow> pool_wf (s_pool s) \<and> proxies_ok s"

definition exclusive_sys :: "('c, 'w) sys \<Rightarrow> bool" where
  "exclusive_sys s \<longleftrightarrow> cp.exclusive (holdings s) (s_pool s)"

lemma step_sys_inv: "step vt x s t \<Longrightarrow> sys_inv s \<Longrightarrow> sys_inv t"
  using step_pool_wf step_proxies_ok unfolding sys_inv_def by blast

lemma exclusive_same_busy:
  "cp.exclusive h p \<Longrightarrow> busy_keys p' = busy_keys p \<Longrightarrow> cp.exclusive h p'"
  unfolding cp.exclusive_def by simp

lemma step_keeps_loans:
  assumes "step vt x s t" and "x \<in> {HeartBeat, Use, Rehash}"
  shows "holdings t = holdings s \<and> busy_keys (s_pool t) = busy_keys (s_pool s)"
  using assms(1)
proof cases
  case (beat r p' w')
  then show ?thesis using heart_beat_keys [OF beat(3)] by (auto simp: holdings_def)
next
  case (use busy w')
  then show ?thesis by (auto simp: holdings_def simp del: set_map)
next
  case (rehash idle busy)
  then show ?thesis using mset_eq_setD [OF rehash(4)] by (auto simp: holdings_def)
qed (use assms(2) in simp_all)

lemma get_lends:
  assumes "get_connection vt (s_pool s) (s_world s) = Inr (px, p', w')"
  shows "pool_lend vt (s_pool s) (m_connection px) p'"
  using assms by (auto simp: pool_lend_def)

lemma exclusive_kept: "step vt x s t \<Longrightarrow> x \<in> {HeartBeat, Use, Rehash} \<Longrightarrow> exclusive_sys s \<Longrightarrow> exclusive_sys t"
  using step_keeps_loans [of vt x s t] exclusive_same_busy unfolding exclusive_sys_def by metis

lemma step_exclusive:
  assumes "step vt x s t" and "raii s x" and inv: "sys_inv s" and ex: "exclusive_sys s"
  shows "exclusive_sys t"
  using assms(1)
proof cases
  case (get q px p' w')
  note get_lends [OF get(4)]
  moreover have "holdings t = (holdings s)(q \<mapsto> m_connection px)" "holdings s q = None"
    using get by (auto simp: holdings_def)
  ultimately show ?thesis
    using cp.exclusive_lend [of "s_pool s" "holdings s" q] inv ex get
    by (simp add: exclusive_sys_def sys_inv_def)
next
  case (move q px r new old)
  then have "holdings t = (holdings s)(r \<mapsto> m_connection px, q \<mapsto> None)" "q \<noteq> r"
    by (auto simp: holdings_def proxy_move_def null_proxy_def)
  then show ?thesis
    using cp.exclusive_move [of "holdings s" "s_pool s" q "m_connection px" r] ex move
    by (simp add: exclusive_sys_def holdings_def)
next
  case (assign q other r this this' other')
  show ?thesis
  proof (cases "q = r")
    case True
    with assign have "holdings t = holdings s"
      by (auto simp: holdings_def proxy_assign_def)
    with ex assign show ?thesis by (simp add: exclusive_sys_def)
  next
    case False
    with assign have "holdings t = (holdings s)(r \<mapsto> m_connection other, q \<mapsto> None)"
      by (auto simp: holdings_def proxy_assign_def null_proxy_def)
    then show ?thesis
      using cp.exclusive_move [of "holdings s" "s_pool s" q "m_connection other" r]
        ex assign False assms(2)
      by (simp add: exclusive_sys_def holdings_def)
  qed
next
  case (dtor q px)
  then have "holdings t = (holdings s)(q := None)" "holdings s q = Some (m_connection px)"
    by (auto simp: holdings_def)
  then show ?thesis
    using cp.exclusive_drop [of "s_pool s" "holdings s" q] inv ex dtor dtor_gives_back [of s q px]
    by (simp add: exclusive_sys_def sys_inv_def)
next
  case (release q px)
  with assms(2) show ?thesis by simp
qed (use exclusive_kept [OF assms(1)] ex in simp_all)

lemma raii_run_exclusive:
  "raii_run vt xs s t \<Longrightarrow> sys_inv s \<Longrightarrow> exclusive_sys s \<Longrightarrow> sys_inv t \<and> exclusive_sys t"
  by (induction rule: raii_run.induct) (use step_sys_inv step_exclusive in blast)+

section \<open>Lost connections\<close>

definition lost_sys :: "ptr \<Rightarrow> ('c, 'w) sys \<Rightarrow> bool" where
  "lost_sys k s \<longleftrightarrow> cp.lost k (holdings s) (s_pool s)"

lemma lost_same_busy:
  "cp.lost k h p \<Longrightarrow> busy_keys p' = busy_keys p \<Longrightarrow> cp.lost k h p'"
  unfolding cp.lost_def by simp

lemma lost_kept: "step vt x s t \<Longrightarrow> x \<in> {HeartBeat, Use, Rehash} \<Longrightarrow> lost_sys k s \<Longrightarrow> lost_sys k t"
  using step_keeps_loans [of vt x s t] lost_same_busy unfolding lost_sys_def by metis

lemma step_lost:
  assumes "step vt x s t" and inv: "sys_inv s" and lost: "lost_sys k s"
  shows "lost_sys k t"
  using assms(1)
proof cases
  case (get q px p' w')
  note get_lends [OF get(4)]
  moreover have "holdings t = (holdings s)(q \<mapsto> m_connection px)" "holdings s q = None"
    using get by (auto simp: holdings_def)
  ultimately show ?thesis
    using cp.lost_lend [of "s_pool s" k "holdings s" q] inv lost get
    by (simp add: lost_sys_def sys_inv_def)
next
  case (move q px r new old)
  then have "cp.holders (holdings t) k \<subseteq> insert r (cp.holders (holdings s) k)"
      "m_connection new = m_connection px"
    by (auto simp: holdings_def cp.holders_def proxy_move_def null_proxy_def split: if_splits)
  moreover have "m_connection px \<noteq> Some k"
    using lost move unfolding lost_sys_def cp.lost_def cp.holders_def by (auto simp: holdings_def)
  ultimately show ?thesis
    using lost move unfolding lost_sys_def cp.lost_def cp.holders_def by (auto simp: holdings_def)
next
  case (assign q other r this this' other')
  then have "m_connection other \<noteq> Some k" "m_connection this \<noteq> Some k"
    using lost unfolding lost_sys_def cp.lost_def cp.holders_def by (auto simp: holdings_def)
  with lost assign show ?thesis
    unfolding lost_sys_def cp.lost_def cp.holders_def
    by (auto simp: holdings_def proxy_assign_def null_proxy_def split: if_splits)
next
  case (dtor q px)
  have "cp.lost k (holdings s) (release_connection (m_connection px) (s_pool s))"
    using cp.lost_give_back [of "s_pool s" k "holdings s" q] inv lost dtor
    by (simp add: lost_sys_def sys_inv_def holdings_def)
  then have "cp.lost k (holdings t) (release_connection (m_connection px) (s_pool s))"
    using dtor by (elim cp.lost_shrink) (auto simp: cp.holders_def holdings_def)
  then show ?thesis
    using dtor inv dtor_gives_back [of s q px] by (simp add: lost_sys_def sys_inv_def)
next
  case (release q px)
  then have "holdings t = holdings s" by (simp add: holdings_def fun_eq_iff)
  then show ?thesis
    using cp.lost_give_back [of "s_pool s" k "holdings s" q] inv lost release
    by (simp add: lost_sys_def sys_inv_def holdings_def [of s q] release_proxy_def)
qed (use lost_kept [OF assms(1)] lost in simp_all)

lemma run_lost:
  "run vt xs s t \<Longrightarrow> sys_inv s \<Longrightarrow> lost_sys k s \<Longrightarrow> sys_inv t \<and> lost_sys k t"
  by (induction rule: run.induct) (use step_sys_inv step_lost in blast)+

lemma assign_over_holder_loses:
  assumes "step vt (Assign q r) s t" and "q \<noteq> r" and "exclusive_sys s"
    and "holdings s r = Some (Some k)"
  shows "lost_sys k t"
  using assms(1)
proof cases
  case (assign other this this' other')
  with assms(2) have "holdings t = (holdings s)(r \<mapsto> m_connection other, q \<mapsto> None)"
    by (auto simp: holdings_def proxy_assign_def null_proxy_def)
  moreover have "cp.lost k ((holdings s)(r \<mapsto> m_connection other, q \<mapsto> None)) (s_pool s)"
    using assms(2-4) assign unfolding exclusive_sys_def
    by (intro cp.lost_after_overwrite) (auto simp: holdings_def)
  ultimately show ?thesis
    using assign by (simp add: lost_sys_def)
qed

section \<open>The initial state\<close>

lemma initial_inv:
  assumes "distinct (map fst connections)"
  shows "sys_inv (initial connections w)" "exclusive_sys (initial connections w)"
    "pool_keys (s_pool (initial connections w)) = set (map fst connections)"
    "pool_size (s_pool (initial connections w)) = length connections"
proof -
  note k = new_pool_keys [OF assms]
  have busy: "m_connections_busy (new_pool connections) = []" by (simp add: new_pool_def)
  show "sys_inv (initial connections w)"
    unfolding sys_inv_def pool_wf_def proxies_ok_def initial_def using assms k busy by simp
  show "exclusive_sys (initial connections w)"
    unfolding exclusive_sys_def cp.exclusive_def cp.holders_def initial_def
    using busy by (simp add: holdings_def)
  show "pool_keys (s_pool (initial connections w)) = set (map fst connections)"
    unfolding pool_keys_def initial_def using k busy by (simp del: set_map)
  have "length (m_connections_idle (new_pool connections)) = length connections"
    using arg_cong [OF k, of length] by simp
  then show "pool_size (s_pool (initial connections w)) = length connections"
    by (simp add: pool_size_def initial_def busy)
qed

lemma raii_run_is_run: "raii_run vt xs s t \<Longrightarrow> run vt xs s t"
  by (induction rule: raii_run.induct) (auto intro: run.intros)

lemma run_conserves:
  assumes "distinct (map fst connections)" and "run vt ops (initial connections w) t"
  shows "distinct (keys (m_connections_idle (s_pool t)) @ keys (m_connections_busy (s_pool t))) \<and>
    idle_keys (s_pool t) \<union> busy_keys (s_pool t) = set (map fst connections) \<and>
    pool_size (s_pool t) = length connections"
proof -
  note init = initial_inv [OF assms(1), of w]
  have t: "pool_wf (s_pool t)" "pool_keys (s_pool t) = set (map fst connections)"
    using run_pool_wf [OF assms(2)] init by (simp_all add: sys_inv_def del: set_map)
  then have "pool_size (s_pool t) = length connections"
    using pool_size_card [OF t(1)] distinct_card [OF assms(1)] by (simp del: set_map)
  with t show ?thesis unfolding pool_wf_def pool_keys_def by blast
qed

section \<open>The abstract pool\<close>

text \<open>
  What the class promises to its users, without maps, objects or proxies: a set of free and a set of
  lent connections. Its events are what the users do and see: a request is answered with a connection
  or refused, a connection is handed back, or nothing happens to the loans. \<open>aop\<close> is the one state that
  may follow an event, if the event may happen: a connection can only be lent when it is free; a request
  can only be refused when nothing is free, or when connections may refuse to be used (\<open>picky\<close>); and
  a connection that is handed back while it is lent is free afterwards.
\<close>

record apool =
  free :: "ptr set"
  lent :: "ptr set"

datatype pool_event = Lend "ptr option" | HandBack "ptr option" | Silent

fun aop :: "bool \<Rightarrow> pool_event \<Rightarrow> apool \<Rightarrow> apool option" where
  "aop picky (Lend None) a = (if free a = {} \<or> picky then Some a else None)"
| "aop picky (Lend (Some k)) a =
     (if k \<in> free a then Some \<lparr>free = free a - {k}, lent = insert k (lent a)\<rparr> else None)"
| "aop picky (HandBack None) a = Some a"
| "aop picky (HandBack (Some k)) a =
     Some (if k \<in> lent a then \<lparr>free = insert k (free a), lent = lent a - {k}\<rparr> else a)"
| "aop picky Silent a = Some a"

definition abs_pool :: "('c, 'w) sys \<Rightarrow> apool" where
  "abs_pool s = \<lparr>free = idle_keys (s_pool s), lent = busy_keys (s_pool s)\<rparr>"

text \<open>
  The event of a step: \<open>get_connection\<close> lends what the new proxy points to, and the destructor of a proxy
  that has a pool, or \<open>release_connection\<close> on a proxy, hands back what it points to.
\<close>

fun event_of :: "pool_op \<Rightarrow> ('c, 'w) sys \<Rightarrow> ('c, 'w) sys \<Rightarrow> pool_event" where
  "event_of (Get q) s t = Lend (Option.bind (s_prox t q) m_connection)"
| "event_of (Dtor q) s t =
     HandBack (Option.bind (s_prox s q) (\<lambda>px. if m_pool px then m_connection px else None))"
| "event_of (Release q) s t = HandBack (Option.bind (s_prox s q) m_connection)"
| "event_of _ s t = Silent"

definition may_refuse :: "('c, 'w) Connection \<Rightarrow> bool" where
  "may_refuse vt \<longleftrightarrow> (\<exists>c w c' w'. check_connect vt c w = Inr (False, c', w'))"

lemma get_loop_none:
  "get_loop vt seen todo w = Inr (None, m, w') \<Longrightarrow> todo \<noteq> [] \<Longrightarrow> may_refuse vt"
proof (induction vt seen todo w rule: get_loop.induct)
  case (2 vt seen k c todo w)
  then obtain ok c1 w1 where c: "check_connect vt c w = Inr (ok, c1, w1)"
    by (auto simp: fbind_eq_Inr_iff)
  with 2(2) have "\<not> ok" by (cases ok) auto
  with c show ?case by (auto simp: may_refuse_def)
qed simp

lemma refused_request:
  assumes "get_connection vt p w = Inr (px, p', w')" and "m_connection px = None"
  shows "idle_keys p = {} \<or> may_refuse vt"
proof (cases "m_connections_idle p = []")
  case False
  with assms(1) obtain found m w1 where
    loop: "get_loop vt [] (m_connections_idle p) w = Inr (found, m, w1)"
    by (auto simp: get_connection_def fbind_eq_Inr_iff)
  have "found = None"
    using assms False loop by (cases found) (auto simp: get_connection_def case_prod_unfold Let_def)
  with loop False show ?thesis using get_loop_none by metis
qed simp

lemma hand_back_refines:
  assumes "pool_wf (s_pool s)" and "s_pool t = release_connection c (s_pool s)"
  shows "aop picky (HandBack c) (abs_pool s) = Some (abs_pool t)"
proof (cases c)
  case None
  then show ?thesis using assms(2) by (simp add: abs_pool_def)
next
  case (Some k)
  then show ?thesis
    using assms pool_give_back [OF assms(1), of k]
    by (cases "k \<in> busy_keys (s_pool s)") (simp_all add: abs_pool_def del: set_map)
qed

lemma step_refines:
  assumes "step vt x s t" and wf: "pool_wf (s_pool s)"
  shows "aop (may_refuse vt) (event_of x s t) (abs_pool s) = Some (abs_pool t)"
  using assms(1)
proof cases
  case (get q px p' w')
  then have e: "event_of x s t = Lend (m_connection px)" "s_pool t = p'" by simp_all
  note l = get_lends [OF get(4)]
  show ?thesis
  proof (cases "m_connection px")
    case None
    with l pool_lend_none [OF wf] have "idle_keys p' = idle_keys (s_pool s) \<and> busy_keys p' = busy_keys (s_pool s)"
      by metis
    with refused_request [OF get(4) None] None e show ?thesis by (simp add: abs_pool_def del: set_map)
  next
    case (Some k)
    with l pool_lend_some [OF wf] have "k \<in> idle_keys (s_pool s) \<and> idle_keys p' = idle_keys (s_pool s) - {k} \<and>
      busy_keys p' = insert k (busy_keys (s_pool s))" by metis
    with Some e show ?thesis by (simp add: abs_pool_def del: set_map)
  qed
next
  case (dtor q px)
  then have "s_pool t = release_connection (if m_pool px then m_connection px else None) (s_pool s)"
    by (simp add: proxy_dtor_def)
  from hand_back_refines [OF wf this] dtor show ?thesis by simp
next
  case (release q px)
  then have "s_pool t = release_connection (m_connection px) (s_pool s)" by (simp add: release_proxy_def)
  from hand_back_refines [OF wf this] release show ?thesis by simp
next
  case (beat r p' w')
  then show ?thesis using heart_beat_keys [OF beat(3)] by (simp add: abs_pool_def del: set_map)
next
  case (rehash idle busy)
  then have "mset (keys idle) = mset (keys (m_connections_idle (s_pool s)))"
    "mset (keys busy) = mset (keys (m_connections_busy (s_pool s)))" by (simp_all add: mset_map)
  from mset_eq_setD [OF this(1)] mset_eq_setD [OF this(2)] rehash show ?thesis
    by (simp add: abs_pool_def del: set_map)
qed (simp_all add: abs_pool_def del: set_map)

end
