(* ===== verification/Pool_Theorems.thy ===== *)
theory Pool_Theorems
  imports Pool_Run
begin

text \<open>
  The properties of the connection pool: conservation of connections, exclusive use under the RAII
  discipline of \<open>ConnectionProxy\<close>, the two ways in which the class lets its users break it, what
  \<open>get_connection\<close> hands out, and the refinement of the abstract pool. \<open>TestConnection\<close> of
  \<open>tests/TestConnection.h\<close>, the connection class of the repository's unit test, instantiates the
  connection interface for the witnesses.
\<close>

section \<open>The connection class of the unit test\<close>

text \<open>Its state is the flag \<open>connected\<close>.\<close>

definition TestConnection :: "(bool, 'w) Connection" where
  "TestConnection =
     \<lparr>heart_beat = (\<lambda>connected w. Inr (Ret connected, connected, w)),
      is_healthy = (\<lambda>connected w. Inr (Ret connected, connected, w)),
      connect = (\<lambda>connected w. Inr (Ret True, True, w)),
      disconnect = (\<lambda>connected w. Inr (Ret (), False, w))\<rparr>"

text \<open>\<open>ConnectionPoolFactory<TestConnection>::create\<close>; the addresses are those \<open>new\<close> returned.\<close>

definition create_test_pool :: "ptr list \<Rightarrow> bool pool" where
  "create_test_pool addresses = new_pool (map (\<lambda>a. (a, False)) addresses)"

lemma TestConnection_accepts: "\<exists>c' w'. check_connect TestConnection c w = Inr (True, c', w')"
  by (cases c) (auto simp: check_connect_def TestConnection_def)

interpretation test: accepting TestConnection "\<lambda>c. True"
  by unfold_locales (simp add: TestConnection_accepts)

section \<open>What the loop of get\_connection finds\<close>

lemma get_loop_refused:
  "get_loop vt seen todo w = Inr (None, m, w') \<Longrightarrow> (k, c) \<in> set todo \<Longrightarrow>
   \<exists>w0 c1 w1. check_connect vt c w0 = Inr (False, c1, w1)"
proof (induction vt seen todo w rule: get_loop.induct)
  case (2 vt seen j d todo w)
  then obtain ok d1 w1 where d: "check_connect vt d w = Inr (ok, d1, w1)"
    by (auto simp: fbind_eq_Inr_iff)
  have ok: "\<not> ok" using 2(2) d by (cases ok) auto
  show ?case
  proof (cases "(k, c) = (j, d)")
    case True
    with d ok show ?thesis by (intro exI [of _ w] exI [of _ d1] exI [of _ w1]) simp
  next
    case False
    with 2(2,3) d ok have "get_loop vt ((j, d1) # seen) todo w1 = Inr (None, m, w')"
      and "(k, c) \<in> set todo" by auto
    with 2(1) [OF d refl refl ok] show ?thesis by blast
  qed
qed simp

lemma get_loop_accepted:
  "get_loop vt seen todo w = Inr (Some k, m, w') \<Longrightarrow>
   \<exists>c w0 c1 w1. (k, c) \<in> set todo \<and> check_connect vt c w0 = Inr (True, c1, w1) \<and> (k, c1) \<in> set m"
proof (induction vt seen todo w rule: get_loop.induct)
  case (2 vt seen j d todo w)
  then obtain ok d1 w1 where d: "check_connect vt d w = Inr (ok, d1, w1)"
    by (auto simp: fbind_eq_Inr_iff)
  show ?case
  proof (cases ok)
    case True
    with 2(2) d show ?thesis
      by (intro exI [of _ d] exI [of _ w] exI [of _ d1] exI [of _ w1]) auto
  next
    case False
    with 2(2) d have "get_loop vt ((j, d1) # seen) todo w1 = Inr (Some k, m, w')" by simp
    with 2(1) [OF d refl refl False] show ?thesis by auto
  qed
qed simp

lemma lent_object:
  assumes wf: "pool_wf p" and get: "get_connection vt p w = Inr (px, p', w')"
    and px: "m_connection px = Some k"
  shows "\<exists>c w0 c1 w1. (k, c) \<in> set (m_connections_idle p) \<and>
           check_connect vt c w0 = Inr (True, c1, w1) \<and> map_of (m_connections_busy p') k = Some c1"
proof -
  have ne: "m_connections_idle p \<noteq> []"
    using get px by (auto simp: get_connection_def null_proxy_def)
  with get obtain found m w2 where loop: "get_loop vt [] (m_connections_idle p) w = Inr (found, m, w2)"
    by (auto simp: get_connection_def fbind_eq_Inr_iff)
  with ne get px have found: "found = Some k"
    by (cases found) (auto simp: get_connection_def null_proxy_def case_prod_unfold Let_def)
  have km: "keys m = keys (m_connections_idle p)"
    using get_loop_keys [OF loop] by simp
  obtain c w0 c1 w1 where c: "(k, c) \<in> set (m_connections_idle p)"
    "check_connect vt c w0 = Inr (True, c1, w1)" "(k, c1) \<in> set m"
    using get_loop_accepted [OF loop [unfolded found]] by blast
  have "map_of m k = Some c1"
    using c(3) km wf by (intro map_of_is_SomeI) (simp_all add: pool_wf_def)
  moreover have "k \<notin> busy_keys p"
    using c(1) wf by (force simp: pool_wf_def)
  ultimately have "map_of (m_connections_busy p') k = Some c1"
    using ne get loop found
    by (auto simp: get_connection_def um_extract_def um_insert_def um_emplace_def simp del: set_map)
  with c(1,2) show ?thesis by blast
qed

lemma refused_all:
  assumes "get_connection vt p w = Inr (null_proxy, p', w')" and "(k, c) \<in> set (m_connections_idle p)"
  shows "\<exists>w0 c1 w1. check_connect vt c w0 = Inr (False, c1, w1)"
proof -
  have ne: "m_connections_idle p \<noteq> []" using assms(2) by auto
  with assms(1) obtain found m w2 where
    loop: "get_loop vt [] (m_connections_idle p) w = Inr (found, m, w2)"
    by (auto simp: get_connection_def fbind_eq_Inr_iff)
  with ne assms(1) have "found = None"
    by (cases found) (auto simp: get_connection_def null_proxy_def case_prod_unfold Let_def)
  with loop assms(2) show ?thesis
    by (intro get_loop_refused [of vt "[]" "m_connections_idle p" w m w2 k]) simp_all
qed

lemma beat_loop_throw:
  "beat_loop vt seen todo w = Inr (Throw e, m, w') \<Longrightarrow>
   \<exists>pre k c c1 post pre' w0. todo = pre @ (k, c) # post \<and> m = pre' @ (k, c1) # post \<and>
     length pre' = length seen + length pre \<and> heart_beat vt c w0 = Inr (Throw e, c1, w')"
proof (induction vt seen todo w rule: beat_loop.induct)
  case (2 vt seen k c todo w)
  then obtain r1 c1 w1 where c: "heart_beat vt c w = Inr (r1, c1, w1)"
    by (auto simp: fbind_eq_Inr_iff)
  show ?case
  proof (cases r1)
    case (Ret b)
    with 2(2) c have "beat_loop vt ((k, c1) # seen) todo w1 = Inr (Throw e, m, w')" by simp
    with 2(1) [OF c refl refl Ret] obtain pre k' c' c1' post pre' w0 where
      "todo = pre @ (k', c') # post" "m = pre' @ (k', c1') # post"
      "length pre' = Suc (length seen) + length pre" "heart_beat vt c' w0 = Inr (Throw e, c1', w')"
      by auto
    then show ?thesis
      by (intro exI [of _ "(k, c) # pre"] exI [of _ k'] exI [of _ c'] exI [of _ c1'] exI [of _ post]
          exI [of _ pre'] exI [of _ w0]) simp
  next
    case (Throw e')
    with 2(2) c show ?thesis
      by (intro exI [of _ "[]"] exI [of _ k] exI [of _ c] exI [of _ c1] exI [of _ todo]
          exI [of _ "rev seen"] exI [of _ w]) auto
  qed
qed simp

section \<open>Properties\<close>

text \<open>C4: no operation, in any order and from any number of proxies, creates, duplicates or drops a
  connection: every one the pool was built with is in exactly one of the two maps, and \<open>size\<close>
  stays the number of connections it was built with.\<close>

theorem pool_conserves_connections:
  assumes "distinct (map fst connections)" and "run vt ops (initial connections w) t"
  shows "distinct (keys (m_connections_idle (s_pool t)) @ keys (m_connections_busy (s_pool t))) \<and>
    idle_keys (s_pool t) \<union> busy_keys (s_pool t) = set (map fst connections) \<and>
    pool_size (s_pool t) = length connections"
  by (rule run_conserves [OF assms])

theorem pool_conserves_connections_witness:
  "\<exists>t. run TestConnection [Get 0, Dtor 0] (initial [(7, False), (9, False)] ()) t \<and>
       distinct (keys (m_connections_idle (s_pool t)) @ keys (m_connections_busy (s_pool t))) \<and>
       idle_keys (s_pool t) \<union> busy_keys (s_pool t) = set (map fst [(7, False), (9, False)]) \<and>
       pool_size (s_pool t) = length [(7 :: nat, False), (9, False)]"
proof -
  have "\<exists>t. run TestConnection [Get 0, Dtor 0] (initial [(7, False), (9, False)] ()) t"
    by (rule exI, rule run.cons, rule step.get [where px = "\<lparr>m_pool = True, m_connection = Some 9\<rparr>"],
        simp add: initial_def, simp add: initial_def new_pool_def um_emplace_def get_connection_def
        check_connect_def TestConnection_def um_extract_def um_insert_def,
        rule run.cons, rule step.dtor, simp, rule run.nil)
  then obtain t where t: "run TestConnection [Get 0, Dtor 0] (initial [(7, False), (9, False)] ()) t"
    by blast
  show ?thesis
    using t pool_conserves_connections [OF _ t] by (intro exI [of _ t]) simp
qed

text \<open>C12: Exclusive use. As long as connections are given back by destroying proxies, and no proxy
  that holds one is assigned to, every busy connection is held by exactly one live proxy, every
  proxy that points to a connection is valid, and no two proxies point to the same one.\<close>

theorem raii_proxies_are_exclusive:
  assumes "distinct (map fst connections)" and "raii_run vt ops (initial connections w) t"
  shows "(\<forall>k. k \<in> busy_keys (s_pool t) \<longrightarrow> (\<exists>!q. \<exists>px. s_prox t q = Some px \<and> m_connection px = Some k)) \<and>
    (\<forall>q px k. s_prox t q = Some px \<and> m_connection px = Some k \<longrightarrow> valid px (s_pool t) \<and> k \<in> busy_keys (s_pool t)) \<and>
    (\<forall>q r px py k. s_prox t q = Some px \<and> m_connection px = Some k \<and>
       s_prox t r = Some py \<and> m_connection py = Some k \<longrightarrow> r = q)"
proof -
  have t: "sys_inv t" "exclusive_sys t"
    using raii_run_exclusive [OF assms(2) initial_inv(1,2) [OF assms(1)]] by simp_all
  have h: "(\<exists>px. s_prox t q = Some px \<and> m_connection px = Some k) \<longleftrightarrow> q \<in> cp.holders (holdings t) k" for q k
    by (auto simp: cp.holders_def holdings_def)
  note ex = t(2) [unfolded exclusive_sys_def]
  have busy: "\<exists>!q. q \<in> cp.holders (holdings t) k" if "k \<in> busy_keys (s_pool t)" for k
    using that ex unfolding cp.exclusive_def by (metis singleton_iff)
  have held: "k \<in> busy_keys (s_pool t) \<and> cp.holders (holdings t) k = {q}"
    if "q \<in> cp.holders (holdings t) k" for q k
    using cp.exclusive_holder [OF ex] that unfolding cp.holders_def by blast
  have valid: "valid px (s_pool t)" if "s_prox t q = Some px" "m_connection px = Some k" for q px k
  proof -
    have "k \<in> busy_keys (s_pool t)" using held h that by blast
    then have "count_list (keys (m_connections_busy (s_pool t))) k \<noteq> 0"
      by (simp add: count_list_0_iff del: set_map)
    moreover have "m_pool px" using t(1) that by (auto simp: sys_inv_def proxies_ok_def)
    ultimately show ?thesis using that(2) by (simp add: valid_def)
  qed
  have one: "r = q" if "q \<in> cp.holders (holdings t) k" "r \<in> cp.holders (holdings t) k" for q r k
    using held [OF that(1)] that(2) by blast
  show ?thesis using busy held valid one unfolding h [symmetric] by blast
qed

definition one_lent :: "(bool, unit) sys" where
  "one_lent =
     \<lparr>s_pool = \<lparr>m_connections_idle = [], m_connections_busy = [(7, True)]\<rparr>,
      s_prox = [0 \<mapsto> \<lparr>m_pool = True, m_connection = Some 7\<rparr>], s_world = ()\<rparr>"

lemma get_one: "step TestConnection (Get 0) (initial [(7, False)] ()) one_lent"
proof -
  have "step TestConnection (Get 0) (initial [(7, False)] ())
      (initial [(7, False)] ()\<lparr>s_pool := \<lparr>m_connections_idle = [], m_connections_busy = [(7, True)]\<rparr>,
        s_prox := (s_prox (initial [(7, False)] ()))(0 \<mapsto> \<lparr>m_pool = True, m_connection = Some 7\<rparr>),
        s_world := ()\<rparr>)"
    by (rule step.get)
      (simp_all add: initial_def new_pool_def um_emplace_def get_connection_def check_connect_def
        TestConnection_def um_extract_def um_insert_def)
  then show ?thesis by (simp add: initial_def one_lent_def)
qed

theorem raii_proxies_are_exclusive_witness:
  "7 \<in> busy_keys (s_pool one_lent) \<and> (\<exists>!q. \<exists>px. s_prox one_lent q = Some px \<and> m_connection px = Some 7) \<and>
   valid \<lparr>m_pool = True, m_connection = Some 7\<rparr> (s_pool one_lent)"
proof -
  have run: "raii_run TestConnection [Get 0] (initial [(7, False)] ()) one_lent"
    by (rule raii_run.cons [OF _ get_one raii_run.nil]) simp
  have d: "distinct (map fst [(7 :: nat, False)])" by simp
  note ex = raii_proxies_are_exclusive [OF d run]
  have b: "7 \<in> busy_keys (s_pool one_lent)" by (simp add: one_lent_def)
  have p: "s_prox one_lent 0 = Some \<lparr>m_pool = True, m_connection = Some 7\<rparr>" by (simp add: one_lent_def)
  show ?thesis
    using b p conjunct1 [OF ex, rule_format, OF b] conjunct1 [OF conjunct2 [OF ex], rule_format, OF conjI [OF p]]
    by simp
qed

text \<open>C40: an explicit \<open>release_connection\<close> leaves the proxy as it was, and its destructor releases a
  second time. If the connection was lent again in between, that second release takes it away from
  its new holder: two valid proxies then share one connection, which a pool of one connection of
  any class that is always accepted shows.\<close>

theorem stale_proxy_causes_double_lending:
  assumes accepts: "\<And>c w. \<exists>c' w'. check_connect vt c w = Inr (True, c', w')"
  shows "\<exists>t px py.
    run vt [Get 0, Release 0, Get 1, Dtor 0, Get 2] (initial [(k, c)] w) t \<and>
    s_prox t 1 = Some px \<and> s_prox t 2 = Some py \<and>
    m_connection px = Some k \<and> m_connection py = Some k \<and>
    valid px (s_pool t) \<and> valid py (s_pool t)"
proof -
  let ?px = "\<lparr>m_pool = True, m_connection = Some k\<rparr>"
  let ?idle = "\<lambda>c. \<lparr>m_connections_idle = [(k, c)], m_connections_busy = []\<rparr>"
  let ?busy = "\<lambda>c. \<lparr>m_connections_idle = [], m_connections_busy = [(k, c)]\<rparr>"
  have get: "\<exists>c' w'. get_connection vt (?idle c) w = Inr (?px, ?busy c', w')" for c w
    using accepts [of c w]
    by (auto simp: get_connection_def um_extract_def um_insert_def um_emplace_def)
  have returned: "release_connection (Some k) (?busy c) = ?idle c" for c
    by (simp add: release_connection_def um_extract_def um_insert_def um_emplace_def)
  obtain c1 w1 where g1: "get_connection vt (?idle c) w = Inr (?px, ?busy c1, w1)" using get by blast
  obtain c2 w2 where g2: "get_connection vt (?idle c1) w1 = Inr (?px, ?busy c2, w2)" using get by blast
  obtain c3 w3 where g3: "get_connection vt (?idle c2) w2 = Inr (?px, ?busy c3, w3)" using get by blast
  let ?s0 = "initial [(k, c)] w"
  let ?s1 = "?s0\<lparr>s_pool := ?busy c1, s_prox := (s_prox ?s0)(0 \<mapsto> ?px), s_world := w1\<rparr>"
  let ?s2 = "?s1\<lparr>s_pool := release_proxy ?px (s_pool ?s1)\<rparr>"
  let ?s3 = "?s2\<lparr>s_pool := ?busy c2, s_prox := (s_prox ?s2)(1 \<mapsto> ?px), s_world := w2\<rparr>"
  let ?s4 = "?s3\<lparr>s_pool := proxy_dtor ?px (s_pool ?s3), s_prox := (s_prox ?s3)(0 := None)\<rparr>"
  let ?s5 = "?s4\<lparr>s_pool := ?busy c3, s_prox := (s_prox ?s4)(2 \<mapsto> ?px), s_world := w3\<rparr>"
  have "run vt [Get 0, Release 0, Get 1, Dtor 0, Get 2] ?s0 ?s5"
    by (rule run.cons, rule step.get, simp add: initial_def,
        simp add: initial_def new_pool_def um_emplace_def g1,
        rule run.cons, rule step.release, simp,
        rule run.cons, rule step.get, simp add: initial_def, simp add: release_proxy_def returned g2,
        rule run.cons, rule step.dtor, simp,
        rule run.cons, rule step.get, simp add: initial_def, simp add: proxy_dtor_def returned g3,
        rule run.nil)
  moreover have "valid ?px (s_pool ?s5)" by (simp add: valid_def)
  ultimately show ?thesis by (intro exI [of _ ?s5] exI [of _ ?px]) simp
qed

theorem stale_proxy_causes_double_lending_witness:
  "\<exists>t px py.
    run TestConnection [Get 0, Release 0, Get 1, Dtor 0, Get 2] (initial [(7, False)] ()) t \<and>
    s_prox t 1 = Some px \<and> s_prox t 2 = Some py \<and>
    m_connection px = Some 7 \<and> m_connection py = Some 7 \<and>
    valid px (s_pool t) \<and> valid py (s_pool t)"
  by (rule stale_proxy_causes_double_lending) (rule TestConnection_accepts)

text \<open>Move assignment to a proxy that holds a connection does not give that connection back. It
  stays busy for good: no later sequence of operations makes it idle or gives any proxy access
  to it again.\<close>

theorem assignment_over_a_holder_leaks:
  assumes "distinct (map fst connections)" and "raii_run vt ops (initial connections w) s"
    and "s_prox s r = Some py" and "m_connection py = Some k"
    and "step vt (Assign q r) s s'" and "q \<noteq> r" and "run vt later s' t"
  shows "k \<in> busy_keys (s_pool t) \<and> (\<forall>i px. s_prox t i = Some px \<longrightarrow> m_connection px \<noteq> Some k)"
proof -
  have s: "sys_inv s" "exclusive_sys s"
    using raii_run_exclusive [OF assms(2) initial_inv(1,2) [OF assms(1)]] by simp_all
  have "lost_sys k s'"
    using assms(3,4) by (intro assign_over_holder_loses [OF assms(5,6) s(2)]) (simp add: holdings_def)
  then have "lost_sys k t"
    using run_lost [OF assms(7)] step_sys_inv [OF assms(5) s(1)] by blast
  then show ?thesis
    unfolding lost_sys_def cp.lost_def cp.holders_def by (auto simp: holdings_def simp del: set_map)
qed

definition two_holders :: "(bool, unit) sys" where
  "two_holders = one_lent\<lparr>s_prox := (s_prox one_lent)(1 \<mapsto> null_proxy)\<rparr>"

definition after_assign :: "(bool, unit) sys" where
  "after_assign = one_lent\<lparr>s_prox := (s_prox one_lent)(0 \<mapsto> null_proxy, 1 \<mapsto> null_proxy)\<rparr>"

lemma get_two: "step TestConnection (Get 1) one_lent two_holders"
proof -
  have "step TestConnection (Get 1) one_lent
      (one_lent\<lparr>s_pool := s_pool one_lent, s_prox := (s_prox one_lent)(1 \<mapsto> null_proxy), s_world := ()\<rparr>)"
    by (rule step.get) (simp_all add: one_lent_def get_connection_def)
  then show ?thesis by (simp add: two_holders_def one_lent_def)
qed

lemma assign_two: "step TestConnection (Assign 1 0) two_holders after_assign"
proof -
  have "step TestConnection (Assign 1 0) two_holders
      (two_holders\<lparr>s_prox := (s_prox two_holders)(0 \<mapsto> null_proxy, 1 \<mapsto> null_proxy)\<rparr>)"
    by (rule step.assign [where other = null_proxy and this = "\<lparr>m_pool = True, m_connection = Some 7\<rparr>"])
      (simp_all add: two_holders_def one_lent_def proxy_assign_def)
  then show ?thesis by (simp add: two_holders_def after_assign_def fun_upd_twist)
qed

theorem assignment_over_a_holder_leaks_witness:
  "7 \<in> busy_keys (s_pool after_assign) \<and>
   {i. \<exists>px. s_prox after_assign i = Some px \<and> m_connection px = Some 7} = {}"
proof -
  have run: "raii_run TestConnection [Get 0, Get 1] (initial [(7, False)] ()) two_holders"
    by (rule raii_run.cons [OF _ get_one raii_run.cons [OF _ get_two raii_run.nil]]) simp_all
  have "s_prox two_holders 0 = Some \<lparr>m_pool = True, m_connection = Some 7\<rparr>"
    by (simp add: two_holders_def one_lent_def)
  from assignment_over_a_holder_leaks [OF _ run this _ assign_two _ run.nil]
  show ?thesis by auto
qed

text \<open>C27: what \<open>get_connection\<close> hands out. Either an empty proxy, and then the check refused every
  idle connection and no connection moved; or a proxy to a connection that was idle and passed the
  check, which is now busy, in the state the check left it in, while all others stay where they were.\<close>

theorem get_connection_spec:
  assumes "pool_wf p" and "get_connection vt p w = Inr (px, p', w')"
  shows "(px = null_proxy \<and> keys (m_connections_idle p') = keys (m_connections_idle p) \<and>
      m_connections_busy p' = m_connections_busy p \<and>
      (\<forall>k c. (k, c) \<in> set (m_connections_idle p) \<longrightarrow>
         (\<exists>w0 c1 w1. check_connect vt c w0 = Inr (False, c1, w1)))) \<or>
    (\<exists>k c w0 c1 w1. px = \<lparr>m_pool = True, m_connection = Some k\<rparr> \<and>
      (k, c) \<in> set (m_connections_idle p) \<and> check_connect vt c w0 = Inr (True, c1, w1) \<and>
      map_of (m_connections_busy p') k = Some c1 \<and>
      keys (m_connections_idle p') = filter (\<lambda>j. j \<noteq> k) (keys (m_connections_idle p)) \<and>
      keys (m_connections_busy p') = k # keys (m_connections_busy p))"
  using get_connection_keys [OF assms(2,1)]
proof (elim disjE exE conjE)
  assume "px = null_proxy" "keys (m_connections_idle p') = keys (m_connections_idle p)"
    "m_connections_busy p' = m_connections_busy p"
  with assms(2) refused_all [of vt p w p' w'] show ?thesis by blast
next
  fix k
  assume k: "px = \<lparr>m_pool = True, m_connection = Some k\<rparr>" "k \<in> idle_keys p"
    "keys (m_connections_idle p') = filter (\<lambda>j. j \<noteq> k) (keys (m_connections_idle p))"
    "keys (m_connections_busy p') = k # keys (m_connections_busy p)"
  with lent_object [OF assms, of k] show ?thesis by (metis ConnectionProxy.select_convs(2))
qed

theorem get_connection_spec_witness:
  "\<exists>p' w'. get_connection TestConnection (create_test_pool [3, 5]) () =
      Inr (\<lparr>m_pool = True, m_connection = Some 5\<rparr>, p', w') \<and>
    map_of (m_connections_busy p') 5 = Some True \<and>
    keys (m_connections_idle p') = [3] \<and> keys (m_connections_busy p') = [5]"
proof -
  have wf: "pool_wf (create_test_pool [3, 5])"
    by (simp add: pool_wf_def create_test_pool_def new_pool_def um_emplace_def)
  obtain p' w' where g: "get_connection TestConnection (create_test_pool [3, 5]) () =
      Inr (\<lparr>m_pool = True, m_connection = Some 5\<rparr>, p', w')"
    by (simp add: create_test_pool_def new_pool_def um_emplace_def get_connection_def
        check_connect_def TestConnection_def um_extract_def um_insert_def)
  from get_connection_spec [OF wf g]
  have "map_of (m_connections_busy p') 5 = Some True \<and>
    keys (m_connections_idle p') = [3] \<and> keys (m_connections_busy p') = [5]"
    by (auto simp: null_proxy_def create_test_pool_def new_pool_def um_emplace_def
        check_connect_def TestConnection_def)
  with g show ?thesis by (intro exI [of _ p'] exI [of _ w']) simp
qed

text \<open>A connection whose \<open>connect\<close> throws is lent all the same: \<open>check_connect\<close> answers \<open>true\<close>
  after catching the exception, so \<open>get_connection\<close> hands out the unconnected object.\<close>

theorem failed_connect_is_lent:
  assumes "pool_wf p" and "m_connections_idle p = (k, c) # others"
    and "is_healthy vt c w = Inr (Ret False, c1, w1)"
    and "connect vt c1 w1 = Inr (Throw e, c2, w2)"
  shows "get_connection vt p w =
    Inr (\<lparr>m_pool = True, m_connection = Some k\<rparr>,
         \<lparr>m_connections_idle = others, m_connections_busy = (k, c2) # m_connections_busy p\<rparr>, w2)"
proof -
  have "check_connect vt c w = Inr (True, c2, w2)"
    using assms(3,4) by (simp add: check_connect_def)
  then show ?thesis by (rule get_connection_head [OF assms(2,1)])
qed

theorem failed_connect_is_lent_witness:
  "get_connection (TestConnection\<lparr>connect := \<lambda>c w. Inr (Throw ''refused'', c, w)\<rparr>)
      (create_test_pool [3]) () =
    Inr (\<lparr>m_pool = True, m_connection = Some 3\<rparr>,
         \<lparr>m_connections_idle = [],
          m_connections_busy = (3, False) # m_connections_busy (create_test_pool [3])\<rparr>, ())"
  by (rule failed_connect_is_lent [where c = False and ?c1.0 = False and e = "''refused''"])
    (simp_all add: pool_wf_def create_test_pool_def new_pool_def um_emplace_def TestConnection_def)

text \<open>C28: The pool refines its abstract specification, event by event. Every step of every interleaving is
  the event of the abstract pool that its users see: a \<open>get_connection\<close> that yields a proxy to a
  connection takes exactly this one out of the free connections; one that yields the null proxy happens
  only when nothing is free, or when the connection class may refuse a connection (\<open>may_refuse\<close>), and
  changes nothing; destroying a proxy that has a pool and \<open>release_connection\<close> on a proxy make the
  connection it points to free if it was lent, and change nothing otherwise; and moving and assigning
  proxies, heart beats, the use of connections and a new iteration order change neither set.\<close>

theorem pool_refines_abstract_pool:
  assumes "step vt x s t" and "pool_wf (s_pool s)"
  shows "aop (may_refuse vt) (event_of x s t) (abs_pool s) = Some (abs_pool t)"
  using assms by (rule step_refines)

theorem pool_refines_abstract_pool_witness:
  "event_of (Get 0) (initial [(7, False)] ()) one_lent = Lend (Some 7) \<and>
   aop (may_refuse TestConnection) (Lend (Some 7)) (abs_pool (initial [(7, False)] ())) = Some (abs_pool one_lent)"
proof -
  have e: "event_of (Get 0) (initial [(7, False)] ()) one_lent = Lend (Some 7)" by (simp add: one_lent_def)
  have "pool_wf (s_pool (initial [(7, False)] ()))"
    by (simp add: initial_def new_pool_def um_emplace_def pool_wf_def)
  from pool_refines_abstract_pool [OF get_one this] e show ?thesis by simp
qed

text \<open>\<open>heart_beat\<close> moves no connection and does not touch the busy ones; an exception from one idle
  connection leaves it, and those that follow it in the iteration are not visited.\<close>

theorem heart_beat_spec:
  assumes "pool_heart_beat vt p w = Inr (r, p', w')"
  shows "m_connections_busy p' = m_connections_busy p \<and>
    keys (m_connections_idle p') = keys (m_connections_idle p) \<and>
    (\<forall>e. r = Throw e \<longrightarrow> (\<exists>pre k c c1 post pre' w0.
       m_connections_idle p = pre @ (k, c) # post \<and> m_connections_idle p' = pre' @ (k, c1) # post \<and>
       length pre' = length pre \<and> heart_beat vt c w0 = Inr (Throw e, c1, w')))"
proof -
  obtain m where m: "beat_loop vt [] (m_connections_idle p) w = Inr (r, m, w')"
    "p' = p\<lparr>m_connections_idle := m\<rparr>"
    using assms by (auto simp: pool_heart_beat_def fbind_eq_Inr_iff)
  have "\<exists>pre k c c1 post pre' w0. m_connections_idle p = pre @ (k, c) # post \<and>
      m_connections_idle p' = pre' @ (k, c1) # post \<and> length pre' = length pre \<and>
      heart_beat vt c w0 = Inr (Throw e, c1, w')" if "r = Throw e" for e
    using beat_loop_throw [OF m(1) [unfolded that]] m(2) by simp
  then show ?thesis
    using heart_beat_keys [OF assms] by blast
qed

theorem heart_beat_spec_witness:
  "\<exists>p' w'. pool_heart_beat (TestConnection\<lparr>heart_beat := \<lambda>c w. Inr (Throw ''reset'', c, w)\<rparr>)
        (create_test_pool [3, 5]) () = Inr (Throw ''reset'', p', w') \<and>
    m_connections_busy p' = [] \<and> keys (m_connections_idle p') = [5, 3] \<and>
    (\<exists>pre k c c1 post pre'.
       m_connections_idle (create_test_pool [3, 5]) = pre @ (k, c) # post \<and>
       m_connections_idle p' = pre' @ (k, c1) # post \<and> length pre' = length pre)"
proof -
  obtain p' w' where g: "pool_heart_beat (TestConnection\<lparr>heart_beat := \<lambda>c w. Inr (Throw ''reset'', c, w)\<rparr>)
        (create_test_pool [3, 5]) () = Inr (Throw ''reset'', p', w')"
    by (simp add: create_test_pool_def new_pool_def um_emplace_def pool_heart_beat_def
        TestConnection_def)
  have "m_connections_busy (create_test_pool [3, 5]) = []"
    "keys (m_connections_idle (create_test_pool [3, 5])) = [5, 3]"
    by (simp_all add: create_test_pool_def new_pool_def um_emplace_def)
  with g heart_beat_spec [OF g] show ?thesis by metis
qed

text \<open>The run of the repository's unit test \<open>testconnection\<close>, for a pool of any size: after
  creation all connections are idle; one \<open>get_connection\<close> yields a valid proxy to a connected
  object and moves one to the busy side; releasing it restores the sizes.\<close>

theorem unit_test_scenario:
  assumes "distinct addresses" and "addresses = a # others"
  shows "\<exists>px p' w' k.
    size_busy (create_test_pool addresses) = 0 \<and>
    size_idle (create_test_pool addresses) = length addresses \<and>
    pool_size (create_test_pool addresses) = length addresses \<and>
    get_connection TestConnection (create_test_pool addresses) w = Inr (px, p', w') \<and>
    valid px p' \<and> size_busy p' = 1 \<and> size_idle p' = length addresses - 1 \<and>
    pool_size p' = length addresses \<and>
    proxy_deref px = Inr k \<and> map_of (m_connections_busy p') k = Some True \<and>
    size_busy (release_proxy px p') = 0 \<and>
    size_idle (release_proxy px p') = length addresses \<and>
    pool_size (release_proxy px p') = length addresses"
proof -
  let ?p = "create_test_pool addresses"
  let ?cs = "map (\<lambda>a. (a, False)) addresses"
  have fst_cs: "map fst ?cs = addresses" by (simp add: comp_def)
  have keys: "keys (m_connections_idle ?p) = rev addresses" "m_connections_busy ?p = []"
    using new_pool_keys [of ?cs] assms(1) by (simp_all add: create_test_pool_def new_pool_def comp_def)
  then have wf: "pool_wf ?p" using assms(1) by (simp add: pool_wf_def)
  have len: "length (m_connections_idle ?p) = length addresses"
    using arg_cong [OF keys(1), of length] by simp
  obtain k c rest where idle: "m_connections_idle ?p = (k, c) # rest"
    using len assms(2) by (cases "m_connections_idle ?p") auto
  then have lr: "Suc (length rest) = length addresses" using len by simp
  have lent: "get_connection TestConnection ?p w =
      Inr (\<lparr>m_pool = True, m_connection = Some k\<rparr>,
           \<lparr>m_connections_idle = rest, m_connections_busy = [(k, True)]\<rparr>, w)"
    using idle wf keys(2)
    by (cases c) (auto simp: get_connection_def check_connect_def TestConnection_def um_extract_def
        um_insert_def um_emplace_def pool_wf_def filter_id_conv)
  have "release_proxy \<lparr>m_pool = True, m_connection = Some k\<rparr>
      \<lparr>m_connections_idle = rest, m_connections_busy = [(k, True)]\<rparr> =
      \<lparr>m_connections_idle = (k, True) # rest, m_connections_busy = []\<rparr>"
    using idle wf
    by (auto simp: release_proxy_def release_connection_def um_extract_def um_insert_def
        um_emplace_def pool_wf_def)
  with lent keys(2) len lr show ?thesis
    by (simp add: size_busy_def size_idle_def pool_size_def valid_def proxy_deref_def)
qed

theorem unit_test_scenario_witness:
  "\<exists>px p' w' k.
    size_busy (create_test_pool [1, 2, 3, 4]) = 0 \<and>
    size_idle (create_test_pool [1, 2, 3, 4]) = length [1, 2, 3, 4 :: nat] \<and>
    pool_size (create_test_pool [1, 2, 3, 4]) = length [1, 2, 3, 4 :: nat] \<and>
    get_connection TestConnection (create_test_pool [1, 2, 3, 4]) () = Inr (px, p', w') \<and>
    valid px p' \<and> size_busy p' = 1 \<and> size_idle p' = length [1, 2, 3, 4 :: nat] - 1 \<and>
    pool_size p' = length [1, 2, 3, 4 :: nat] \<and>
    proxy_deref px = Inr k \<and> map_of (m_connections_busy p') k = Some True \<and>
    size_busy (release_proxy px p') = 0 \<and>
    size_idle (release_proxy px p') = length [1, 2, 3, 4 :: nat] \<and>
    pool_size (release_proxy px p') = length [1, 2, 3, 4 :: nat]"
  by (rule unit_test_scenario) simp_all

end
