(* ===== verification/Unit_Test.thy ===== *)
theory Unit_Test
  imports Pool_Theorems
begin

text \<open>
  The unit test of the repository (\<open>tests/test_basic.h\<close>, \<open>tests/tests.cpp\<close>), as a program over the pool.
  The macros of the test framework are not in the repository: the test is modelled by the list of its
  assertions' values, in order, and by what it leaves when it ends, the destructor of the local proxy
  included. Its connections are at the addresses that \<open>new\<close> returned.
\<close>

definition testconnection ::
    "ptr list \<Rightarrow> 'w \<Rightarrow> fault + (bool list \<times> unit outcome \<times> bool pool \<times> 'w)" where
  "testconnection addresses w =
     (let pool = create_test_pool addresses;
          created = [size_busy pool = 0, size_idle pool = 4, pool_size pool = 4]
      in fbind (get_connection TestConnection pool w) (\<lambda>(connection, pool, w).
         let lent = [valid connection pool, size_busy pool = 1, size_idle pool = 3, pool_size pool = 4]
         in fbind (proxy_deref connection) (\<lambda>test_connection.
            case map_of (m_connections_busy pool) test_connection of None \<Rightarrow> Inl UseAfterFree
            | Some c \<Rightarrow>
                fbind (is_healthy TestConnection c w) (\<lambda>(healthy, c, w).
                  let pool = release_proxy connection pool;
                      released = [size_busy pool = 0, size_idle pool = 4, pool_size pool = 4]
                  in fbind (pool_heart_beat TestConnection pool w) (\<lambda>(beat, pool, w).
                     Inr (created @ lent @ [healthy = Ret True] @ released, beat, proxy_dtor connection pool, w))))))"

text \<open>The second release of the connection, by the destructor of the proxy, finds it idle and does nothing.\<close>

text \<open>The unit test passes. With four connections at different addresses, all its assertions hold, its
  heart beat throws nothing, and it ends without a fault, with every connection idle again, although the
  local proxy still refers to the released connection and releases it once more.
\<close>

theorem unit_test_passes:
  assumes "distinct addresses" and "length addresses = 4"
  shows "\<exists>asserted pool. testconnection addresses w = Inr (asserted, Ret (), pool, w) \<and> length asserted = 11 \<and>
    (\<forall>a \<in> set asserted. a) \<and> m_connections_busy pool = [] \<and> idle_keys pool = set addresses"
proof -
  obtain a b c d where a: "addresses = [a, b, c, d]" using assms(2) by (auto simp: length_Suc_conv eval_nat_numeral)
  have "distinct [a, b, c, d]" using assms(1) a by simp
  then show ?thesis
    by (auto simp: a testconnection_def create_test_pool_def new_pool_def um_emplace_def um_extract_def um_insert_def
        get_connection_def check_connect_def TestConnection_def size_busy_def size_idle_def pool_size_def valid_def
        proxy_deref_def release_proxy_def release_connection_def pool_heart_beat_def proxy_dtor_def Let_def)
qed

theorem unit_test_passes_witness:
  "\<exists>asserted pool. testconnection [1, 2, 3, 4] () = Inr (asserted, Ret (), pool, ()) \<and> (\<forall>a \<in> set asserted. a)"
  using unit_test_passes [of "[1, 2, 3, 4]" "()"] by auto

end
