(* ===== verification/Posix.thy ===== *)
theory Posix
  imports Prelude
begin

text \<open>
  The operating system as the engine sees it. None of this is code of the repository: the system
  calls are a parameter (\<open>os\<close>) of every definition that uses them, \<open>'w\<close> is the state of the kernel,
  the network and the peers, and the locale \<open>posix\<close> names the documented behaviour that proofs rely
  on. \<open>kernel\<close> and \<open>sim\<close> are one concrete system on which the theorems are exercised.

  A system call returns its C result; \<open>recv\<close> returns the received bytes, \<open>None\<close> standing for -1, and
  \<open>os_errno\<close> is the \<open>errno\<close> that the last call left.
\<close>

section \<open>The system calls\<close>

datatype recv_flags = NoFlags | WaitAll | PeekDontWait

datatype storage = StaticStorage | HeapStorage

text \<open>What the engine reads of a \<open>hostent\<close>: its name, its first address, and where it is stored.\<close>

record hostent =
  h_name :: "string option"
  h_addr :: "u32 option"
  h_storage :: storage

record sockaddr_in =
  sin_port :: u16
  sin_addr :: u32

record 'w os =
  os_errno :: "'w \<Rightarrow> int"
  os_socket :: "'w \<Rightarrow> int \<times> 'w"
  os_close :: "int \<Rightarrow> 'w \<Rightarrow> int \<times> 'w"
  os_recv :: "int \<Rightarrow> nat \<Rightarrow> recv_flags \<Rightarrow> 'w \<Rightarrow> bytes option \<times> 'w"
  os_send :: "int \<Rightarrow> bytes \<Rightarrow> 'w \<Rightarrow> int \<times> 'w"
  os_fionread :: "int \<Rightarrow> 'w \<Rightarrow> (int \<times> u64) \<times> 'w"
  os_getfl :: "int \<Rightarrow> 'w \<Rightarrow> int \<times> 'w"
  os_setfl :: "int \<Rightarrow> u32 \<Rightarrow> 'w \<Rightarrow> int \<times> 'w"
  os_select :: "int \<Rightarrow> int set \<Rightarrow> nat option \<Rightarrow> 'w \<Rightarrow> (int \<times> int set) \<times> 'w"
  os_connect :: "int \<Rightarrow> sockaddr_in \<Rightarrow> 'w \<Rightarrow> int \<times> 'w"
  os_bind :: "int \<Rightarrow> sockaddr_in \<Rightarrow> 'w \<Rightarrow> int \<times> 'w"
  os_listen :: "int \<Rightarrow> int \<Rightarrow> 'w \<Rightarrow> int \<times> 'w"
  os_accept :: "int \<Rightarrow> 'w \<Rightarrow> int \<times> 'w"
  os_reuseport :: "int \<Rightarrow> 'w \<Rightarrow> int \<times> 'w"
  os_gethostbyname :: "string \<Rightarrow> 'w \<Rightarrow> hostent option \<times> 'w"
  os_strerror :: "int \<Rightarrow> string"

definition EINTR :: int where "EINTR = 4"
definition EAGAIN :: int where "EAGAIN = 11"
definition EWOULDBLOCK :: int where "EWOULDBLOCK = EAGAIN"
definition EMFILE :: int where "EMFILE = 24"
definition INVALID_SOCKET :: int where "INVALID_SOCKET = - 1"
definition SOCKET_ERROR :: int where "SOCKET_ERROR = - 1"

section \<open>The documented behaviour\<close>

text \<open>
  \<open>incoming s w\<close> are the bytes that are still to be received on the descriptor \<open>s\<close>, to the end of
  the stream, and \<open>sent s w\<close> those the kernel has accepted on it. \<open>recv\<close> takes at most the asked
  number of bytes off the front of the stream, and none only at its end; a failed \<open>recv\<close> and the
  calls that only ask for a state take nothing. \<open>send\<close> accepts a prefix of its buffer or fails.
\<close>

locale posix =
  fixes os :: "'w os"
    and incoming :: "int \<Rightarrow> 'w \<Rightarrow> bytes"
    and sent :: "int \<Rightarrow> 'w \<Rightarrow> bytes"
  assumes recv_takes: "os_recv os s n f w = (Some bs, w') \<Longrightarrow> f \<noteq> PeekDontWait \<Longrightarrow>
      length bs \<le> n \<and> incoming s w = bs @ incoming s w' \<and> (0 < n \<and> bs = [] \<longrightarrow> incoming s w = [])"
    and recv_fails: "os_recv os s n f w = (None, w') \<Longrightarrow> incoming s w' = incoming s w"
    and recv_others: "os_recv os s n f w = (got, w') \<Longrightarrow>
      sent t w' = sent t w \<and> (t \<noteq> s \<longrightarrow> incoming t w' = incoming t w)"
    and fionread_asks: "os_fionread os s w = (avail, w') \<Longrightarrow>
      incoming t w' = incoming t w \<and> sent t w' = sent t w"
    and select_asks: "os_select os m fds tv w = (ready, w') \<Longrightarrow>
      incoming t w' = incoming t w \<and> sent t w' = sent t w"
    and send_accepts: "os_send os s bs w = (r, w') \<Longrightarrow>
      sent s w' = sent s w @ take (nat r) bs \<and> r \<le> int (length bs) \<and>
      (t \<noteq> s \<longrightarrow> sent t w' = sent t w) \<and> incoming t w' = incoming t w"

text \<open>
  A system that makes progress: \<open>fails s w\<close> is how many calls of \<open>recv\<close> on \<open>s\<close> will still fail
  (interrupted by a signal, timed out, and so on), which is assumed to be finite.
\<close>

locale posix_live = posix +
  fixes fails :: "int \<Rightarrow> 'w \<Rightarrow> nat"
  assumes recv_failure: "os_recv os s n f w = (None, w') \<Longrightarrow> fails s w' < fails s w"
    and recv_success: "os_recv os s n f w = (Some bs, w') \<Longrightarrow> fails s w' \<le> fails s w"
    and fionread_calm: "os_fionread os s w = (avail, w') \<Longrightarrow> fails t w' \<le> fails t w"

text \<open>
  The table of open descriptors. \<open>socket\<close> and \<open>accept\<close> return a descriptor that was not open, or
  -1; \<open>close\<close> releases one; no other call opens or closes anything.
\<close>

locale fd_table =
  fixes os :: "'w os" and opened :: "'w \<Rightarrow> int set"
  assumes socket_opens: "os_socket os w = (s, w') \<Longrightarrow>
      s = - 1 \<and> opened w' = opened w \<or> 0 \<le> s \<and> s \<notin> opened w \<and> opened w' = insert s (opened w)"
    and accept_opens: "os_accept os l w = (s, w') \<Longrightarrow>
      s = - 1 \<and> opened w' = opened w \<or> 0 \<le> s \<and> s \<notin> opened w \<and> opened w' = insert s (opened w)"
    and close_closes: "os_close os s w = (r, w') \<Longrightarrow> opened w' = opened w - {s}"
    and connect_keeps: "os_connect os s a w = (r, w') \<Longrightarrow> opened w' = opened w"
    and lookup_keeps: "os_gethostbyname os n w = (hp, w') \<Longrightarrow> opened w' = opened w"
    and bind_keeps: "os_bind os s a w = (r, w') \<Longrightarrow> opened w' = opened w"
    and listen_keeps: "os_listen os s k w = (r, w') \<Longrightarrow> opened w' = opened w"
    and option_keeps: "os_reuseport os s w = (r, w') \<Longrightarrow> opened w' = opened w"
    and flags_keep: "os_getfl os s w = (r, w') \<Longrightarrow> opened w' = opened w"
      "os_setfl os s fl w = (r, w') \<Longrightarrow> opened w' = opened w"
    and recv_keeps: "os_recv os s cnt f w = (got, w') \<Longrightarrow> opened w' = opened w"
    and send_keeps: "os_send os s bs w = (r, w') \<Longrightarrow> opened w' = opened w"
    and fionread_keeps: "os_fionread os s w = (avail, w') \<Longrightarrow> opened w' = opened w"
    and select_keeps: "os_select os m set_of tv w = (ready, w') \<Longrightarrow> opened w' = opened w"

section \<open>A concrete system\<close>

text \<open>
  \<open>k_in s\<close> are the segments that arrive on the descriptor \<open>s\<close>, the end of the list being the end of
  the stream and an empty segment standing for a \<open>recv\<close> that times out; \<open>k_intr\<close> calls of \<open>recv\<close> are
  interrupted first; \<open>k_room\<close> limits how much one \<open>send\<close> accepts. Descriptors are handed out in ascending order, and \<open>k_log\<close> records what was sent and
  closed.
\<close>

datatype event = Sent int bytes | Closed int | Connected int sockaddr_in

record kernel =
  k_in :: "int \<Rightarrow> bytes list"
  k_intr :: nat
  k_room :: nat
  k_next :: int
  k_errno :: int
  k_log :: "event list"
  k_open :: "int set"
  k_accept :: "int list"

fun sent_on :: "int \<Rightarrow> event list \<Rightarrow> bytes" where
  "sent_on s [] = []"
| "sent_on s (Sent t bs # es) = (if s = t then bs @ sent_on s es else sent_on s es)"
| "sent_on s (_ # es) = sent_on s es"

definition log :: "event \<Rightarrow> kernel \<Rightarrow> kernel" where
  "log e w = w\<lparr>k_log := k_log w @ [e]\<rparr>"

fun take_segment :: "nat \<Rightarrow> bytes list \<Rightarrow> bytes option \<times> bytes list" where
  "take_segment n [] = (Some [], [])"
| "take_segment n (b # bs) =
     (if b = [] then (None, bs)
      else (Some (take n b), if length b \<le> n then bs else drop n b # bs))"

definition sim_recv :: "int \<Rightarrow> nat \<Rightarrow> recv_flags \<Rightarrow> kernel \<Rightarrow> bytes option \<times> kernel" where
  "sim_recv s n f w =
     (if 0 < k_intr w then (None, w\<lparr>k_intr := k_intr w - 1, k_errno := EINTR\<rparr>)
      else let (got, left) = take_segment n (k_in w s)
           in (got, if got = None then w\<lparr>k_in := (k_in w)(s := left), k_errno := EAGAIN\<rparr>
                    else if f = PeekDontWait then w else w\<lparr>k_in := (k_in w)(s := left)\<rparr>))"

definition sim_open :: "int \<Rightarrow> kernel \<Rightarrow> int \<times> kernel" where
  "sim_open s w =
     (if s < 0 \<or> s \<in> k_open w then (- 1, w\<lparr>k_errno := EMFILE\<rparr>)
      else (s, w\<lparr>k_open := insert s (k_open w)\<rparr>))"

definition sim :: "kernel os" where
  "sim =
     \<lparr>os_errno = k_errno,
      os_socket = (\<lambda>w. sim_open (k_next w) (w\<lparr>k_next := k_next w + 1\<rparr>)),
      os_close = (\<lambda>s w. (0, log (Closed s) (w\<lparr>k_open := k_open w - {s}\<rparr>))),
      os_recv = sim_recv,
      os_send = (\<lambda>s bs w. (int (min (k_room w) (length bs)), log (Sent s (take (k_room w) bs)) w)),
      os_fionread = (\<lambda>s w. ((0, word_of_nat (case k_in w s of [] \<Rightarrow> 0 | b # _ \<Rightarrow> length b)), w)),
      os_getfl = (\<lambda>s w. (2, w)),
      os_setfl = (\<lambda>s fl w. (0, w)),
      os_select = (\<lambda>m fds tv w. ((int (card fds), fds), w)),
      os_connect = (\<lambda>s a w. (0, log (Connected s a) w)),
      os_bind = (\<lambda>s a w. (0, w)),
      os_listen = (\<lambda>s n w. (0, w)),
      os_accept = (\<lambda>s w. case k_accept w of [] \<Rightarrow> (-1, w\<lparr>k_errno := EAGAIN\<rparr>)
                         | c # cs \<Rightarrow> sim_open c (w\<lparr>k_accept := cs\<rparr>)),
      os_reuseport = (\<lambda>s w. (0, w)),
      os_gethostbyname =
        (\<lambda>n w. (Some \<lparr>h_name = Some n, h_addr = Some 0x7F000001, h_storage = StaticStorage\<rparr>, w)),
      os_strerror = (\<lambda>e. ''error'')\<rparr>"

definition boot :: kernel where
  "boot = \<lparr>k_in = (\<lambda>s. []), k_intr = 0, k_room = 1000000, k_next = 3,
           k_errno = 0, k_log = [], k_open = {}, k_accept = []\<rparr>"

lemma sent_on_append: "sent_on s (es @ fs) = sent_on s es @ sent_on s fs"
  by (induction s es rule: sent_on.induct) auto

lemma take_segment_some:
  "take_segment n segs = (Some got, left) \<Longrightarrow>
   length got \<le> n \<and> concat segs = got @ concat left \<and> (0 < n \<and> got = [] \<longrightarrow> concat segs = []) \<and>
   length (filter (\<lambda>b. b = []) left) \<le> length (filter (\<lambda>b. b = []) segs)"
  by (cases segs) (auto split: if_splits)

lemma take_segment_none:
  "take_segment n segs = (None, left) \<Longrightarrow> concat segs = concat left \<and>
   length (filter (\<lambda>b. b = []) left) < length (filter (\<lambda>b. b = []) segs)"
  by (cases segs) (auto split: if_splits)

definition sim_in :: "int \<Rightarrow> kernel \<Rightarrow> bytes" where
  "sim_in s w = concat (k_in w s)"

definition sim_out :: "int \<Rightarrow> kernel \<Rightarrow> bytes" where
  "sim_out s w = sent_on s (k_log w)"

definition sim_fails :: "int \<Rightarrow> kernel \<Rightarrow> nat" where
  "sim_fails s w = k_intr w + length (filter (\<lambda>b. b = []) (k_in w s))"

lemma sim_recv_some:
  assumes "sim_recv s n f w = (Some bs, w')"
  shows "sim_fails s w' \<le> sim_fails s w \<and> (f \<noteq> PeekDontWait \<longrightarrow>
    length bs \<le> n \<and> sim_in s w = bs @ sim_in s w' \<and> (0 < n \<and> bs = [] \<longrightarrow> sim_in s w = []))"
proof -
  obtain got left where g: "take_segment n (k_in w s) = (got, left)" by fastforce
  then have b: "got = Some bs" "k_intr w' = k_intr w" "k_in w' s = (if f = PeekDontWait then k_in w s else left)"
    using assms by (auto simp: sim_recv_def split: if_splits)
  note t = take_segment_some [OF g [unfolded b(1)]]
  have "sim_fails s w' \<le> sim_fails s w"
    using t unfolding sim_fails_def b(2,3) by (cases "f = PeekDontWait") simp_all
  moreover have "sim_in s w' = concat left" if "f \<noteq> PeekDontWait"
    using that by (simp add: sim_in_def b(3))
  moreover have "sim_in s w = concat (k_in w s)" by (simp add: sim_in_def)
  ultimately show ?thesis using t by metis
qed

lemma sim_recv_none:
  assumes "sim_recv s n f w = (None, w')"
  shows "sim_in s w' = sim_in s w \<and> sim_fails s w' < sim_fails s w"
proof (cases "0 < k_intr w")
  case True
  then show ?thesis using assms by (auto simp: sim_recv_def sim_in_def sim_fails_def)
next
  case False
  obtain got left where g: "take_segment n (k_in w s) = (got, left)" by fastforce
  then have b: "got = None" "k_intr w' = k_intr w" "k_in w' s = left"
    using assms False by (auto simp: sim_recv_def split: if_splits)
  show ?thesis
    using take_segment_none [OF g [unfolded b(1)]]
    unfolding sim_in_def sim_fails_def b(2,3) by simp
qed

lemma sim_recv_others:
  "sim_recv s n f w = (got, w') \<Longrightarrow> sim_out t w' = sim_out t w \<and> (t \<noteq> s \<longrightarrow> sim_in t w' = sim_in t w)"
  by (auto simp: sim_recv_def sim_in_def sim_out_def split: if_splits prod.splits)

text \<open>The concrete system behaves as documented, so the contracts can be met.\<close>

interpretation sim: posix_live sim sim_in sim_out sim_fails
proof (unfold_locales, goal_cases)
  case (1 s n f w bs w')
  then have "sim_recv s n f w = (Some bs, w')" by (simp add: sim_def)
  from sim_recv_some [OF this] 1(2) show ?case by blast
next
  case (2 s n f w w') then show ?case using sim_recv_none by (simp add: sim_def)
next
  case (3 s n f w got w' t) then show ?case using sim_recv_others by (simp add: sim_def)
next
  case (6 s bs w r w' t) then show ?case
    by (auto simp: sim_def sim_in_def sim_out_def log_def sent_on_append min_def)
next
  case (7 s n f w w') then show ?case using sim_recv_none by (simp add: sim_def)
next
  case (8 s n f w bs w') then show ?case using sim_recv_some by (simp add: sim_def)
qed (auto simp: sim_def)

interpretation sim: fd_table sim k_open
  by unfold_locales
    (auto simp: sim_def sim_open_def sim_recv_def log_def split: if_splits list.splits prod.splits)

end
