(* ===== verification/Byte_Source.thy ===== *)
theory Byte_Source
  imports Prelude
begin

text \<open>
  Two loops that the plain and the TLS socket share word for word, over the call that delivers the
  bytes (\<open>recv\<close> in one, \<open>SSL_read\<close> in the other): reading a line byte by byte, and reading a given
  number of bytes into the caller's buffer. The locale \<open>byte_source\<close> is what a caller of such a
  call may rely on; \<open>Socket\<close> and \<open>SSLSocket\<close> provide it.
\<close>

section \<open>The loops\<close>

type_synonym 'w reader = "nat \<Rightarrow> 'w \<Rightarrow> bytes option \<times> 'w"

text \<open>The loop of \<open>ReceiveLine\<close>. A failure (-1) returns the empty string: what was read is dropped.\<close>

partial_function (option) line_loop :: "'w reader \<Rightarrow> bytes \<Rightarrow> 'w \<Rightarrow> (bytes \<times> 'w) option" where
  "line_loop rd ret w =
     (case rd 1 w of (got, w) \<Rightarrow>
        case got of None \<Rightarrow> Some ([], w)
        | Some bs \<Rightarrow>
            case bs of [] \<Rightarrow> Some (ret, w)
            | r # _ \<Rightarrow>
                if r = 10 then Some (ret @ [r], w) else line_loop rd (ret @ [r]) w)"

text \<open>What the kernel stores through a pointer \<open>off\<close> bytes into (or before) the caller's buffer.\<close>

definition store_at :: "int \<Rightarrow> bytes \<Rightarrow> bytes \<Rightarrow> fault + bytes" where
  "store_at off bs buf =
     (if bs = [] then Inr buf
      else if 0 \<le> off \<and> off + int (length bs) \<le> int (length buf)
        then Inr (take (nat off) buf @ bs @ drop (nat off + length bs) buf)
      else Inl OutOfBounds)"

text \<open>
  The loop of \<open>RecvBlocking\<close>. The result of the call is kept in a \<open>size_t\<close>, so the test for
  \<open><= 0\<close> only catches 0: a failure is the number \<open>2 ^ 64 - 1\<close>, which is subtracted from the
  remaining length and added to the buffer pointer like a count of received bytes.
\<close>

partial_function (option) blocking_loop ::
    "'w reader \<Rightarrow> u64 \<Rightarrow> bytes \<Rightarrow> int \<Rightarrow> u64 \<Rightarrow> 'w \<Rightarrow> (fault + (int \<times> bytes \<times> 'w)) option" where
  "blocking_loop rd size_wanted buf off recv_remaining w =
     (case rd (unat recv_remaining) w of (got, w) \<Rightarrow>
        case store_at off (case got of None \<Rightarrow> [] | Some bs \<Rightarrow> bs) buf of
          Inl e \<Rightarrow> Some (Inl e)
        | Inr buf \<Rightarrow>
            (let recv_this = (case got of None \<Rightarrow> - 1 | Some bs \<Rightarrow> word_of_nat (length bs))
             in if recv_this = 0 then Some (Inr (0, buf, w))
                else if recv_remaining - recv_this > 0
                  then blocking_loop rd size_wanted buf (off + sint recv_this)
                         (recv_remaining - recv_this) w
                else Some (Inr (sint (ucast size_wanted :: u32), buf, w))))"

lemma line_loop_step:
  "rd 1 w = (got, w1) \<Longrightarrow>
   line_loop rd ret w =
     (case got of None \<Rightarrow> Some ([], w1) | Some [] \<Rightarrow> Some (ret, w1)
      | Some (r # _) \<Rightarrow> if r = 10 then Some (ret @ [r], w1) else line_loop rd (ret @ [r]) w1)"
  by (subst line_loop.simps) (simp del: One_nat_def split: option.split list.split)

lemma blocking_loop_step:
  "rd (unat remaining) w = (Some bs, w1) \<Longrightarrow> store_at off bs buf = Inr buf1 \<Longrightarrow>
   blocking_loop rd n buf off remaining w =
     (if word_of_nat (length bs) = (0 :: u64) then Some (Inr (0, buf1, w1))
      else if remaining - word_of_nat (length bs) > 0
        then blocking_loop rd n buf1 (off + sint (word_of_nat (length bs) :: u64))
               (remaining - word_of_nat (length bs)) w1
      else Some (Inr (sint (ucast n :: u32), buf1, w1)))"
  by (subst blocking_loop.simps) (simp add: Let_def)

text \<open>Both loops keep what every call of the reader keeps.\<close>

lemma line_loop_keeps:
  assumes "line_loop rd ret w = Some r" and "\<And>n w got w1. rd n w = (got, w1) \<Longrightarrow> P w \<Longrightarrow> P w1" and "P w"
  shows "P (snd r)"
proof -
  have "rd' = rd \<longrightarrow> P w \<longrightarrow> P (snd r)" if "line_loop rd' ret w = Some r" for rd' ret w r
    using that
  proof (induct rule: line_loop.raw_induct [rotated, consumes 1, case_names loop])
    case (loop self rd' ret w r)
    obtain got w1 where g: "rd' 1 w = (got, w1)" by fastforce
    show ?case
    proof (intro impI)
      assume "rd' = rd" "P w"
      then have p: "P w1" using assms(2) g by blast
      show "P (snd r)"
      proof (cases "\<exists>b bs. got = Some (b # bs) \<and> b \<noteq> 10")
        case True
        then obtain b where "self rd' (ret @ [b]) w1 = Some r" using loop(2) g by auto
        from loop(1) [OF this] \<open>rd' = rd\<close> p show ?thesis by simp
      next
        case False
        then have "snd r = w1" using loop(2) g by (auto split: option.splits list.splits if_splits)
        with p show ?thesis by simp
      qed
    qed
  qed
  with assms(1,3) show ?thesis by blast
qed

lemma blocking_loop_keeps:
  assumes "blocking_loop rd n buf off rem w = Some (Inr r)"
    and "\<And>n w got w1. rd n w = (got, w1) \<Longrightarrow> P w \<Longrightarrow> P w1" and "P w"
  shows "P (snd (snd r))"
proof -
  have "rd' = rd \<longrightarrow> P w \<longrightarrow> (\<forall>r. q = Inr r \<longrightarrow> P (snd (snd r)))"
    if "blocking_loop rd' n buf off rem w = Some q" for rd' n buf off rem w q
    using that
  proof (induct rule: blocking_loop.raw_induct [rotated, consumes 1, case_names loop])
    case (loop self rd' n buf off rem w q)
    obtain got w1 where g: "rd' (unat rem) w = (got, w1)" by fastforce
    show ?case
    proof (intro impI allI)
      fix r assume "rd' = rd" "P w" and q: "q = Inr r"
      then have p: "P w1" using assms(2) g by blast
      obtain buf1 where "store_at off (case got of None \<Rightarrow> [] | Some bs \<Rightarrow> bs) buf = Inr buf1"
        using loop(2) g q by (auto split: sum.splits)
      with loop(2) g q consider "snd (snd r) = w1" | off' rem' where "self rd' n buf1 off' rem' w1 = Some (Inr r)"
        by (auto simp: Let_def split: if_splits)
      then show "P (snd (snd r))"
      proof cases
        case 2
        from loop(1) [OF this(1)] \<open>rd' = rd\<close> p show ?thesis by blast
      qed (simp add: p)
    qed
  qed
  with assms(1,3) show ?thesis by blast
qed

section \<open>Lines\<close>

definition first_line :: "bytes \<Rightarrow> bytes" where
  "first_line bs = takeWhile (\<lambda>b. b \<noteq> 10) bs @ take 1 (dropWhile (\<lambda>b. b \<noteq> 10) bs)"

lemma first_line_Nil [simp]: "first_line [] = []"
  by (simp add: first_line_def)

lemma first_line_newline [simp]: "first_line (10 # bs) = [10]"
  by (simp add: first_line_def)

lemma first_line_Cons [simp]: "b \<noteq> 10 \<Longrightarrow> first_line (b # bs) = b # first_line bs"
  by (simp add: first_line_def)

text \<open>What is left of a length after a part of it.\<close>

lemma less_remains:
  fixes remaining :: u64
  assumes "n < unat remaining"
  shows "unat (remaining - word_of_nat n) = unat remaining - n" "0 < remaining - word_of_nat n"
proof -
  have "n < 2 ^ 64" using assms unsigned_less [of remaining, where ?'a = nat] by simp
  then have u: "unat (word_of_nat n :: u64) = n" by (simp add: unat_of_nat)
  then have "word_of_nat n \<le> remaining" using assms by (simp add: word_le_nat_alt)
  then show r: "unat (remaining - word_of_nat n) = unat remaining - n" by (simp add: unat_sub u)
  show "0 < remaining - word_of_nat n" using r assms by (simp add: word_less_nat_alt)
qed

text \<open>Storing behind the first \<open>k\<close> bytes.\<close>

lemma stored:
  assumes "k + length bs \<le> length buf"
  shows "length (take k buf @ bs @ drop (k + length bs) buf) = length buf"
    "take (k + length bs) (take k buf @ bs @ drop (k + length bs) buf) = take k buf @ bs"
    "drop (k + length bs + j) (take k buf @ bs @ drop (k + length bs) buf) = drop (k + length bs + j) buf"
  using assms by (simp_all add: add.commute add.left_commute)

section \<open>What a source of bytes promises\<close>

text \<open>
  \<open>stream w\<close> is what is still to come, and \<open>fails w\<close> how many calls will still fail. A call takes at
  most the asked number of bytes off the front, and none only when nothing is left.
\<close>

locale byte_source =
  fixes rd :: "'w reader"
    and stream :: "'w \<Rightarrow> bytes"
    and fails :: "'w \<Rightarrow> nat"
  assumes takes: "rd n w = (Some bs, w') \<Longrightarrow>
      length bs \<le> n \<and> stream w = bs @ stream w' \<and> (0 < n \<and> bs = [] \<longrightarrow> stream w = []) \<and>
      fails w' \<le> fails w"
    and refuses: "rd n w = (None, w') \<Longrightarrow> stream w' = stream w \<and> fails w' < fails w"
begin

lemmas line_step = line_loop_step [of rd]
lemmas blocking_step = blocking_loop_step [of rd]

lemma calm: "fails w = 0 \<Longrightarrow> \<exists>bs w'. rd n w = (Some bs, w') \<and> fails w' = 0"
  using refuses [of n w] takes [of n w] by (cases "rd n w"; cases "fst (rd n w)") auto

lemma one_byte:
  assumes "rd 1 w = (Some bs, w')"
  shows "bs = [] \<and> stream w = [] \<and> stream w' = [] \<or>
    (\<exists>r. bs = [r] \<and> stream w = r # stream w')"
  using takes [OF assms] by (cases bs) auto

text \<open>\<open>ReceiveLine\<close> returns, for it reads a finite stream byte by byte.\<close>

lemma line_total: "\<exists>l w'. line_loop rd ret w = Some (l, w')"
proof (induction "length (stream w)" arbitrary: ret w rule: less_induct)
  case less
  obtain got w1 where g: "rd 1 w = (got, w1)" by fastforce
  show ?case
  proof (cases got)
    case None
    with line_step [OF g, of ret] show ?thesis by simp
  next
    case (Some bs)
    with one_byte g consider "bs = []" | r where "bs = [r]" "stream w = r # stream w1" by blast
    then show ?thesis
    proof cases
      case 1
      with line_step [OF g, of ret] Some show ?thesis by simp
    next
      case 2
      with less [of w1 "ret @ [r]"] line_step [OF g, of ret] Some show ?thesis by simp
    qed
  qed
qed

text \<open>Without failures it returns the first line of the stream, with its newline.\<close>

lemma line_calm:
  assumes "fails w = 0"
  shows "\<exists>w'. line_loop rd ret w = Some (ret @ first_line (stream w), w') \<and>
    stream w = first_line (stream w) @ stream w' \<and> fails w' = 0"
  using assms
proof (induction "length (stream w)" arbitrary: ret w rule: less_induct)
  case less
  obtain bs w1 where g: "rd 1 w = (Some bs, w1)" and c: "fails w1 = 0"
    using calm [OF less.prems] by blast
  from one_byte [OF g] consider "bs = []" "stream w = []" "stream w1 = []"
    | r where "bs = [r]" "stream w = r # stream w1" by blast
  then show ?case
  proof cases
    case 1
    with line_step [OF g, of ret] c show ?thesis by simp
  next
    case 2
    then show ?thesis
      using less.hyps [of w1 "ret @ [r]"] c line_step [OF g, of ret]
      by (cases "r = 10") auto
  qed
qed

text \<open>In general it returns all it has consumed, or, on a failure, nothing.\<close>

lemma line_consumes:
  assumes "line_loop rd ret w = Some (l, w')"
  shows "\<exists>taken. stream w = taken @ stream w' \<and>
    (l = ret @ taken \<or> l = [] \<and> fails w' < fails w)"
  using assms
proof (induction "length (stream w)" arbitrary: ret w rule: less_induct)
  case less
  obtain got w1 where g: "rd 1 w = (got, w1)" by fastforce
  show ?case
  proof (cases got)
    case None
    then show ?thesis
      using less.prems refuses [OF g [unfolded None]] line_step [OF g, of ret]
      by (intro exI [of _ "[]"]) simp
  next
    case (Some bs)
    with one_byte g consider "bs = []" "stream w = []" "stream w1 = []"
      | r where "bs = [r]" "stream w = r # stream w1" by blast
    then show ?thesis
    proof cases
      case 1
      then show ?thesis
        using less.prems line_step [OF g, of ret] Some by simp
    next
      case 2
      have "fails w1 \<le> fails w" using takes g Some by blast
      then show ?thesis
        using less.prems less.hyps [of w1 "ret @ [r]"] 2 line_step [OF g, of ret] Some
        by (cases "r = 10") fastforce+
    qed
  qed
qed

text \<open>
  \<open>RecvBlocking\<close> without failures: it fills the buffer with the next bytes of the stream, and
  answers the length, or 0 when the stream ended first; what it read before is in the buffer then.
\<close>

lemma blocking_calm:
  assumes "fails w = 0" and "0 < unat remaining" and "k + unat remaining \<le> length buf"
    and "length buf < 2 ^ 63"
  shows "\<exists>w'. blocking_loop rd n buf (int k) remaining w =
      Some (Inr (if unat remaining \<le> length (stream w) then sint (ucast n :: u32) else 0,
                 take k buf @ take (unat remaining) (stream w) @
                   drop (k + min (unat remaining) (length (stream w))) buf, w')) \<and>
    stream w' = drop (unat remaining) (stream w) \<and> fails w' = 0"
  using assms
proof (induction "unat remaining" arbitrary: w k buf remaining rule: less_induct)
  case less
  obtain bs w1 where g: "rd (unat remaining) w = (Some bs, w1)" and c: "fails w1 = 0"
    using calm [OF less.prems(1)] by blast
  let ?buf = "take k buf @ bs @ drop (k + length bs) buf"
  have t: "length bs \<le> unat remaining" "stream w = bs @ stream w1"
    "bs = [] \<Longrightarrow> stream w = []"
    using takes [OF g] less.prems(2) by auto
  have st: "store_at (int k) bs buf = Inr ?buf"
    using t(1) less.prems(3) by (auto simp: store_at_def)
  note step = blocking_step [OF g st, of n]
  have small: "length bs < 2 ^ 63" using t(1) less.prems(3,4) by linarith
  then have u: "unat (word_of_nat (length bs) :: u64) = length bs"
    by (simp add: unat_of_nat)
  have s: "sint (word_of_nat (length bs) :: u64) = int (length bs)"
    by (rule sint_of_nat_64 [OF small])
  consider "bs = []" | "bs \<noteq> []" "length bs = unat remaining" | "bs \<noteq> []" "length bs < unat remaining"
    using t(1) by linarith
  then show ?case
  proof cases
    case 1
    then show ?thesis using step t less.prems(2,3) c by simp
  next
    case 2
    then have "word_of_nat (length bs) = remaining" by simp
    with 2 have "word_of_nat (length bs) \<noteq> (0 :: u64)" "\<not> remaining - word_of_nat (length bs) > 0"
      using less.prems(2) by auto
    then show ?thesis using step t 2 c by simp
  next
    case 3
    then have n0: "word_of_nat (length bs) \<noteq> (0 :: u64)" using u by (metis length_0_conv unat_0)
    note un = less_remains [OF 3(2)]
    note buf = stored [of k bs buf, OF le_trans [OF add_left_mono [OF t(1)] less.prems(3)]]
    obtain w' where w': "blocking_loop rd n ?buf (int (k + length bs)) (remaining - word_of_nat (length bs)) w1 =
        Some (Inr (if unat remaining - length bs \<le> length (stream w1) then sint (ucast n :: u32) else 0,
          take (k + length bs) ?buf @ take (unat remaining - length bs) (stream w1) @
            drop (k + length bs + min (unat remaining - length bs) (length (stream w1))) ?buf, w'))"
      "stream w' = drop (unat remaining - length bs) (stream w1)" "fails w' = 0"
      using less.hyps [of "remaining - word_of_nat (length bs)" w1 "k + length bs" ?buf] 3 c buf(1)
        less.prems(3,4) un(1) by (auto simp: add.assoc)
    have "length bs + min (unat remaining - length bs) (length (stream w1)) =
        min (unat remaining) (length (stream w))"
      using t(1,2) by auto
    then show ?thesis
      using step n0 un(2) s w' buf(2,3) t(1,2) by (auto simp: ac_simps)
  qed
qed

text \<open>One failure is enough to leave the buffer: the next bytes are stored before its start.\<close>

lemma blocking_after_failure:
  assumes "rd (unat n) w = (None, w1)" and "rd (unat (n + 1)) w1 = (Some bs, w2)"
    and "bs \<noteq> []" and "n \<noteq> - 1"
  shows "blocking_loop rd n buf 0 n w = Some (Inl OutOfBounds)"
proof -
  have n1: "n + 1 > 0" using assms(4) by (metis add_eq_0_iff2 word_neq_0_conv)
  have "blocking_loop rd n buf 0 n w = blocking_loop rd n buf (- 1) (n + 1) w1"
    using n1 by (subst blocking_loop.simps) (simp add: assms(1) store_at_def)
  also have "\<dots> = Some (Inl OutOfBounds)"
    using assms(3) by (subst blocking_loop.simps) (simp add: assms(2) store_at_def)
  finally show ?thesis .
qed

end

end
