(* ===== verification/Socket_Ops.thy ===== *)
theory Socket_Ops
  imports Posix Byte_Source
begin

text \<open>
  The operations of \<open>Socket\<close> (\<open>socket/Socket.cpp\<close>, the POSIX branch) on its descriptor \<open>s_\<close>. The
  object itself (reference counts, construction, destruction) is in \<open>Socket_Life\<close>. A loop that
  may run forever is a partial function, \<open>None\<close> meaning that it does not return.
\<close>

definition READ_BUFFER :: nat where "READ_BUFFER = 1024"

definition O_NONBLOCK :: u32 where "O_NONBLOCK = 2048"

section \<open>Creation and modes\<close>

definition make_nonblocking :: "'w os \<Rightarrow> int \<Rightarrow> 'w \<Rightarrow> int \<times> 'w" where
  "make_nonblocking os file_descriptor w =
     (let (flags, w) = os_getfl os file_descriptor w
      in if flags = - 1 then
           (let (_, w) = os_close os file_descriptor w in (- 1, w))
         else let (r, w) = os_setfl os file_descriptor (word_of_int flags OR O_NONBLOCK) w
              in if r = - 1 then
                   (let (_, w) = os_close os file_descriptor w in (- 1, w))
                 else (0, w))"

text \<open>\<open>CreateSocket\<close> assigns \<open>s_\<close> before it tests it; the new value is returned beside the outcome.\<close>

definition CreateSocket :: "'w os \<Rightarrow> 'w \<Rightarrow> unit outcome \<times> int \<times> 'w" where
  "CreateSocket os w =
     (let (s, w) = os_socket os w
      in if s = INVALID_SOCKET then (Throw ''INVALID_SOCKET'', s, w) else (Ret (), s, w))"

definition Close :: "'w os \<Rightarrow> int \<Rightarrow> 'w \<Rightarrow> 'w" where
  "Close os s w = snd (os_close os s w)"

section \<open>Receiving\<close>

definition IsSerialDataAvailable :: "'w os \<Rightarrow> int \<Rightarrow> 'w \<Rightarrow> u64 \<times> 'w" where
  "IsSerialDataAvailable os s w =
     (let ((r, arg), w) = os_fionread os s w in if r \<noteq> 0 then (0, w) else (arg, w))"

text \<open>The inner loop of \<open>ReceiveBytes\<close>: an interrupted call is repeated.\<close>

partial_function (option) recv_retry ::
    "'w os \<Rightarrow> int \<Rightarrow> nat \<Rightarrow> 'w \<Rightarrow> (bytes option \<times> 'w) option" where
  "recv_retry os s arg w =
     (case os_recv os s arg NoFlags w of (bytesRead, w) \<Rightarrow>
        if bytesRead = None \<and> os_errno os w = EINTR then recv_retry os s arg w
        else Some (bytesRead, w))"

partial_function (option) receive_loop ::
    "'w os \<Rightarrow> int \<Rightarrow> nat \<Rightarrow> bytes \<Rightarrow> 'w \<Rightarrow> (bytes \<times> 'w) option" where
  "receive_loop os s arg ret w =
     Option.bind (recv_retry os s arg w) (\<lambda>(bytesRead, w).
       case bytesRead of None \<Rightarrow> Some (ret, w)
       | Some t \<Rightarrow>
           if t = [] then Some (ret, w)
           else case IsSerialDataAvailable os s w of (arg, w) \<Rightarrow>
             if arg = 0 then Some (ret @ t, w)
             else receive_loop os s (if unat arg > READ_BUFFER then READ_BUFFER else unat arg)
                    (ret @ t) w)"

definition ReceiveBytes :: "'w os \<Rightarrow> int \<Rightarrow> 'w \<Rightarrow> (bytes \<times> 'w) option" where
  "ReceiveBytes os s w = receive_loop os s READ_BUFFER [] w"

text \<open>\<open>Receive\<close> stores into the caller's buffer and updates \<open>*len\<close> unless nothing was received.\<close>

definition Receive :: "'w os \<Rightarrow> int \<Rightarrow> bytes \<Rightarrow> int \<Rightarrow> 'w \<Rightarrow> fault + (bool \<times> bytes \<times> int \<times> 'w)" where
  "Receive os s buffer len w =
     (case os_recv os s (unat (word_of_int len :: u64)) NoFlags w of (RetVal, w) \<Rightarrow>
        case RetVal of None \<Rightarrow> Inr (False, buffer, len, w)
        | Some bs \<Rightarrow>
            fbind (store_at 0 bs buffer) (\<lambda>buffer.
              if bs = [] then Inr (False, buffer, len, w)
              else Inr (True, buffer, int (length bs), w)))"

definition RecvBlocking ::
    "'w os \<Rightarrow> int \<Rightarrow> bytes \<Rightarrow> u64 \<Rightarrow> 'w \<Rightarrow> (fault + (int \<times> bytes \<times> 'w)) option" where
  "RecvBlocking os s buffer len w =
     (case os_fionread os s w of (_, w) \<Rightarrow>
        blocking_loop (\<lambda>n. os_recv os s n WaitAll) len buffer 0 len w)"

text \<open>\<open>Peek\<close>: with no iteration at all, \<open>result\<close> is read without having been set.\<close>

fun peek_loop :: "'w os \<Rightarrow> int \<Rightarrow> nat \<Rightarrow> int option \<Rightarrow> 'w \<Rightarrow> int option \<times> 'w" where
  "peek_loop os s 0 result w = (result, w)"
| "peek_loop os s (Suc i) result w =
     (case os_recv os s 1 PeekDontWait w of (got, w) \<Rightarrow>
        let r = (case got of None \<Rightarrow> - 1 | Some bs \<Rightarrow> int (length bs))
        in if r = 1 then (Some r, w) else peek_loop os s i (Some r) w)"

definition Peek :: "'w os \<Rightarrow> int \<Rightarrow> int \<Rightarrow> 'w \<Rightarrow> fault + (int \<times> 'w)" where
  "Peek os s iterations w =
     (case peek_loop os s (nat iterations) None w of (r, w) \<Rightarrow>
        case r of None \<Rightarrow> Inl Uninitialised | Some r \<Rightarrow> Inr (r, w))"

definition ReceiveLine :: "'w os \<Rightarrow> int \<Rightarrow> 'w \<Rightarrow> (bytes \<times> 'w) option" where
  "ReceiveLine os s w = line_loop (\<lambda>n. os_recv os s n NoFlags) [] w"

section \<open>Sending\<close>

text \<open>Neither \<open>SendLine\<close> nor the \<open>void\<close> overload of \<open>SendBytes\<close> looks at what \<open>send\<close> returns.\<close>

definition SendLine :: "'w os \<Rightarrow> int \<Rightarrow> bytes \<Rightarrow> 'w \<Rightarrow> 'w" where
  "SendLine os s line w = snd (os_send os s (line @ [10]) w)"

definition SendBytes :: "'w os \<Rightarrow> int \<Rightarrow> bytes \<Rightarrow> int \<Rightarrow> 'w \<Rightarrow> fault + 'w" where
  "SendBytes os s buffer len w =
     (if 0 \<le> len \<and> len \<le> int (length buffer)
        then Inr (snd (os_send os s (take (nat len) buffer) w))
      else Inl OutOfBounds)"

definition SendBytes_checked :: "'w os \<Rightarrow> int \<Rightarrow> bytes \<Rightarrow> int \<Rightarrow> 'w \<Rightarrow> fault + (bool \<times> 'w)" where
  "SendBytes_checked os s buffer len w =
     (if 0 \<le> len \<and> len \<le> int (length buffer)
        then let (RetVal, w) = os_send os s (take (nat len) buffer) w
             in Inr (RetVal \<noteq> SOCKET_ERROR, w)
      else Inl OutOfBounds)"

section \<open>Descriptors\<close>

context fd_table begin

lemma close_opened: "opened (Close os s v) = opened v - {s}"
  using close_closes [of s v] by (cases "os_close os s v") (simp add: Close_def)

lemma retry_opened:
  assumes "recv_retry os' s n w = Some r"
  shows "os' = os \<longrightarrow> opened (snd r) = opened w"
  using assms
proof (induct rule: recv_retry.raw_induct [rotated, consumes 1, case_names loop])
  case (loop retry os' s n w r)
  obtain got w1 where g: "os_recv os' s n NoFlags w = (got, w1)" by fastforce
  show ?case
  proof (cases "got = None \<and> os_errno os' w1 = EINTR")
    case True
    then have "retry os' s n w1 = Some r" using loop(2) by (simp add: g)
    from loop(1) [OF this] g recv_keeps [of s n NoFlags w got w1] show ?thesis by auto
  next
    case False
    then have "r = (got, w1)" using loop(2) by (auto simp: g split: if_splits)
    with g recv_keeps [of s n NoFlags w got w1] show ?thesis by auto
  qed
qed

lemma available_opened: "IsSerialDataAvailable os s w = (arg, w') \<Longrightarrow> opened w' = opened w"
  using fionread_keeps by (fastforce simp: IsSerialDataAvailable_def split: prod.splits if_splits)

lemma receive_loop_opened:
  assumes "receive_loop os' s n ret w = Some r"
  shows "os' = os \<longrightarrow> opened (snd r) = opened w"
  using assms
proof (induct rule: receive_loop.raw_induct [rotated, consumes 1, case_names loop])
  case (loop self os' s n ret w r)
  obtain got w1 where g: "recv_retry os' s n w = Some (got, w1)"
    using loop(2) by (auto simp: bind_eq_Some_conv)
  obtain arg w2 where a: "IsSerialDataAvailable os' s w1 = (arg, w2)" by fastforce
  show ?case
  proof
    assume os: "os' = os"
    have o1: "opened w1 = opened w" using retry_opened [OF g] os by simp
    have o2: "opened w2 = opened w1" using available_opened a os by simp
    show "opened (snd r) = opened w"
    proof (cases "got = None \<or> got = Some [] \<or> arg = 0")
      case True
      then have "snd r = w1 \<or> snd r = w2"
        using loop(2) by (auto simp: g a split: option.splits if_splits)
      then show ?thesis using o1 o2 by auto
    next
      case False
      then obtain t n' where "self os' s n' (ret @ t) w2 = Some r"
        using loop(2) by (auto simp: g a split: option.splits if_splits)
      from loop(1) [OF this] show ?thesis using os o1 o2 by simp
    qed
  qed
qed

lemma receive_opened: "ReceiveBytes os s w = Some (bs, w') \<Longrightarrow> opened w' = opened w"
  using receive_loop_opened [of os s READ_BUFFER "[]" w "(bs, w')"] by (simp add: ReceiveBytes_def)

lemma send_opened: "SendBytes os s buf n w = Inr w' \<Longrightarrow> opened w' = opened w"
  using send_keeps [of s "take (nat n) buf" w]
  by (cases "os_send os s (take (nat n) buf) w") (auto simp: SendBytes_def split: if_splits)

text \<open>The other ways to send and to receive.\<close>

lemma checked_send_opened: "SendBytes_checked os s buf n w = Inr (ok, w') \<Longrightarrow> opened w' = opened w"
  using send_keeps [of s "take (nat n) buf" w] by (auto simp: SendBytes_checked_def split: if_splits prod.splits)

lemma send_line_opened: "opened (SendLine os s line w) = opened w"
  using send_keeps [of s "line @ [10]" w] by (cases "os_send os s (line @ [10]) w") (simp add: SendLine_def)

lemma receive_buffer_opened: "Receive os s buffer len w = Inr (ok, buffer', len', w') \<Longrightarrow> opened w' = opened w"
  using recv_keeps [of s "unat (word_of_int len :: u64)" NoFlags w]
  by (auto simp: Receive_def fbind_eq_Inr_iff split: prod.splits option.splits if_splits)

lemma receive_line_opened: "ReceiveLine os s w = Some (line, w') \<Longrightarrow> opened w' = opened w"
  using line_loop_keeps [of "\<lambda>n. os_recv os s n NoFlags" "[]" w "(line, w')" "\<lambda>v. opened v = opened w"] recv_keeps
  by (auto simp: ReceiveLine_def)

lemma recv_blocking_opened:
  assumes "RecvBlocking os s buffer len w = Some (Inr (n, buffer', w'))"
  shows "opened w' = opened w"
proof -
  obtain a w1 where f: "os_fionread os s w = (a, w1)" by fastforce
  then have "blocking_loop (\<lambda>n. os_recv os s n WaitAll) len buffer 0 len w1 = Some (Inr (n, buffer', w'))"
    using assms by (simp add: RecvBlocking_def)
  from blocking_loop_keeps [OF this, of "\<lambda>v. opened v = opened w"] recv_keeps fionread_keeps [OF f]
  show ?thesis by auto
qed

lemma peek_opened: "Peek os s n w = Inr (r, w') \<Longrightarrow> opened w' = opened w"
proof -
  have "peek_loop os s k r v = (q, w') \<Longrightarrow> opened w' = opened v" for k r v q
    by (induction k arbitrary: r v) (auto simp: Let_def split: prod.splits if_splits dest: recv_keeps)
  then show "Peek os s n w = Inr (r, w') \<Longrightarrow> opened w' = opened w"
    by (auto simp: Peek_def split: prod.splits option.splits)
qed

end

section \<open>A socket is a source of bytes\<close>

context posix_live begin

lemma recv_source:
  assumes "f \<noteq> PeekDontWait"
  shows "byte_source (\<lambda>n. os_recv os s n f) (incoming s) (fails s)"
proof
  fix n w bs w' assume g: "os_recv os s n f w = (Some bs, w')"
  show "length bs \<le> n \<and> incoming s w = bs @ incoming s w' \<and>
      (0 < n \<and> bs = [] \<longrightarrow> incoming s w = []) \<and> fails s w' \<le> fails s w"
    using recv_takes [OF g assms] recv_success [OF g] by blast
next
  fix n w w' assume g: "os_recv os s n f w = (None, w')"
  show "incoming s w' = incoming s w \<and> fails s w' < fails s w"
    using recv_fails [OF g] recv_failure [OF g] by blast
qed

end

sublocale posix_live \<subseteq> plain: byte_source "\<lambda>n. os_recv os s n NoFlags" "incoming s" "fails s" for s
  by (rule recv_source) simp

sublocale posix_live \<subseteq> waiting: byte_source "\<lambda>n. os_recv os s n WaitAll" "incoming s" "fails s" for s
  by (rule recv_source) simp

context posix_live begin

lemma available_asks:
  "IsSerialDataAvailable os s w = (arg, w') \<Longrightarrow>
   incoming t w' = incoming t w \<and> sent t w' = sent t w \<and> fails t w' \<le> fails t w"
  using fionread_asks fionread_calm
  by (fastforce simp: IsSerialDataAvailable_def split: prod.splits if_splits)

text \<open>An interrupted \<open>recv\<close> is repeated until it succeeds or fails for another reason.\<close>

lemma retry_returns:
  "\<exists>got w'. recv_retry os s n w = Some (got, w') \<and>
     (\<exists>w0. os_recv os s n NoFlags w0 = (got, w') \<and> incoming s w0 = incoming s w \<and>
           fails s w0 \<le> fails s w) \<and>
     (got = None \<longrightarrow> os_errno os w' \<noteq> EINTR) \<and>
     (\<forall>t. sent t w' = sent t w \<and> (t \<noteq> s \<longrightarrow> incoming t w' = incoming t w))"
proof (induction "fails s w" arbitrary: w rule: less_induct)
  case less
  obtain got w1 where g: "os_recv os s n NoFlags w = (got, w1)" by fastforce
  show ?case
  proof (cases "got = None \<and> os_errno os w1 = EINTR")
    case False
    then have "recv_retry os s n w = Some (got, w1)"
      by (subst recv_retry.simps) (auto simp: g)
    with False g recv_others [OF g] show ?thesis by blast
  next
    case True
    then have g': "os_recv os s n NoFlags w = (None, w1)" using g by simp
    from less [OF recv_failure [OF g']] obtain got' w' w0 where w':
      "recv_retry os s n w1 = Some (got', w')" "os_recv os s n NoFlags w0 = (got', w')"
      "incoming s w0 = incoming s w1" "fails s w0 \<le> fails s w1"
      "got' = None \<longrightarrow> os_errno os w' \<noteq> EINTR"
      "\<forall>t. sent t w' = sent t w1 \<and> (t \<noteq> s \<longrightarrow> incoming t w' = incoming t w1)" by blast
    have "recv_retry os s n w = Some (got', w')"
      by (subst recv_retry.simps) (simp add: g True w'(1))
    moreover have "incoming s w0 = incoming s w" "fails s w0 \<le> fails s w"
      using w'(3,4) recv_fails [OF g'] recv_failure [OF g'] by simp_all
    moreover have "\<forall>t. sent t w' = sent t w \<and> (t \<noteq> s \<longrightarrow> incoming t w' = incoming t w)"
      using w'(6) recv_others [OF g'] by simp
    ultimately show ?thesis using w'(2,5) by blast
  qed
qed

text \<open>One round of \<open>ReceiveBytes\<close>: it returns, or it has read something and asks for more.\<close>

lemma receive_loop_step:
  assumes "0 < n"
  shows "\<exists>bs w' m. (receive_loop os s n ret w = Some (ret @ bs, w') \<and>
       (bs = [] \<longrightarrow> incoming s w = [] \<or> fails s w' < fails s w \<and> os_errno os w' \<noteq> EINTR) \<or>
       receive_loop os s n ret w = receive_loop os s m (ret @ bs) w' \<and> 0 < m \<and> bs \<noteq> []) \<and>
     incoming s w = bs @ incoming s w' \<and> fails s w' \<le> fails s w \<and>
     (\<forall>t. sent t w' = sent t w \<and> (t \<noteq> s \<longrightarrow> incoming t w' = incoming t w))"
proof -
  obtain got w1 w0 where g: "recv_retry os s n w = Some (got, w1)"
    "os_recv os s n NoFlags w0 = (got, w1)" "incoming s w0 = incoming s w" "fails s w0 \<le> fails s w"
    "got = None \<longrightarrow> os_errno os w1 \<noteq> EINTR"
    "\<forall>t. sent t w1 = sent t w \<and> (t \<noteq> s \<longrightarrow> incoming t w1 = incoming t w)"
    using retry_returns [of s n w] by blast
  show ?thesis
  proof (cases got)
    case None
    then have "receive_loop os s n ret w = Some (ret, w1)"
      by (subst receive_loop.simps) (simp add: g(1))
    moreover have "incoming s w1 = incoming s w" "fails s w1 < fails s w"
      using plain.refuses [OF g(2) [unfolded None]] g(3,4) by simp_all
    ultimately show ?thesis using g(5,6) None by (intro exI [of _ "[]"] exI [of _ w1]) simp
  next
    case (Some bs)
    have t: "incoming s w = bs @ incoming s w1" "bs = [] \<longrightarrow> incoming s w = []" "fails s w1 \<le> fails s w"
      using plain.takes [OF g(2) [unfolded Some]] g(3,4) assms by auto
    obtain arg w2 where a: "IsSerialDataAvailable os s w1 = (arg, w2)" by fastforce
    let ?n = "if unat arg > READ_BUFFER then READ_BUFFER else unat arg"
    have e: "receive_loop os s n ret w =
        (if bs = [] then Some (ret, w1) else if arg = 0 then Some (ret @ bs, w2)
         else receive_loop os s ?n (ret @ bs) w2)"
      by (subst receive_loop.simps) (simp add: g(1) Some a)
    have a': "incoming t w2 = incoming t w1" "sent t w2 = sent t w1" "fails t w2 \<le> fails t w1" for t
      using available_asks [OF a] by blast+
    show ?thesis
    proof (cases "bs = []")
      case True
      then show ?thesis using e t g(6) by (intro exI [of _ "[]"] exI [of _ w1]) simp
    next
      case False
      have "fails s w2 \<le> fails s w" using a'(3) [of s] t(3) by linarith
      moreover have "incoming s w = bs @ incoming s w2" using t(1) a'(1) by metis
      moreover have "\<forall>t. sent t w2 = sent t w \<and> (t \<noteq> s \<longrightarrow> incoming t w2 = incoming t w)" using g(6) a'(1,2) by metis
      moreover have "receive_loop os s n ret w = Some (ret @ bs, w2) \<or>
          receive_loop os s n ret w = receive_loop os s ?n (ret @ bs) w2 \<and> 0 < ?n"
        using e False by (cases "arg = 0") (simp_all add: READ_BUFFER_def unat_gt_0)
      ultimately show ?thesis using False by blast
    qed
  qed
qed

text \<open>
  \<open>ReceiveBytes\<close> returns, and what it returns is what it took off the stream. It returns nothing
  only at the end of the stream or when \<open>recv\<close> failed with an error other than an interruption.
\<close>

lemma receive_loop_spec:
  "0 < n \<Longrightarrow> \<exists>bs w'. receive_loop os s n ret w = Some (ret @ bs, w') \<and>
     incoming s w = bs @ incoming s w' \<and>
     (bs = [] \<longrightarrow> incoming s w = [] \<or> fails s w' < fails s w \<and> os_errno os w' \<noteq> EINTR) \<and>
     fails s w' \<le> fails s w \<and>
     (\<forall>t. sent t w' = sent t w \<and> (t \<noteq> s \<longrightarrow> incoming t w' = incoming t w))"
proof (induction "length (incoming s w)" arbitrary: n ret w rule: less_induct)
  case less
  from receive_loop_step [OF less.prems, of s ret w] show ?case
  proof (elim exE disjE conjE)
    fix bs w' m
    assume e: "receive_loop os s n ret w = receive_loop os s m (ret @ bs) w'" and m: "0 < m" and bs: "bs \<noteq> []"
      and i: "incoming s w = bs @ incoming s w'" and f: "fails s w' \<le> fails s w"
      and o: "\<forall>t. sent t w' = sent t w \<and> (t \<noteq> s \<longrightarrow> incoming t w' = incoming t w)"
    have "length (incoming s w') < length (incoming s w)" using i bs by simp
    from less.hyps [OF this m, of "ret @ bs"] obtain cs v where v:
      "receive_loop os s m (ret @ bs) w' = Some (ret @ bs @ cs, v)" "incoming s w' = cs @ incoming s v"
      "fails s v \<le> fails s w'" "\<forall>t. sent t v = sent t w' \<and> (t \<noteq> s \<longrightarrow> incoming t v = incoming t w')"
      unfolding append_assoc by blast
    have "receive_loop os s n ret w = Some (ret @ (bs @ cs), v)" "incoming s w = (bs @ cs) @ incoming s v"
      "fails s v \<le> fails s w" using e v(1,3) i f v(2) by simp_all
    moreover have "\<forall>t. sent t v = sent t w \<and> (t \<noteq> s \<longrightarrow> incoming t v = incoming t w)" using v(4) o by simp
    ultimately show ?thesis using bs by blast
  qed blast
qed

lemma receive_line_calm:
  "fails s w = 0 \<Longrightarrow> \<exists>w'. ReceiveLine os s w = Some (first_line (incoming s w), w') \<and>
     incoming s w = first_line (incoming s w) @ incoming s w' \<and> fails s w' = 0"
  using plain.line_calm [of s w "[]"] by (simp add: ReceiveLine_def)

lemma receive_line_any:
  "\<exists>l w' taken. ReceiveLine os s w = Some (l, w') \<and> incoming s w = taken @ incoming s w' \<and>
     (l = taken \<or> l = [] \<and> fails s w' < fails s w)"
  using plain.line_total [of s "[]" w] plain.line_consumes [of s "[]" w]
  unfolding ReceiveLine_def by (metis append_Nil)

lemma receive_line_partial:
  assumes "os_recv os s 1 NoFlags w = (Some [r], w1)" and "r \<noteq> 10"
    and "os_recv os s 1 NoFlags w1 = (None, w2)"
  shows "ReceiveLine os s w = Some ([], w2) \<and> incoming s w = r # incoming s w2"
proof -
  have "ReceiveLine os s w = Some ([], w2)"
    using plain.line_step [of s w "Some [r]" w1 "[]"] plain.line_step [of s w1 None w2 "[r]"] assms
    by (simp add: ReceiveLine_def)
  then show ?thesis using recv_takes [OF assms(1)] recv_fails [OF assms(3)] by simp
qed

lemma recv_blocking_calm:
  assumes "fails s w = 0" and "0 < unat len" and "unat len \<le> length buffer" and "length buffer < 2 ^ 31"
  shows "\<exists>w'. RecvBlocking os s buffer len w =
      Some (Inr (if unat len \<le> length (incoming s w) then int (unat len) else 0,
                 take (unat len) (incoming s w) @
                   drop (min (unat len) (length (incoming s w))) buffer, w')) \<and>
    incoming s w' = drop (unat len) (incoming s w)"
proof -
  obtain r w1 where f: "os_fionread os s w = (r, w1)" by fastforce
  have w1: "incoming s w1 = incoming s w" "fails s w1 = 0"
    using fionread_asks [OF f] fionread_calm [OF f, of s] assms(1) by simp_all
  have "unat len < 2 ^ 31" using assms(3,4) by linarith
  note i = sint_ucast_small [OF this]
  have "length buffer < 2 ^ 63" using assms(4) by (rule less_trans) simp
  then show ?thesis
    using waiting.blocking_calm [of s w1 len 0 buffer len] assms w1 i f
    by (auto simp: RecvBlocking_def)
qed

lemma recv_blocking_overrun:
  assumes "os_fionread os s w = (r, w0)"
    and "os_recv os s (unat len) WaitAll w0 = (None, w1)"
    and "os_recv os s (unat (len + 1)) WaitAll w1 = (Some bs, w2)" and "bs \<noteq> []" and "len \<noteq> - 1"
  shows "RecvBlocking os s buffer len w = Some (Inl OutOfBounds)"
  using waiting.blocking_after_failure [of s len w0 w1 bs w2 buffer] assms
  by (simp add: RecvBlocking_def)

end

end
