(* ===== verification/Socket_Life.thy ===== *)
theory Socket_Life
  imports Socket_Ops
begin

text \<open>
  The life of \<open>Socket\<close> objects (\<open>socket/Socket.cpp\<close>): construction, copying, assignment and
  destruction, with the reference counter that copies share on the heap and the class-wide count
  \<open>nofSockets\<close>. Any number of objects and any order of these operations is a run of \<open>life_step\<close>.
\<close>

section \<open>Objects and the heap\<close>

record Socket =
  sock_fd :: int
  refCounter :: nat

record heap =
  counters :: "nat \<rightharpoonup> int"
  next_counter :: nat
  nofSockets :: int

definition Start :: "heap \<Rightarrow> heap" where
  "Start h = h\<lparr>nofSockets := nofSockets h + 1\<rparr>"

definition new_counter :: "heap \<Rightarrow> nat \<times> heap" where
  "new_counter h =
     (next_counter h, h\<lparr>counters := (counters h)(next_counter h \<mapsto> 1), next_counter := Suc (next_counter h)\<rparr>)"

text \<open>
  The default constructor. When \<open>CreateSocket\<close> throws, the object was never constructed, and its
  destructor, which would undo \<open>Start\<close>, does not run.
\<close>

definition Socket_new :: "'w os \<Rightarrow> heap \<Rightarrow> 'w \<Rightarrow> Socket outcome \<times> heap \<times> 'w" where
  "Socket_new os h w =
     (let h = Start h; (r, s, w) = CreateSocket os w
      in case r of Throw e \<Rightarrow> (Throw e, h, w)
         | Ret _ \<Rightarrow> let (p, h) = new_counter h in (Ret \<lparr>sock_fd = s, refCounter = p\<rparr>, h, w))"

definition Socket_adopt :: "int \<Rightarrow> heap \<Rightarrow> Socket \<times> heap" where
  "Socket_adopt s h =
     (let h = Start h; (p, h) = new_counter h in (\<lparr>sock_fd = s, refCounter = p\<rparr>, h))"

definition Socket_copy :: "Socket \<Rightarrow> heap \<Rightarrow> fault + (Socket \<times> heap)" where
  "Socket_copy oth h =
     (case counters h (refCounter oth) of None \<Rightarrow> Inl UseAfterFree
      | Some c \<Rightarrow>
          Inr (\<lparr>sock_fd = sock_fd oth, refCounter = refCounter oth\<rparr>,
               h\<lparr>counters := (counters h)(refCounter oth \<mapsto> c + 1), nofSockets := nofSockets h + 1\<rparr>))"

text \<open>\<open>operator=\<close> does not release what the target referred to before.\<close>

definition Socket_assign :: "Socket \<Rightarrow> Socket \<Rightarrow> heap \<Rightarrow> fault + (Socket \<times> heap)" where
  "Socket_assign this oth h =
     (case counters h (refCounter oth) of None \<Rightarrow> Inl UseAfterFree
      | Some c \<Rightarrow>
          Inr (this\<lparr>sock_fd := sock_fd oth, refCounter := refCounter oth\<rparr>,
               h\<lparr>counters := (counters h)(refCounter oth \<mapsto> c + 1), nofSockets := nofSockets h + 1\<rparr>))"

definition Socket_dtor :: "'w os \<Rightarrow> Socket \<Rightarrow> heap \<Rightarrow> 'w \<Rightarrow> fault + (heap \<times> 'w)" where
  "Socket_dtor os this h w =
     (case counters h (refCounter this) of None \<Rightarrow> Inl UseAfterFree
      | Some c \<Rightarrow>
          let (cs, w) =
            (if c - 1 = 0 then ((counters h)(refCounter this := None), Close os (sock_fd this) w)
             else ((counters h)(refCounter this \<mapsto> c - 1), w))
          in Inr (h\<lparr>counters := cs, nofSockets := nofSockets h - 1\<rparr>, w))"

section \<open>Runs\<close>

datatype life_op =
    Create nat
  | CreateFails
  | Adopt nat int
  | Copy nat nat       \<comment> \<open>from the first into a new second object\<close>
  | Assign nat nat     \<comment> \<open>the first is assigned to the second\<close>
  | Destroy nat

record 'w life =
  l_objs :: "nat \<rightharpoonup> Socket"
  l_heap :: heap
  l_world :: 'w

inductive life_step :: "'w os \<Rightarrow> life_op \<Rightarrow> 'w life \<Rightarrow> 'w life \<Rightarrow> bool" for os where
  create: "l_objs s i = None \<Longrightarrow> Socket_new os (l_heap s) (l_world s) = (Ret x, h, w) \<Longrightarrow>
    life_step os (Create i) s \<lparr>l_objs = (l_objs s)(i \<mapsto> x), l_heap = h, l_world = w\<rparr>"
| create_fails: "Socket_new os (l_heap s) (l_world s) = (Throw e, h, w) \<Longrightarrow>
    life_step os CreateFails s \<lparr>l_objs = l_objs s, l_heap = h, l_world = w\<rparr>"
| adopt: "l_objs s i = None \<Longrightarrow> Socket_adopt fd (l_heap s) = (x, h) \<Longrightarrow>
    life_step os (Adopt i fd) s \<lparr>l_objs = (l_objs s)(i \<mapsto> x), l_heap = h, l_world = l_world s\<rparr>"
| copy: "l_objs s i = Some x \<Longrightarrow> l_objs s j = None \<Longrightarrow> Socket_copy x (l_heap s) = Inr (y, h) \<Longrightarrow>
    life_step os (Copy i j) s \<lparr>l_objs = (l_objs s)(j \<mapsto> y), l_heap = h, l_world = l_world s\<rparr>"
| assign: "l_objs s i = Some x \<Longrightarrow> l_objs s j = Some y \<Longrightarrow>
    Socket_assign y x (l_heap s) = Inr (z, h) \<Longrightarrow>
    life_step os (Assign i j) s \<lparr>l_objs = (l_objs s)(j \<mapsto> z), l_heap = h, l_world = l_world s\<rparr>"
| destroy: "l_objs s i = Some x \<Longrightarrow> Socket_dtor os x (l_heap s) (l_world s) = Inr (h, w) \<Longrightarrow>
    life_step os (Destroy i) s \<lparr>l_objs = (l_objs s)(i := None), l_heap = h, l_world = w\<rparr>"

inductive_cases life_DestroyE: "life_step os (Destroy i) s t"
inductive_cases life_AssignE: "life_step os (Assign i j) s t"

inductive life_run :: "'w os \<Rightarrow> life_op list \<Rightarrow> 'w life \<Rightarrow> 'w life \<Rightarrow> bool" for os where
  nil: "life_run os [] s s"
| snoc: "life_run os xs s t \<Longrightarrow> life_step os x t u \<Longrightarrow> life_run os (xs @ [x]) s u"

definition empty_heap :: heap where
  "empty_heap = \<lparr>counters = Map.empty, next_counter = 0, nofSockets = 0\<rparr>"

definition no_sockets :: "'w \<Rightarrow> 'w life" where
  "no_sockets w =
     \<lparr>l_objs = Map.empty,
      l_heap = \<lparr>counters = Map.empty, next_counter = 0, nofSockets = 0\<rparr>, l_world = w\<rparr>"

section \<open>Counting references\<close>

definition sharing :: "(nat \<rightharpoonup> Socket) \<Rightarrow> nat \<Rightarrow> nat set" where
  "sharing objs p = {i. \<exists>x. objs i = Some x \<and> refCounter x = p}"

lemma sharing_upd:
  "sharing (objs(i \<mapsto> x)) p =
    (if refCounter x = p then insert i (sharing objs p) else sharing objs p - {i})"
  by (auto simp: sharing_def)

lemma sharing_del: "sharing (objs(i := None)) p = sharing objs p - {i}"
  by (auto simp: sharing_def)

lemma sharing_dom: "sharing objs p \<subseteq> dom objs"
  by (auto simp: sharing_def)

lemma sharing_mem: "objs i = Some x \<Longrightarrow> i \<in> sharing objs p \<longleftrightarrow> refCounter x = p"
  by (auto simp: sharing_def)

lemma sharing_none: "objs i = None \<Longrightarrow> i \<notin> sharing objs p"
  by (auto simp: sharing_def)

text \<open>
  Every object has a live counter that is at least the number of objects that share it, every live
  counter has been allocated, and the objects that share one have the same descriptor.
\<close>

definition life_inv :: "'w life \<Rightarrow> bool" where
  "life_inv s \<longleftrightarrow> finite (dom (l_objs s)) \<and>
     (\<forall>i x. l_objs s i = Some x \<longrightarrow> counters (l_heap s) (refCounter x) \<noteq> None) \<and>
     (\<forall>i j x y. l_objs s i = Some x \<and> l_objs s j = Some y \<and> refCounter x = refCounter y \<longrightarrow>
        sock_fd x = sock_fd y) \<and>
     (\<forall>p c. counters (l_heap s) p = Some c \<longrightarrow>
        p < next_counter (l_heap s) \<and> 0 < c \<and> int (card (sharing (l_objs s) p)) \<le> c)"

lemma life_inv_finite: "life_inv s \<Longrightarrow> finite (dom (l_objs s))"
  by (simp add: life_inv_def)

lemma life_inv_live:
  "life_inv s \<Longrightarrow> l_objs s i = Some x \<Longrightarrow> \<exists>c. counters (l_heap s) (refCounter x) = Some c"
  unfolding life_inv_def by blast

lemma life_inv_fd:
  "life_inv s \<Longrightarrow> l_objs s i = Some x \<Longrightarrow> l_objs s j = Some y \<Longrightarrow> refCounter x = refCounter y \<Longrightarrow>
   sock_fd x = sock_fd y"
  unfolding life_inv_def by blast

lemma life_inv_bound:
  "life_inv s \<Longrightarrow> counters (l_heap s) p = Some c \<Longrightarrow>
   p < next_counter (l_heap s) \<and> 0 < c \<and> int (card (sharing (l_objs s) p)) \<le> c"
  unfolding life_inv_def by blast

lemma life_inv_unused: "life_inv s \<Longrightarrow> counters (l_heap s) p = None \<Longrightarrow> sharing (l_objs s) p = {}"
  using life_inv_live [of s] by (fastforce simp: sharing_def)

lemma life_invI:
  assumes "finite (dom (l_objs s))"
    and "\<And>i x. l_objs s i = Some x \<Longrightarrow> \<exists>c. counters (l_heap s) (refCounter x) = Some c"
    and "\<And>i j x y. l_objs s i = Some x \<Longrightarrow> l_objs s j = Some y \<Longrightarrow> refCounter x = refCounter y \<Longrightarrow>
      sock_fd x = sock_fd y"
    and "\<And>p c. counters (l_heap s) p = Some c \<Longrightarrow>
      p < next_counter (l_heap s) \<and> 0 < c \<and> int (card (sharing (l_objs s) p)) \<le> c"
  shows "life_inv s"
  unfolding life_inv_def using assms by blast

text \<open>Without assignment the counter is exactly that number.\<close>

definition exact :: "'w life \<Rightarrow> bool" where
  "exact s \<longleftrightarrow> (\<forall>p. counters (l_heap s) p =
     (if sharing (l_objs s) p = {} then None else Some (int (card (sharing (l_objs s) p)))))"

lemmas life_defs = Socket_new_def Socket_adopt_def Socket_copy_def Socket_assign_def Socket_dtor_def
  Start_def new_counter_def CreateSocket_def Let_def

lemma card_sharing_upd:
  assumes "finite (dom objs)"
  shows "card (sharing (objs(i \<mapsto> x)) p) \<le> card (sharing objs p) + (if refCounter x = p then 1 else 0)"
proof -
  have f: "finite (sharing objs p)" using finite_subset [OF sharing_dom assms] .
  show ?thesis
    using card_insert_le_m1 [of "Suc (card (sharing objs p))" "sharing objs p" i] card_Diff1_le [of "sharing objs p" i]
      card_insert_if [OF f, of i]
    by (auto simp: sharing_upd)
qed

text \<open>One more reference to \<open>p\<close>, from the object \<open>i\<close>: construction, copying and assignment.\<close>

lemma life_inv_acquire:
  assumes inv: "life_inv s"
    and p: "refCounter x = p" "p < n" "next_counter (l_heap s) \<le> n"
    and c: "counters (l_heap s) p = Some c \<or> counters (l_heap s) p = None \<and> c = 0"
    and fd: "\<And>j y. l_objs s j = Some y \<Longrightarrow> refCounter y = p \<Longrightarrow> sock_fd y = sock_fd x"
    and h: "counters h = (counters (l_heap s))(p \<mapsto> c + 1)" "next_counter h = n"
  shows "life_inv \<lparr>l_objs = (l_objs s)(i \<mapsto> x), l_heap = h, l_world = w\<rparr>"
proof -
  have fin: "finite (dom (l_objs s))" using inv by (simp add: life_inv_def)
  have c0: "0 \<le> c" "int (card (sharing (l_objs s) p)) \<le> c"
    using c life_inv_bound [OF inv, of p] life_inv_unused [OF inv, of p] by fastforce+
  have le: "int (card (sharing ((l_objs s)(i \<mapsto> x)) q)) \<le>
      int (card (sharing (l_objs s) q)) + (if q = p then 1 else 0)" for q
    using card_sharing_upd [OF fin, of i x q] p(1) by (auto split: if_splits)
  show ?thesis
  proof (rule life_invI, unfold life.select_convs h)
    show "finite (dom ((l_objs s)(i \<mapsto> x)))" using fin by simp
  next
    fix j y assume "((l_objs s)(i \<mapsto> x)) j = Some y"
    then show "\<exists>d. ((counters (l_heap s))(p \<mapsto> c + 1)) (refCounter y) = Some d"
      using p(1) life_inv_live [OF inv, of j y] by (auto split: if_splits)
  next
    fix j k y z
    assume "((l_objs s)(i \<mapsto> x)) j = Some y" "((l_objs s)(i \<mapsto> x)) k = Some z"
      "refCounter y = refCounter z"
    then show "sock_fd y = sock_fd z"
      using fd [of j y] fd [of k z] p(1) life_inv_fd [OF inv, of j y k z] by (auto split: if_splits)
  next
    fix q d assume q: "((counters (l_heap s))(p \<mapsto> c + 1)) q = Some d"
    show "q < n \<and> 0 < d \<and> int (card (sharing ((l_objs s)(i \<mapsto> x)) q)) \<le> d"
    proof (cases "q = p")
      case True
      then show ?thesis using q c0 le [of p] p(2) by auto
    next
      case False
      then show ?thesis
        using q life_inv_bound [OF inv, of q d] le [of q] p(3) by auto
    qed
  qed
qed

lemma sharing_without:
  assumes "finite (dom objs)" and "objs i = Some x"
  shows "int (card (sharing (objs(i := None)) (refCounter x))) = int (card (sharing objs (refCounter x))) - 1"
    and "finite (sharing (objs(i := None)) q)"
    and "q \<noteq> refCounter x \<Longrightarrow> sharing (objs(i := None)) q = sharing objs q"
proof -
  have fs: "finite (sharing objs q)" for q using finite_subset [OF sharing_dom assms(1)] .
  have mem: "i \<in> sharing objs (refCounter x)" using assms(2) by (auto simp: sharing_def)
  show "int (card (sharing (objs(i := None)) (refCounter x))) = int (card (sharing objs (refCounter x))) - 1"
    using card_Suc_Diff1 [OF fs mem] by (simp add: sharing_del)
  show "finite (sharing (objs(i := None)) q)" using fs [of q] by (simp add: sharing_del)
  show "q \<noteq> refCounter x \<Longrightarrow> sharing (objs(i := None)) q = sharing objs q"
    using assms(2) by (auto simp: sharing_def)
qed

lemma life_inv_dtor:
  assumes inv: "life_inv s" and x: "l_objs s i = Some x"
    and d: "Socket_dtor os x (l_heap s) w = Inr (h, w')"
  shows "life_inv \<lparr>l_objs = (l_objs s)(i := None), l_heap = h, l_world = w'\<rparr>"
proof -
  let ?p = "refCounter x" and ?objs = "(l_objs s)(i := None)"
  have fin: "finite (dom (l_objs s))" using inv by (simp add: life_inv_def)
  note sh = sharing_without [OF fin x]
  obtain c where c: "counters (l_heap s) ?p = Some c"
    using life_inv_live [OF inv x] by blast
  note c1 = life_inv_bound [OF inv c]
  have h: "counters h = (counters (l_heap s))(?p := if c = 1 then None else Some (c - 1))"
    "next_counter h = next_counter (l_heap s)"
    using d c by (auto simp: Socket_dtor_def Let_def split: if_splits)
  have one: "sharing ?objs ?p = {}" if "c = 1"
    using that c1 sh(1) sh(2) [of ?p] by (simp flip: card_0_eq)
  show ?thesis
  proof (rule life_invI, unfold life.select_convs h)
    show "finite (dom ?objs)" using fin by simp
  next
    fix j y assume j: "?objs j = Some y"
    then have "sharing ?objs (refCounter y) \<noteq> {}" by (cases "j = i") (auto simp: sharing_def)
    then show "\<exists>d. ((counters (l_heap s))(?p := if c = 1 then None else Some (c - 1))) (refCounter y) = Some d"
      using j one life_inv_live [OF inv, of j y] by (cases "refCounter y = ?p") (auto split: if_splits)
  next
    fix j k y z assume "?objs j = Some y" "?objs k = Some z" "refCounter y = refCounter z"
    then show "sock_fd y = sock_fd z"
      using life_inv_fd [OF inv, of j y k z] by (simp split: if_splits)
  next
    fix q d assume q: "((counters (l_heap s))(?p := if c = 1 then None else Some (c - 1))) q = Some d"
    show "q < next_counter (l_heap s) \<and> 0 < d \<and> int (card (sharing ?objs q)) \<le> d"
    proof (cases "q = ?p")
      case True
      then show ?thesis using q c c1 sh(1) by (auto split: if_splits)
    next
      case False
      then show ?thesis using q sh(3) life_inv_bound [OF inv, of q d] by simp
    qed
  qed
qed

lemma life_inv_fresh: "life_inv s \<Longrightarrow> counters (l_heap s) (next_counter (l_heap s)) = None"
  using life_inv_bound [of s "next_counter (l_heap s)"] by (cases "counters (l_heap s) (next_counter (l_heap s))") auto

lemma life_inv_new:
  assumes inv: "life_inv s" and x: "refCounter x = next_counter (l_heap s)"
    and h: "counters h = (counters (l_heap s))(next_counter (l_heap s) \<mapsto> 1)"
      "next_counter h = Suc (next_counter (l_heap s))"
  shows "life_inv \<lparr>l_objs = (l_objs s)(i \<mapsto> x), l_heap = h, l_world = w\<rparr>"
proof (rule life_inv_acquire [OF inv x, where c = 0 and n = "Suc (next_counter (l_heap s))"])
  fix j y assume "l_objs s j = Some y" "refCounter y = next_counter (l_heap s)"
  then show "sock_fd y = sock_fd x"
    using life_inv_live [OF inv, of j y] life_inv_fresh [OF inv] by simp
qed (simp_all add: h life_inv_fresh [OF inv])

lemma life_step_inv:
  assumes "life_step os op s t" and inv: "life_inv s"
  shows "life_inv t"
  using assms(1)
proof cases
  case (create i x h w)
  then show ?thesis
    by (auto simp: life_defs intro!: life_inv_new [OF inv] split: if_splits prod.splits)
next
  case (create_fails e h w)
  then show ?thesis
    using inv by (auto simp: life_defs life_inv_def split: if_splits prod.splits)
next
  case (adopt i fd x h)
  then show ?thesis by (auto simp: life_defs intro!: life_inv_new [OF inv])
next
  case (copy i x j y h)
  obtain c where c: "counters (l_heap s) (refCounter x) = Some c"
    using life_inv_live [OF inv copy(3)] by blast
  then show ?thesis
    unfolding copy(2)
    using copy(5) life_inv_fd [OF inv _ copy(3)] life_inv_bound [OF inv c]
    by (intro life_inv_acquire [OF inv, where p = "refCounter x" and c = c]) (auto simp: Socket_copy_def)
next
  case (assign i x j y z h)
  obtain c where c: "counters (l_heap s) (refCounter x) = Some c"
    using life_inv_live [OF inv assign(3)] by blast
  then show ?thesis
    unfolding assign(2)
    using assign(5) life_inv_fd [OF inv _ assign(3)] life_inv_bound [OF inv c]
    by (intro life_inv_acquire [OF inv, where p = "refCounter x" and c = c]) (auto simp: Socket_assign_def)
next
  case (destroy i x h w)
  then show ?thesis using life_inv_dtor [OF inv] by simp
qed

lemma life_run_inv: "life_run os ops s t \<Longrightarrow> life_inv s \<Longrightarrow> life_inv t"
  by (induction rule: life_run.induct) (auto dest: life_step_inv)

lemma no_sockets_inv: "life_inv (no_sockets w)" "exact (no_sockets w)"
  by (simp_all add: life_inv_def exact_def no_sockets_def sharing_def)

section \<open>Without assignment the count is exact\<close>

lemma exact_new:
  assumes "life_inv s" and "exact s" and "l_objs s i = None"
    and "refCounter x = next_counter (l_heap s)"
    and "counters h = (counters (l_heap s))(next_counter (l_heap s) \<mapsto> 1)"
  shows "exact \<lparr>l_objs = (l_objs s)(i \<mapsto> x), l_heap = h, l_world = w\<rparr>"
proof -
  have "sharing (l_objs s) (next_counter (l_heap s)) = {}"
    using life_inv_unused [OF assms(1) life_inv_fresh [OF assms(1)]] .
  moreover have "i \<notin> sharing (l_objs s) q" for q using assms(3) by (auto simp: sharing_def)
  ultimately show ?thesis
    using assms(2,4,5) by (auto simp: exact_def sharing_upd)
qed

lemma exact_copy:
  assumes inv: "life_inv s" and e: "exact s" and j: "l_objs s j = None"
    and x: "l_objs s i = Some x" "refCounter y = refCounter x"
    and c: "counters (l_heap s) (refCounter x) = Some c"
    and h: "counters h = (counters (l_heap s))(refCounter x \<mapsto> c + 1)"
  shows "exact \<lparr>l_objs = (l_objs s)(j \<mapsto> y), l_heap = h, l_world = w\<rparr>"
proof -
  let ?S = "sharing (l_objs s)"
  have fin: "finite (?S p)" for p
    using finite_subset [OF sharing_dom life_inv_finite [OF inv]] .
  have "?S (refCounter x) \<noteq> {}" using x(1) by (auto simp: sharing_def)
  with e c have "c = int (card (?S (refCounter x)))" by (auto simp: exact_def)
  moreover have n: "j \<notin> ?S q" for q using j by (auto simp: sharing_def)
  ultimately have "int (card (insert j (?S (refCounter x)))) = c + 1"
    using fin by simp
  then show ?thesis
    using e h x(2) n by (auto simp: exact_def sharing_upd)
qed

lemma exact_dtor:
  assumes inv: "life_inv s" and e: "exact s" and x: "l_objs s i = Some x"
    and d: "Socket_dtor os x (l_heap s) w = Inr (h, w')"
  shows "exact \<lparr>l_objs = (l_objs s)(i := None), l_heap = h, l_world = w'\<rparr>"
proof -
  let ?S = "sharing (l_objs s)" and ?p = "refCounter x"
  have fin: "finite (?S q)" for q
    using finite_subset [OF sharing_dom life_inv_finite [OF inv]] .
  have mem: "i \<in> ?S ?p" using x by (auto simp: sharing_def)
  then have c: "counters (l_heap s) ?p = Some (int (card (?S ?p)))" using e by (auto simp: exact_def)
  then have h: "counters h = (counters (l_heap s))(?p := if card (?S ?p) = 1 then None else Some (int (card (?S ?p)) - 1))"
    using d by (auto simp: Socket_dtor_def Let_def split: if_splits)
  have "card (?S ?p - {i}) = card (?S ?p) - 1" using mem by simp
  moreover have "card (?S ?p) \<noteq> 0" using mem fin by auto
  moreover have "card (?S ?p - {i}) = 0 \<longleftrightarrow> ?S ?p - {i} = {}" using fin by simp
  ultimately have "card (?S ?p) = 1 \<longleftrightarrow> ?S ?p - {i} = {}"
    and "int (card (?S ?p - {i})) = int (card (?S ?p)) - 1"
    by linarith+
  moreover have "?S q - {i} = ?S q" if "q \<noteq> ?p" for q
    using that x by (auto simp: sharing_def)
  ultimately show ?thesis
    using e h by (auto simp: exact_def sharing_del)
qed

fun is_assign :: "life_op \<Rightarrow> bool" where
  "is_assign (Assign i j) = True"
| "is_assign x = False"

lemma exact_step:
  assumes "life_step os op s t" and inv: "life_inv s" and e: "exact s" and "\<not> is_assign op"
  shows "exact t"
  using assms(1)
proof cases
  case (create i x h w)
  then show ?thesis
    by (auto simp: life_defs intro!: exact_new [OF inv e] split: if_splits prod.splits)
next
  case (create_fails e' h w)
  then have "counters h = counters (l_heap s)"
    by (auto simp: life_defs split: if_splits prod.splits)
  then show ?thesis using e create_fails(2) by (simp add: exact_def)
next
  case (adopt i fd x h)
  then show ?thesis by (auto simp: life_defs intro!: exact_new [OF inv e])
next
  case (copy i x j y h)
  obtain c where "counters (l_heap s) (refCounter x) = Some c"
    using life_inv_live [OF inv copy(3)] by blast
  then show ?thesis
    unfolding copy(2) using copy(5)
    by (intro exact_copy [OF inv e copy(4,3), where c = c]) (auto simp: Socket_copy_def)
next
  case (assign i x j y z h)
  then show ?thesis using assms(4) by simp
next
  case (destroy i x h w)
  then show ?thesis using exact_dtor [OF inv e] by simp
qed

lemma exact_run:
  "life_run os ops s t \<Longrightarrow> life_inv s \<Longrightarrow> exact s \<Longrightarrow> \<forall>op\<in>set ops. \<not> is_assign op \<Longrightarrow> exact t"
proof (induction rule: life_run.induct)
  case (snoc xs s t x u)
  then show ?case using exact_step [OF snoc(2)] life_run_inv [OF snoc(1)] by simp
qed simp

section \<open>Leaked counters\<close>

text \<open>A counter with more references counted than there are can never come down to zero.\<close>

definition leaked :: "nat \<Rightarrow> 'w life \<Rightarrow> bool" where
  "leaked p s \<longleftrightarrow> (\<exists>c. counters (l_heap s) p = Some c \<and> int (card (sharing (l_objs s) p)) < c)"

lemma leaked_acquire:
  assumes inv: "life_inv s" and l: "leaked p s" and x: "refCounter x = q"
    and c: "counters (l_heap s) q = Some c \<or> counters (l_heap s) q = None \<and> c = 0"
    and h: "counters h = (counters (l_heap s))(q \<mapsto> c + 1)"
  shows "leaked p \<lparr>l_objs = (l_objs s)(i \<mapsto> x), l_heap = h, l_world = w\<rparr>"
proof -
  obtain d where d: "counters (l_heap s) p = Some d" "int (card (sharing (l_objs s) p)) < d"
    using l by (auto simp: leaked_def)
  have "int (card (sharing ((l_objs s)(i \<mapsto> x)) p)) \<le>
      int (card (sharing (l_objs s) p)) + (if q = p then 1 else 0)"
    using card_sharing_upd [OF life_inv_finite [OF inv], of i x p] x by (auto split: if_splits)
  then show ?thesis using d c h by (auto simp: leaked_def)
qed

lemma leaked_dtor:
  assumes inv: "life_inv s" and l: "leaked p s" and x: "l_objs s i = Some x"
    and d: "Socket_dtor os x (l_heap s) w = Inr (h, w')"
  shows "leaked p \<lparr>l_objs = (l_objs s)(i := None), l_heap = h, l_world = w'\<rparr>"
proof (cases "refCounter x = p")
  case True
  have fin: "finite (sharing (l_objs s) p)"
    using finite_subset [OF sharing_dom life_inv_finite [OF inv]] .
  have i: "i \<in> sharing (l_objs s) p" using x True by (auto simp: sharing_def)
  have c: "int (card (sharing ((l_objs s)(i := None)) p)) = int (card (sharing (l_objs s) p)) - 1"
      "0 < card (sharing (l_objs s) p)"
    using card_Suc_Diff1 [OF fin i] by (simp_all add: sharing_del)
  obtain c0 where "counters (l_heap s) p = Some c0" "int (card (sharing (l_objs s) p)) < c0"
    using l by (auto simp: leaked_def)
  then show ?thesis
    using d c True by (auto simp: leaked_def Socket_dtor_def Let_def split: if_splits)
next
  case False
  then have "sharing ((l_objs s)(i := None)) p = sharing (l_objs s) p"
    using x by (auto simp: sharing_def)
  then show ?thesis
    using l d False
    by (auto simp: leaked_def Socket_dtor_def Let_def split: if_splits option.splits)
qed

lemma leaked_step:
  assumes "life_step os op s t" and inv: "life_inv s" and l: "leaked p s"
  shows "leaked p t"
  using assms(1)
proof cases
  case (create i x h w)
  then show ?thesis
    using life_inv_fresh [OF inv]
    by (auto simp: life_defs intro!: leaked_acquire [OF inv l, where c = 0] split: if_splits prod.splits)
next
  case (create_fails e h w)
  then have "counters h = counters (l_heap s)"
    by (auto simp: life_defs split: if_splits prod.splits)
  then show ?thesis using l create_fails(2) by (simp add: leaked_def)
next
  case (adopt i fd x h)
  then show ?thesis
    using life_inv_fresh [OF inv]
    by (auto simp: life_defs intro!: leaked_acquire [OF inv l, where c = 0])
next
  case (copy i x j y h)
  obtain c where "counters (l_heap s) (refCounter x) = Some c"
    using life_inv_live [OF inv copy(3)] by blast
  then show ?thesis
    unfolding copy(2) using copy(5)
    by (intro leaked_acquire [OF inv l, where q = "refCounter x" and c = c]) (auto simp: Socket_copy_def)
next
  case (assign i x j y z h)
  obtain c where "counters (l_heap s) (refCounter x) = Some c"
    using life_inv_live [OF inv assign(3)] by blast
  then show ?thesis
    unfolding assign(2) using assign(5)
    by (intro leaked_acquire [OF inv l, where q = "refCounter x" and c = c]) (auto simp: Socket_assign_def)
next
  case (destroy i x h w)
  then show ?thesis using leaked_dtor [OF inv l] by simp
qed

lemma leaked_run: "life_run os ops s t \<Longrightarrow> life_inv s \<Longrightarrow> leaked p s \<Longrightarrow> leaked p t"
proof (induction rule: life_run.induct)
  case (snoc xs s t x u)
  then show ?case using leaked_step [OF snoc(2)] life_run_inv [OF snoc(1)] by simp
qed simp

text \<open>Assignment leaks the counter that its target had, even when the target had the same one.\<close>

lemma assign_leaks:
  assumes inv: "life_inv s" and a: "life_step os (Assign i j) s t" and y: "l_objs s j = Some y"
  shows "leaked (refCounter y) t"
  using a
proof (rule life_AssignE)
  fix x y' z h
  assume s: "l_objs s i = Some x" "l_objs s j = Some y'" "Socket_assign y' x (l_heap s) = Inr (z, h)"
    and t: "t = \<lparr>l_objs = (l_objs s)(j \<mapsto> z), l_heap = h, l_world = l_world s\<rparr>"
  let ?p = "refCounter y"
  have fin: "finite (sharing (l_objs s) ?p)"
    using finite_subset [OF sharing_dom life_inv_finite [OF inv]] .
  have j: "j \<in> sharing (l_objs s) ?p" using y by (auto simp: sharing_def)
  obtain c where c: "counters (l_heap s) (refCounter x) = Some c" using life_inv_live [OF inv s(1)] by blast
  obtain d where d: "counters (l_heap s) ?p = Some d" using life_inv_live [OF inv y] by blast
  have z: "refCounter z = refCounter x" "counters h = (counters (l_heap s))(refCounter x \<mapsto> c + 1)"
    using s(3) c by (auto simp: Socket_assign_def)
  have "card (sharing (l_objs s) ?p - {j}) < card (sharing (l_objs s) ?p)"
    using j fin by (rule card_Diff1_less [rotated])
  moreover have "insert j (sharing (l_objs s) ?p) = sharing (l_objs s) ?p" using j by blast
  ultimately show ?thesis
    using t z c d life_inv_bound [OF inv d] by (auto simp: leaked_def sharing_upd)
qed

section \<open>The class-wide count\<close>

fun miscounted :: "life_op \<Rightarrow> bool" where
  "miscounted CreateFails = True"
| "miscounted (Assign i j) = True"
| "miscounted op = False"

lemma card_dom_upd:
  "finite (dom f) \<Longrightarrow> card (dom (f(i \<mapsto> x))) = (if f i = None then card (dom f) + 1 else card (dom f))"
  by (auto simp: insert_absorb domIff)

lemma card_dom_del:
  "finite (dom f) \<Longrightarrow> f i = Some x \<Longrightarrow> int (card (dom (f(i := None)))) = int (card (dom f)) - 1"
proof -
  assume f: "finite (dom f)" "f i = Some x"
  then have "i \<in> dom f" by auto
  with f(1) show ?thesis
    using card_gt_0_iff [of "dom f"] by (auto simp: dom_fun_upd of_nat_diff)
qed

lemma count_step:
  assumes "life_step os op s t" and "life_inv s"
  shows "nofSockets (l_heap t) - int (card (dom (l_objs t))) =
    nofSockets (l_heap s) - int (card (dom (l_objs s))) + (if miscounted op then 1 else 0)"
  using assms(1) life_inv_finite [OF assms(2)]
  by cases (auto simp: life_defs card_dom_upd card_dom_del simp del: dom_fun_upd
      split: if_splits prod.splits option.splits)

lemma count_run:
  "life_run os ops s t \<Longrightarrow> life_inv s \<Longrightarrow>
   nofSockets (l_heap t) - int (card (dom (l_objs t))) =
     nofSockets (l_heap s) - int (card (dom (l_objs s))) + int (length (filter miscounted ops))"
proof (induction rule: life_run.induct)
  case (snoc xs s t x u)
  then show ?case using count_step [OF snoc(2)] life_run_inv [OF snoc(1)] by simp
qed simp

end
