(* ===== verification/Socket_Theorems.thy ===== *)
theory Socket_Theorems
  imports Socket_Ops Socket_Life
begin

text \<open>
  The properties of \<open>Socket\<close>: what its receiving operations return, that they return, what they do
  with a failing \<open>recv\<close>, and when the descriptor of a group of copies is closed. The hypothesis
  \<open>posix_live\<close> is the documented behaviour of the system calls (theory \<open>Posix\<close>); the witnesses run
  on the concrete system \<open>sim\<close>.
\<close>

section \<open>Receiving\<close>

text \<open>C7: \<open>ReceiveBytes\<close> returns, interrupted calls being repeated, on every system on which \<open>recv\<close>
  fails, interruptions included, only finitely often (\<open>posix_live\<close>). What it returns is exactly
  what it took off the stream, nothing lost or reordered, and it touches no other descriptor. It
  returns the empty string only at the end of the stream or when \<open>recv\<close> failed with an error
  other than an interruption.\<close>

theorem receive_bytes_spec:
  assumes "posix_live os incoming sent fails"
  shows "\<exists>bs w'. ReceiveBytes os s w = Some (bs, w') \<and> incoming s w = bs @ incoming s w' \<and>
    (bs = [] \<longrightarrow> incoming s w = [] \<or> fails s w' < fails s w \<and> os_errno os w' \<noteq> EINTR) \<and>
    (\<forall>t. sent t w' = sent t w \<and> (t \<noteq> s \<longrightarrow> incoming t w' = incoming t w))"
  using posix_live.receive_loop_spec [OF assms, of READ_BUFFER s "[]" w]
  unfolding ReceiveBytes_def READ_BUFFER_def by auto

definition two_segments :: kernel where
  "two_segments = boot\<lparr>k_in := (k_in boot)(5 := [[104, 105], [33]]), k_intr := 2\<rparr>"

theorem receive_bytes_spec_witness:
  "\<exists>bs w'. ReceiveBytes sim 5 two_segments = Some (bs, w') \<and>
    [104, 105, 33] = bs @ sim_in 5 w' \<and> sim_out 7 w' = []"
proof -
  have "sim_in 5 two_segments = [104, 105, 33]" "sim_out 7 two_segments = []"
    by (simp_all add: two_segments_def sim_in_def sim_out_def boot_def)
  with receive_bytes_spec [OF sim.posix_live_axioms, of 5 two_segments] show ?thesis by metis
qed

text \<open>C32: on a socket whose \<open>recv\<close> does not fail, \<open>ReceiveLine\<close> returns the next line of the stream
  with its newline, or the rest of the stream if it has none, and leaves the stream behind it.\<close>

theorem receive_line_spec:
  assumes "posix_live os incoming sent fails" and "fails s w = 0"
  shows "\<exists>w'. ReceiveLine os s w = Some (first_line (incoming s w), w') \<and>
    incoming s w = first_line (incoming s w) @ incoming s w' \<and> fails s w' = 0"
  by (rule posix_live.receive_line_calm [OF assms])

definition lines :: kernel where
  "lines = boot\<lparr>k_in := (k_in boot)(5 := [[71, 69], [84, 10, 88]])\<rparr>"

lemma lines_in: "sim_in 5 lines = [71, 69, 84, 10, 88]"
  by (simp add: lines_def sim_in_def)

theorem receive_line_spec_witness:
  "\<exists>w'. ReceiveLine sim 5 lines = Some ([71, 69, 84, 10], w') \<and> sim_in 5 w' = [88]"
proof -
  have "sim_fails 5 lines = 0" by (simp add: lines_def sim_fails_def boot_def)
  from receive_line_spec [OF sim.posix_live_axioms this] show ?thesis
    by (auto simp: lines_in first_line_def)
qed

text \<open>Whatever \<open>recv\<close> does, \<open>ReceiveLine\<close> returns; but a failure in the middle of a line, for
  instance the read timeout that the proxy sets, makes it return the empty string and the bytes of
  the line that it had taken off the stream are gone.\<close>

theorem receive_line_drops_partial_line:
  assumes "posix_live os incoming sent fails"
  shows "(\<exists>l w' taken. ReceiveLine os s w = Some (l, w') \<and> incoming s w = taken @ incoming s w' \<and>
      (l = taken \<or> l = [] \<and> fails s w' < fails s w)) \<and>
    (os_recv os s 1 NoFlags w = (Some [r], w1) \<and> r \<noteq> 10 \<and> os_recv os s 1 NoFlags w1 = (None, w2) \<longrightarrow>
      ReceiveLine os s w = Some ([], w2) \<and> incoming s w = r # incoming s w2)"
  using posix_live.receive_line_any [OF assms, of s w] posix_live.receive_line_partial [OF assms, of s w r w1 w2]
  by blast

definition timed_out :: kernel where
  "timed_out = boot\<lparr>k_in := (k_in boot)(5 := [[71], [], [69, 10]])\<rparr>"

theorem receive_line_drops_partial_line_witness:
  "\<exists>w'. ReceiveLine sim 5 timed_out = Some ([], w') \<and> sim_in 5 timed_out = 71 # sim_in 5 w'"
proof -
  obtain w1 w2 where "os_recv sim 5 1 NoFlags timed_out = (Some [71], w1)"
    "os_recv sim 5 1 NoFlags w1 = (None, w2)"
    by (simp add: sim_def sim_recv_def timed_out_def boot_def)
  with receive_line_drops_partial_line [OF sim.posix_live_axioms, of 5 timed_out 71 w1 w2]
  show ?thesis by auto
qed

text \<open>C33: Asked for \<open>len > 0\<close> bytes, for which the caller's buffer of less than \<open>2 ^ 31\<close> bytes has
  room, on a socket whose \<open>recv\<close> does not fail, \<open>RecvBlocking\<close> returns: it fills the buffer with
  exactly the next \<open>len\<close> bytes of the stream and answers \<open>len\<close>; when the stream ends first it
  answers 0 with what there was at the front of the buffer. It takes no more off the stream and leaves
  the rest of the buffer as it was.\<close>

theorem recv_blocking_spec:
  assumes "posix_live os incoming sent fails" and "fails s w = 0"
    and "0 < unat len" and "unat len \<le> length buffer" and "length buffer < 2 ^ 31"
  shows "\<exists>w'. RecvBlocking os s buffer len w =
      Some (Inr (if unat len \<le> length (incoming s w) then int (unat len) else 0,
                 take (unat len) (incoming s w) @
                   drop (min (unat len) (length (incoming s w))) buffer, w')) \<and>
    incoming s w' = drop (unat len) (incoming s w)"
  by (rule posix_live.recv_blocking_calm [OF assms])

theorem recv_blocking_spec_witness:
  "\<exists>w'. RecvBlocking sim 5 [0, 0, 0, 0] 3 lines = Some (Inr (3, [71, 69, 84, 0], w')) \<and>
    sim_in 5 w' = [10, 88]"
proof -
  have "sim_fails 5 lines = 0" by (simp add: lines_def sim_fails_def boot_def)
  from recv_blocking_spec [OF sim.posix_live_axioms this, of 3 "[0, 0, 0, 0]"] show ?thesis
    by (simp add: lines_in)
qed

text \<open>A single failing \<open>recv\<close> makes \<open>RecvBlocking\<close> write outside the caller's buffer: the result
  -1 is kept in an unsigned variable, is not recognised as an error, and moves the buffer pointer
  back by one before the next bytes arrive.\<close>

theorem recv_blocking_overruns_after_failure:
  assumes "posix_live os incoming sent fails" and "os_fionread os s w = (r, w0)"
    and "os_recv os s (unat len) WaitAll w0 = (None, w1)"
    and "os_recv os s (unat (len + 1)) WaitAll w1 = (Some bs, w2)" and "bs \<noteq> []" and "len \<noteq> - 1"
  shows "RecvBlocking os s buffer len w = Some (Inl OutOfBounds)"
  by (rule posix_live.recv_blocking_overrun [OF assms])

theorem recv_blocking_overruns_after_failure_witness:
  "RecvBlocking sim 5 [0, 0, 0, 0] 3 (lines\<lparr>k_intr := 1\<rparr>) = Some (Inl OutOfBounds)"
proof -
  obtain r w0 w1 bs w2 where "os_fionread sim 5 (lines\<lparr>k_intr := 1\<rparr>) = (r, w0)"
    "os_recv sim 5 (unat (3 :: u64)) WaitAll w0 = (None, w1)"
    "os_recv sim 5 (unat (3 + 1 :: u64)) WaitAll w1 = (Some bs, w2)" "bs \<noteq> []"
    by (simp add: sim_def sim_recv_def lines_def boot_def)
  then show ?thesis by (rule recv_blocking_overruns_after_failure [OF sim.posix_live_axioms]) simp
qed

section \<open>Sending\<close>

text \<open>\<open>SendBytes\<close> and \<open>SendLine\<close> hand the bytes to the kernel in order but call \<open>send\<close> once: what
  the kernel has accepted afterwards is a prefix of the data. The overload with a result reports
  success also when that prefix is proper, so the data behind it is silently lost.\<close>

theorem send_accepts_a_prefix:
  assumes "posix_live os incoming sent fails" and "SendBytes_checked os s data (int (length data)) w = Inr (ok, w')"
  shows "SendBytes os s data (int (length data)) w = Inr w' \<and>
    (\<exists>n \<le> length data. sent s w' = sent s w @ take n data \<and>
       (\<forall>t. t \<noteq> s \<longrightarrow> sent t w' = sent t w) \<and>
       (\<exists>r. os_send os s data w = (r, w') \<and> n = nat r \<and> (ok \<longleftrightarrow> r \<noteq> SOCKET_ERROR)))"
proof -
  note posix = posix_live.axioms(1) [OF assms(1)]
  obtain r w1 where r: "os_send os s data w = (r, w1)" by fastforce
  then have "w1 = w'" "ok \<longleftrightarrow> r \<noteq> SOCKET_ERROR"
    using assms(2) by (auto simp: SendBytes_checked_def)
  then show ?thesis
    using posix.send_accepts [OF posix r] r
    by (intro conjI exI [of _ "nat r"]) (auto simp: SendBytes_def nat_le_iff)
qed

theorem send_accepts_a_prefix_witness:
  "\<exists>w'. SendBytes_checked sim 5 [1, 2, 3] 3 (boot\<lparr>k_room := 2\<rparr>) = Inr (True, w') \<and>
    sim_out 5 w' = [1, 2]"
proof -
  obtain w' where w: "SendBytes_checked sim 5 [1, 2, 3] (int (length [1, 2, 3 :: u8])) (boot\<lparr>k_room := 2\<rparr>) =
      Inr (True, w')" and r: "os_send sim 5 [1, 2, 3] (boot\<lparr>k_room := 2\<rparr>) = (2, w')"
    by (simp add: SendBytes_checked_def sim_def SOCKET_ERROR_def)
  from send_accepts_a_prefix [OF sim.posix_live_axioms w] r
  have "sim_out 5 w' = sim_out 5 (boot\<lparr>k_room := 2\<rparr>) @ take 2 [1, 2, 3]" by auto
  with w show ?thesis by (intro exI [of _ w']) (simp add: sim_out_def boot_def)
qed

section \<open>Life cycle\<close>


definition one_socket :: "kernel life" where
  "one_socket =
     \<lparr>l_objs = [0 \<mapsto> \<lparr>sock_fd = 5, refCounter = 0\<rparr>],
      l_heap = \<lparr>counters = [0 \<mapsto> 1], next_counter = 1, nofSockets = 1\<rparr>, l_world = boot\<rparr>"

definition two_copies :: "kernel life" where
  "two_copies =
     \<lparr>l_objs = [0 \<mapsto> \<lparr>sock_fd = 5, refCounter = 0\<rparr>, 1 \<mapsto> \<lparr>sock_fd = 5, refCounter = 0\<rparr>],
      l_heap = \<lparr>counters = [0 \<mapsto> 2], next_counter = 1, nofSockets = 2\<rparr>, l_world = boot\<rparr>"

lemma one_socket_run: "life_run sim [Adopt 0 5] (no_sockets boot) one_socket"
proof -
  have "life_step sim (Adopt 0 5) (no_sockets boot)
      \<lparr>l_objs = (l_objs (no_sockets boot))(0 \<mapsto> \<lparr>sock_fd = 5, refCounter = 0\<rparr>),
       l_heap = l_heap one_socket, l_world = l_world (no_sockets boot)\<rparr>"
    by (rule life_step.adopt) (simp_all add: no_sockets_def one_socket_def life_defs)
  then have "life_step sim (Adopt 0 5) (no_sockets boot) one_socket"
    by (simp add: no_sockets_def one_socket_def)
  from life_run.snoc [OF life_run.nil this] show ?thesis by simp
qed

lemma two_copies_run: "life_run sim [Adopt 0 5, Copy 0 1] (no_sockets boot) two_copies"
proof -
  have "life_step sim (Copy 0 1) one_socket
      \<lparr>l_objs = (l_objs one_socket)(1 \<mapsto> \<lparr>sock_fd = 5, refCounter = 0\<rparr>),
       l_heap = l_heap two_copies, l_world = l_world one_socket\<rparr>"
    by (rule life_step.copy [where x = "\<lparr>sock_fd = 5, refCounter = 0\<rparr>"])
      (simp_all add: one_socket_def two_copies_def Socket_copy_def)
  then have "life_step sim (Copy 0 1) one_socket two_copies"
    by (simp add: one_socket_def two_copies_def)
  from life_run.snoc [OF one_socket_run this] show ?thesis by simp
qed


text \<open>As long as no socket is assigned to, the descriptor that a group of copies shares is closed
  exactly when the last of them is destroyed: destroying the only remaining copy closes it and frees
  the counter, destroying any other leaves the system untouched and the counter in place.\<close>

theorem last_copy_closes:
  assumes "life_run os ops (no_sockets w) s" and "\<forall>op\<in>set ops. \<not> is_assign op"
    and "l_objs s i = Some x"
  shows "\<exists>h. Socket_dtor os x (l_heap s) (l_world s) =
    Inr (h, if sharing (l_objs s) (refCounter x) = {i} then Close os (sock_fd x) (l_world s) else l_world s) \<and>
    (counters h (refCounter x) = None \<longleftrightarrow> sharing (l_objs s) (refCounter x) = {i})"
proof -
  let ?S = "sharing (l_objs s) (refCounter x)"
  have inv: "life_inv s" "exact s"
    using life_run_inv [OF assms(1) no_sockets_inv(1)]
      exact_run [OF assms(1) no_sockets_inv assms(2)] by simp_all
  have i: "i \<in> ?S" using assms(3) by (auto simp: sharing_def)
  then have c: "counters (l_heap s) (refCounter x) = Some (int (card ?S))"
    using inv(2) by (auto simp: exact_def)
  have "finite ?S" using finite_subset [OF sharing_dom life_inv_finite [OF inv(1)]] .
  then have "card ?S = 1 \<longleftrightarrow> ?S = {i}" using i by (auto simp: card_1_singleton_iff)
  with c show ?thesis by (auto simp: Socket_dtor_def Let_def)
qed

theorem last_copy_closes_witness:
  "(\<exists>h. Socket_dtor sim \<lparr>sock_fd = 5, refCounter = 0\<rparr> (l_heap two_copies) boot = Inr (h, boot)) \<and>
   (\<exists>h. Socket_dtor sim \<lparr>sock_fd = 5, refCounter = 0\<rparr> (l_heap one_socket) boot = Inr (h, Close sim 5 boot))"
proof -
  let ?x = "\<lparr>sock_fd = 5, refCounter = 0\<rparr> :: Socket"
  have "1 \<in> sharing (l_objs two_copies) (refCounter ?x)"
    by (simp add: sharing_def two_copies_def)
  then have two: "sharing (l_objs two_copies) (refCounter ?x) \<noteq> {0}" "l_world two_copies = boot"
    "l_objs two_copies 0 = Some ?x" "\<forall>op\<in>set [Adopt 0 5, Copy 0 1]. \<not> is_assign op"
    by (auto simp: two_copies_def)
  have "sharing Map.empty p = {}" for p by (simp add: sharing_def)
  then have one: "sharing (l_objs one_socket) (refCounter ?x) = {0}" "l_world one_socket = boot"
    "l_objs one_socket 0 = Some ?x" "\<forall>op\<in>set [Adopt 0 5]. \<not> is_assign op"
    by (simp_all add: one_socket_def sharing_upd)
  show ?thesis
    using last_copy_closes [OF two_copies_run two(4,3)] last_copy_closes [OF one_socket_run one(4,3)]
    unfolding two(2) one(2) if_not_P [OF two(1)] if_P [OF one(1)] by (auto simp: one_socket_def)
qed

text \<open>Assigning to a socket leaks what it referred to. From then on, in every run, the counter
  that the target had stays allocated, and destroying an object that uses it never closes the
  descriptor.\<close>

theorem assignment_leaks_descriptor:
  assumes "life_run os ops (no_sockets w) s" and "life_step os (Assign i j) s t"
    and "l_objs s j = Some y" and "life_run os later t u"
  shows "counters (l_heap u) (refCounter y) \<noteq> None \<and>
    (\<forall>k x h w'. l_objs u k = Some x \<and> refCounter x = refCounter y \<and>
       Socket_dtor os x (l_heap u) (l_world u) = Inr (h, w') \<longrightarrow> w' = l_world u)"
proof -
  have s: "life_inv s" using life_run_inv [OF assms(1) no_sockets_inv(1)] .
  have "leaked (refCounter y) u"
    using leaked_run [OF assms(4) life_step_inv [OF assms(2) s] assign_leaks [OF s assms(2,3)]] .
  then obtain c where c: "counters (l_heap u) (refCounter y) = Some c"
    "int (card (sharing (l_objs u) (refCounter y))) < c" by (auto simp: leaked_def)
  have "finite (sharing (l_objs u) (refCounter y))"
    using finite_subset [OF sharing_dom life_inv_finite]
      life_run_inv [OF assms(4) life_step_inv [OF assms(2) s]] by blast
  then have "c \<noteq> 1" if "l_objs u k = Some x" "refCounter x = refCounter y" for k x
    using that c(2) card_gt_0_iff [of "sharing (l_objs u) (refCounter y)"] by (auto simp: sharing_def)
  with c(1) show ?thesis by (fastforce simp: Socket_dtor_def Let_def)
qed

definition after_self_assign :: "kernel life" where
  "after_self_assign = one_socket\<lparr>l_heap := \<lparr>counters = [0 \<mapsto> 2], next_counter = 1, nofSockets = 2\<rparr>\<rparr>"

lemma self_assign_step: "life_step sim (Assign 0 0) one_socket after_self_assign"
proof -
  have "life_step sim (Assign 0 0) one_socket
      \<lparr>l_objs = (l_objs one_socket)(0 \<mapsto> \<lparr>sock_fd = 5, refCounter = 0\<rparr>),
       l_heap = l_heap after_self_assign, l_world = l_world one_socket\<rparr>"
    by (rule life_step.assign [where x = "\<lparr>sock_fd = 5, refCounter = 0\<rparr>" and y = "\<lparr>sock_fd = 5, refCounter = 0\<rparr>"])
      (simp_all add: one_socket_def after_self_assign_def Socket_assign_def)
  then show ?thesis by (simp add: one_socket_def after_self_assign_def)
qed

theorem assignment_leaks_descriptor_witness:
  "counters (l_heap after_self_assign) 0 \<noteq> None \<and>
   (\<exists>h. Socket_dtor sim \<lparr>sock_fd = 5, refCounter = 0\<rparr> (l_heap after_self_assign) boot = Inr (h, boot))"
proof -
  have y: "l_objs one_socket 0 = Some \<lparr>sock_fd = 5, refCounter = 0\<rparr>" by (simp add: one_socket_def)
  obtain h w' where d: "Socket_dtor sim \<lparr>sock_fd = 5, refCounter = 0\<rparr> (l_heap after_self_assign) boot = Inr (h, w')"
    by (simp add: Socket_dtor_def after_self_assign_def one_socket_def)
  have "l_objs after_self_assign 0 = Some \<lparr>sock_fd = 5, refCounter = 0\<rparr>" "l_world after_self_assign = boot"
    by (simp_all add: after_self_assign_def one_socket_def)
  with d assignment_leaks_descriptor [OF one_socket_run self_assign_step y life_run.nil]
  show ?thesis by fastforce
qed

text \<open>The class-wide count of sockets is the number of live objects plus one for every assignment
  and for every construction that threw, so after either it never comes back to zero.\<close>

theorem socket_count:
  assumes "life_run os ops (no_sockets w) s"
  shows "nofSockets (l_heap s) = int (card (dom (l_objs s))) + int (length (filter miscounted ops))"
  using count_run [OF assms no_sockets_inv(1)] by (simp add: no_sockets_def)

theorem socket_count_witness: "nofSockets (l_heap two_copies) = 2"
  using socket_count [OF two_copies_run] by (simp add: two_copies_def)

end
