(* ===== verification/Client.thy ===== *)
theory Client
  imports Socket_Life
begin

text \<open>
  \<open>CClientSocket\<close> (\<open>socket/CClientSocket.cpp\<close>): resolving the server's name, connecting, reconnecting
  and the object's construction and destruction on top of \<open>Socket\<close>. \<open>NetworkUtils::create_hostent\<close>
  is not part of the repository; it is the parameter \<open>create_hostent\<close>.
\<close>

type_synonym 'w resolver = "string \<Rightarrow> 'w \<Rightarrow> hostent option outcome \<times> 'w"

record CClientSocket = Socket +
  m_ServerPort :: int
  m_ServerName :: string
  m_HostPointer :: "hostent option"

definition SERVER_NAME_SIZE :: nat where "SERVER_NAME_SIZE = 255"

section \<open>Resolving and connecting\<close>

text \<open>\<open>host[0]\<close> of the empty string is the NUL character.\<close>

fun first_char :: "string \<Rightarrow> char" where
  "first_char [] = CHR 0x00"
| "first_char (c # cs) = c"

definition isalpha :: "char \<Rightarrow> bool" where
  "isalpha c \<longleftrightarrow> (65 \<le> (of_char c :: nat) \<and> (of_char c :: nat) \<le> 90) \<or>
                 (97 \<le> (of_char c :: nat) \<and> (of_char c :: nat) \<le> 122)"

text \<open>
  \<open>Resolve\<close> leaves the result in \<open>m_HostPointer\<close>. In the branch for names the text of the exception
  is that of \<open>errno\<close>; in the branch for addresses the rethrown exception has an empty text.
\<close>

definition Resolve ::
    "'w os \<Rightarrow> 'w resolver \<Rightarrow> string \<Rightarrow> CClientSocket \<Rightarrow> 'w \<Rightarrow> bool outcome \<times> CClientSocket \<times> 'w" where
  "Resolve os create_hostent host this w =
     (if isalpha (first_char host) then
        let (hp, w) = os_gethostbyname os host w; this = this\<lparr>m_HostPointer := hp\<rparr>
        in if hp = None then (Throw (os_strerror os (os_errno os w)), this, w)
           else (Ret True, this, w)
      else
        let (r, w) = create_hostent host w
        in case r of Throw e \<Rightarrow> (Throw [], this, w)
           | Ret hp \<Rightarrow> (Ret True, this\<lparr>m_HostPointer := hp\<rparr>, w))"

definition c_free :: "hostent \<Rightarrow> fault + unit" where
  "c_free hp = (if h_storage hp = HeapStorage then Inr () else Inl InvalidFree)"

text \<open>
  \<open>Connect\<close> dereferences the first address twice, once for the log if there is a name, once for the
  socket address, and frees the \<open>hostent\<close> only when the connection was made.
\<close>

definition Connect ::
    "'w os \<Rightarrow> 'w resolver \<Rightarrow> CClientSocket \<Rightarrow> 'w \<Rightarrow>
     fault + (unit outcome \<times> CClientSocket \<times> 'w)" where
  "Connect os create_hostent this w =
     (case Resolve os create_hostent (m_ServerName this) this w of (r, this, w) \<Rightarrow>
       case r of Throw e \<Rightarrow> Inr (Throw e, this, w)
       | Ret _ \<Rightarrow>
         (case m_HostPointer this of None \<Rightarrow> Inl NullDeref
          | Some hp \<Rightarrow>
            (case h_addr hp of None \<Rightarrow> Inl NullDeref
             | Some a \<Rightarrow>
               let addr = \<lparr>sin_port = word_of_int (m_ServerPort this), sin_addr = a\<rparr>;
                   (r, w) = os_connect os (sock_fd this) addr w
               in if r \<noteq> 0 then Inr (Throw (os_strerror os (os_errno os w)), this, w)
                  else fbind (c_free hp) (\<lambda>_. Inr (Ret (), this, w)))))"

definition Reconnect ::
    "'w os \<Rightarrow> 'w resolver \<Rightarrow> CClientSocket \<Rightarrow> 'w \<Rightarrow>
     fault + (unit outcome \<times> CClientSocket \<times> 'w)" where
  "Reconnect os create_hostent this w =
     (let w = Close os (sock_fd this) w; (r, s, w) = CreateSocket os w; this = this\<lparr>sock_fd := s\<rparr>
      in case r of Throw e \<Rightarrow> Inr (Throw e, this, w) | Ret _ \<Rightarrow> Connect os create_hostent this w)"

section \<open>Construction and destruction\<close>

text \<open>The destructor closes the descriptor, then \<open>~Socket\<close> runs.\<close>

definition Client_dtor :: "'w os \<Rightarrow> CClientSocket \<Rightarrow> heap \<Rightarrow> 'w \<Rightarrow> fault + (heap \<times> 'w)" where
  "Client_dtor os this h w = Socket_dtor os (Socket.truncate this) h (Close os (sock_fd this) w)"

text \<open>
  The constructor: the base class, the name, the connection. An exception of \<open>Connect\<close> leaves it
  after the base class was constructed, so \<open>~Socket\<close> runs, and \<open>~CClientSocket\<close> does not. The
  pointer \<open>m_HostPointer\<close> starts undefined, and \<open>Resolve\<close> sets it before it is read.
\<close>

definition Client_new ::
    "'w os \<Rightarrow> 'w resolver \<Rightarrow> string \<Rightarrow> int \<Rightarrow> heap \<Rightarrow> 'w \<Rightarrow>
     fault + (CClientSocket outcome \<times> heap \<times> 'w)" where
  "Client_new os create_hostent server_name client_port h w =
     (case Socket_new os h w of (r, h, w) \<Rightarrow>
        case r of Throw e \<Rightarrow> Inr (Throw e, h, w)
        | Ret base \<Rightarrow>
            fbind (strcpy SERVER_NAME_SIZE server_name) (\<lambda>name.
            fbind (Connect os create_hostent
                     (Socket.extend base
                        (CClientSocket.fields client_port name None)) w) (\<lambda>(r, this, w).
              case r of Ret _ \<Rightarrow> Inr (Ret this, h, w)
              | Throw e \<Rightarrow>
                  fbind (Socket_dtor os (Socket.truncate this) h w) (\<lambda>(h, w). Inr (Throw e, h, w)))))"

section \<open>Descriptors\<close>

text \<open>The library's resolver opens and closes no descriptor either.\<close>

locale client_env = fd_table +
  fixes create_hostent :: "'a resolver"
  assumes resolver_keeps: "create_hostent n w = (r, w') \<Longrightarrow> opened w' = opened w"
begin

lemma resolve_keeps:
  assumes "Resolve os create_hostent host this w = (r, this', w')"
  shows "opened w' = opened w \<and> Socket.truncate this' = Socket.truncate this \<and> sock_fd this' = sock_fd this"
proof (cases "isalpha (first_char host)")
  case True
  obtain hp w1 where "os_gethostbyname os host w = (hp, w1)" by fastforce
  with lookup_keeps [OF this] True assms show ?thesis
    by (auto simp: Resolve_def Socket.truncate_def Let_def split: if_splits)
next
  case False
  obtain q w1 where "create_hostent host w = (q, w1)" by fastforce
  with resolver_keeps [OF this] False assms show ?thesis
    by (cases q) (auto simp: Resolve_def Socket.truncate_def)
qed

lemma connect_keeps_open:
  assumes "Connect os create_hostent this w = Inr (r, this', w')"
  shows "opened w' = opened w \<and> Socket.truncate this' = Socket.truncate this \<and> sock_fd this' = sock_fd this"
proof -
  obtain q this1 w1 where g: "Resolve os create_hostent (m_ServerName this) this w = (q, this1, w1)"
    by (metis prod_cases3)
  show ?thesis
    using assms resolve_keeps [OF g] connect_keeps
    by (auto simp: Connect_def g Let_def fbind_eq_Inr_iff
        split: outcome.splits option.splits prod.splits if_splits)
qed

text \<open>After \<open>Reconnect\<close>, whatever its outcome, the object owns at most the one new descriptor.\<close>

lemma reconnect_owns:
  assumes "Reconnect os create_hostent this w = Inr (r, this', w')"
  shows "sock_fd this' = - 1 \<and> r \<noteq> Ret () \<and> opened w' = opened w - {sock_fd this} \<or>
    0 \<le> sock_fd this' \<and> sock_fd this' \<notin> opened w - {sock_fd this} \<and>
    opened w' = insert (sock_fd this') (opened w - {sock_fd this})"
proof -
  obtain s w1 where s: "os_socket os (Close os (sock_fd this) w) = (s, w1)" by fastforce
  obtain x w0 where x: "os_close os (sock_fd this) w = (x, w0)" by fastforce
  have w0: "opened w0 = opened w - {sock_fd this}" "Close os (sock_fd this) w = w0"
    using close_closes [OF x] x by (simp_all add: Close_def)
  show ?thesis
  proof (cases "s = - 1")
    case True
    then have "r \<noteq> Ret ()" "sock_fd this' = - 1" "w' = w1"
      using assms by (auto simp: Reconnect_def CreateSocket_def INVALID_SOCKET_def s)
    moreover have "opened w1 = opened w0"
      using socket_opens [of w0 s w1] s True by (simp add: w0(2))
    ultimately show ?thesis using w0(1) by simp
  next
    case False
    then have "Connect os create_hostent (this\<lparr>sock_fd := s\<rparr>) w1 = Inr (r, this', w')"
      using assms s by (simp add: Reconnect_def CreateSocket_def INVALID_SOCKET_def Let_def)
    from connect_keeps_open [OF this] show ?thesis
      using False s [unfolded w0(2)] w0(1) socket_opens [of w0 s w1] by simp
  qed
qed

lemma dtor_opened: "Client_dtor os this h w = Inr (h', w') \<Longrightarrow> opened w' = opened w - {sock_fd this}"
  by (auto simp: Client_dtor_def Socket_dtor_def Socket.truncate_def Let_def close_opened
      split: option.splits if_splits)

lemma new_client:
  assumes "Client_new os create_hostent name port h w = Inr (r, h', w')"
  shows "case r of
      Ret c \<Rightarrow> 0 \<le> sock_fd c \<and> sock_fd c \<notin> opened w \<and> opened w' = insert (sock_fd c) (opened w) \<and>
        refCounter c = next_counter h \<and> counters h' = (counters h)(next_counter h \<mapsto> 1)
    | Throw e \<Rightarrow> opened w' = opened w \<and>
        (counters h (next_counter h) = None \<longrightarrow> counters h' = counters h)"
proof -
  obtain s w1 where s: "os_socket os w = (s, w1)" by fastforce
  show ?thesis
  proof (cases "s = - 1")
    case True
    then show ?thesis
      using assms s socket_opens [OF s]
      by (auto simp: Client_new_def Socket_new_def CreateSocket_def INVALID_SOCKET_def Start_def Let_def)
  next
    case False
    note o = socket_opens [OF s]
    let ?base = "\<lparr>sock_fd = s, refCounter = next_counter h\<rparr> :: Socket"
    let ?h = "h\<lparr>nofSockets := nofSockets h + 1, counters := (counters h)(next_counter h \<mapsto> 1),
      next_counter := Suc (next_counter h)\<rparr>"
    have b: "Socket_new os h w = (Ret ?base, ?h, w1)"
      using False s by (simp add: Socket_new_def CreateSocket_def INVALID_SOCKET_def Start_def new_counter_def Let_def)
    obtain n q this w2 where q: "Connect os create_hostent
        (Socket.extend ?base (CClientSocket.fields port n None)) w1 = Inr (q, this, w2)"
      and fin: "(case q of Ret _ \<Rightarrow> Inr (Ret this, ?h, w2) | Throw e \<Rightarrow>
         fbind (Socket_dtor os (Socket.truncate this) ?h w2) (\<lambda>(h, w). Inr (Throw e, h, w))) = Inr (r, h', w')"
      using assms b by (auto simp: Client_new_def fbind_eq_Inr_iff)
    note k = connect_keeps_open [OF q]
    have t: "Socket.truncate this = ?base"
      using k by (simp add: Socket.truncate_def Socket.extend_def)
    note c = close_opened [of s]
    show ?thesis
    proof (cases q)
      case (Ret u)
      have "refCounter this = next_counter h" using t by (simp add: Socket.truncate_def)
      then show ?thesis
        using fin Ret k o False by (auto simp: Socket.extend_def)
    next
      case (Throw e)
      have "counters h (next_counter h) = None \<Longrightarrow> (counters h)(next_counter h := None) = counters h"
        by (simp add: fun_upd_idem)
      then show ?thesis
        using Throw fin t k o False c by (auto simp: Socket_dtor_def Let_def)
    qed
  qed
qed

end

definition sim_hostent :: "kernel resolver" where
  "sim_hostent n w =
     (Ret (Some \<lparr>h_name = None, h_addr = Some 0x0A000001, h_storage = HeapStorage\<rparr>), w)"

interpretation sim: client_env sim k_open sim_hostent
  by unfold_locales (simp add: sim_hostent_def)

end
