(* ===== verification/Tcp_Connection.thy ===== *)
theory Tcp_Connection
  imports Pool Client
begin

text \<open>
  \<open>TcpConnection\<close> (\<open>connection_pool/TcpConnection.h\<close>), the pooled connection that owns a
  \<open>CClientSocket\<close>, and its factory. It implements the interface \<open>cpool::Connection\<close> of the pool, so
  its operations are a \<open>Connection\<close> record; the outside world is the heap of socket counters beside
  the operating system.
\<close>

record TcpConnection =
  connection_id :: int
  client_socket :: "CClientSocket option"
  connected :: bool

section \<open>The operations\<close>

definition Tcp_connect ::
    "'w os \<Rightarrow> 'w resolver \<Rightarrow> (TcpConnection, heap \<times> 'w, bool) vmethod" where
  "Tcp_connect os create_hostent c = (\<lambda>(h, w).
     case client_socket c of None \<Rightarrow> Inl NullDeref
     | Some cs \<Rightarrow>
         fbind (Reconnect os create_hostent cs w) (\<lambda>(r, cs, w).
           let c = c\<lparr>client_socket := Some cs\<rparr>
           in case r of Throw e \<Rightarrow> Inr (Throw e, c, (h, w))
              | Ret _ \<Rightarrow> Inr (Ret True, c\<lparr>connected := True\<rparr>, (h, w))))"

text \<open>\<open>disconnect\<close> closes the socket and then deletes it, which closes it again.\<close>

definition Tcp_disconnect :: "'w os \<Rightarrow> (TcpConnection, heap \<times> 'w, unit) vmethod" where
  "Tcp_disconnect os c = (\<lambda>(h, w).
     fbind (case client_socket c of None \<Rightarrow> Inr (h, w)
            | Some cs \<Rightarrow> Client_dtor os cs h (Close os (sock_fd cs) w)) (\<lambda>(h, w).
       Inr (Ret (), c\<lparr>client_socket := None, connected := False\<rparr>, (h, w))))"

definition Tcp :: "'w os \<Rightarrow> 'w resolver \<Rightarrow> (TcpConnection, heap \<times> 'w) Connection" where
  "Tcp os create_hostent =
     \<lparr>heart_beat = (\<lambda>c w. Inr (Ret (connected c), c, w)),
      is_healthy = (\<lambda>c w. Inr (Ret False, c, w)),
      connect = Tcp_connect os create_hostent,
      disconnect = Tcp_disconnect os\<rparr>"

definition Tcp_new ::
    "'w os \<Rightarrow> 'w resolver \<Rightarrow> int \<Rightarrow> string \<Rightarrow> int \<Rightarrow> heap \<Rightarrow> 'w \<Rightarrow>
     fault + (TcpConnection outcome \<times> heap \<times> 'w)" where
  "Tcp_new os create_hostent k server_name server_port h w =
     fbind (Client_new os create_hostent server_name server_port h w) (\<lambda>(r, h, w).
       case r of Throw e \<Rightarrow> Inr (Throw e, h, w)
       | Ret cs \<Rightarrow>
           Inr (Ret \<lparr>connection_id = k, client_socket = Some cs, connected = False\<rparr>, h, w))"

text \<open>The destructor is \<open>disconnect\<close>.\<close>

definition Tcp_dtor :: "'w os \<Rightarrow> TcpConnection \<Rightarrow> heap \<Rightarrow> 'w \<Rightarrow> fault + (heap \<times> 'w)" where
  "Tcp_dtor os c h w = fbind (Tcp_disconnect os c (h, w)) (\<lambda>(_, _, hw). Inr hw)"

section \<open>The factory\<close>

text \<open>
  \<open>create\<close> constructs the connections one after another. If a constructor throws, the vector of
  those already built is destroyed. \<open>alloc k\<close> is the address of the \<open>k\<close>-th connection.
\<close>

fun destroy_all ::
    "'w os \<Rightarrow> (ptr \<times> TcpConnection) list \<Rightarrow> heap \<Rightarrow> 'w \<Rightarrow> fault + (heap \<times> 'w)" where
  "destroy_all os [] h w = Inr (h, w)"
| "destroy_all os ((a, c) # cs) h w =
     fbind (Tcp_dtor os c h w) (\<lambda>(h, w). destroy_all os cs h w)"

fun create_loop ::
    "'w os \<Rightarrow> 'w resolver \<Rightarrow> string \<Rightarrow> int \<Rightarrow> (nat \<Rightarrow> ptr) \<Rightarrow> nat list \<Rightarrow>
     (ptr \<times> TcpConnection) list \<Rightarrow> heap \<Rightarrow> 'w \<Rightarrow>
     fault + ((ptr \<times> TcpConnection) list outcome \<times> heap \<times> 'w)" where
  "create_loop os ch name port alloc [] connections h w = Inr (Ret connections, h, w)"
| "create_loop os ch name port alloc (k # ks) connections h w =
     fbind (Tcp_new os ch (int k) name port h w) (\<lambda>(r, h, w).
       case r of
         Ret c \<Rightarrow> create_loop os ch name port alloc ks (connections @ [(alloc k, c)]) h w
       | Throw e \<Rightarrow> fbind (destroy_all os connections h w) (\<lambda>(h, w). Inr (Throw e, h, w)))"

definition create_tcp_pool ::
    "'w os \<Rightarrow> 'w resolver \<Rightarrow> u16 \<Rightarrow> string \<Rightarrow> int \<Rightarrow> (nat \<Rightarrow> ptr) \<Rightarrow> heap \<Rightarrow> 'w \<Rightarrow>
     fault + (TcpConnection pool outcome \<times> heap \<times> 'w)" where
  "create_tcp_pool os ch num_connections name port alloc h w =
     fbind (create_loop os ch name port alloc [0..<unat num_connections] [] h w) (\<lambda>(r, h, w).
       case r of Throw e \<Rightarrow> Inr (Throw e, h, w) | Ret cs \<Rightarrow> Inr (Ret (new_pool cs), h, w))"

section \<open>A pool of such connections\<close>

text \<open>
  \<open>numeric c\<close>: the connection has its socket, and its server is given by address, so that connecting
  uses \<open>create_hostent\<close>. Provided that this returns a usable heap-allocated entry whenever it
  returns, the check that precedes lending never refuses such a connection.
\<close>

definition numeric :: "TcpConnection \<Rightarrow> bool" where
  "numeric c \<longleftrightarrow> (case client_socket c of None \<Rightarrow> False
     | Some cs \<Rightarrow> \<not> isalpha (first_char (m_ServerName cs)))"

locale tcp_env =
  fixes os :: "'w os" and create_hostent :: "'w resolver"
  assumes usable: "create_hostent n w = (Ret hp, w') \<Longrightarrow>
    \<exists>x a. hp = Some x \<and> h_addr x = Some a \<and> h_storage x = HeapStorage"
begin

lemma connect_numeric:
  assumes "\<not> isalpha (first_char (m_ServerName this))"
  shows "\<exists>r this' w'. Connect os create_hostent this w = Inr (r, this', w') \<and>
    m_ServerName this' = m_ServerName this"
proof -
  obtain q w1 where q: "create_hostent (m_ServerName this) w = (q, w1)" by fastforce
  show ?thesis
  proof (cases q)
    case (Ret hp)
    from usable [OF q [unfolded Ret]] obtain x a where
      "hp = Some x" "h_addr x = Some a" "h_storage x = HeapStorage" by blast
    then show ?thesis
      using assms q Ret
      by (auto simp: Connect_def Resolve_def c_free_def split: prod.splits)
  next
    case (Throw e)
    then show ?thesis using assms q by (simp add: Connect_def Resolve_def)
  qed
qed

lemma reconnect_numeric:
  assumes "\<not> isalpha (first_char (m_ServerName this))"
  shows "\<exists>r this' w'. Reconnect os create_hostent this w = Inr (r, this', w') \<and>
    m_ServerName this' = m_ServerName this"
proof -
  obtain r s w1 where c: "CreateSocket os (Close os (sock_fd this) w) = (r, s, w1)"
    by (metis prod_cases3)
  show ?thesis
    using connect_numeric [of "this\<lparr>sock_fd := s\<rparr>" w1] assms c
    by (cases r) (auto simp: Reconnect_def)
qed

lemma check_numeric:
  assumes "client_socket c = Some cs" and "\<not> isalpha (first_char (m_ServerName cs))"
  shows "\<exists>r cs' w'. Reconnect os create_hostent cs w = Inr (r, cs', w') \<and>
    m_ServerName cs' = m_ServerName cs \<and>
    check_connect (Tcp os create_hostent) c (h, w) =
      Inr (True, c\<lparr>client_socket := Some cs', connected := (r = Ret () \<or> connected c)\<rparr>, (h, w'))"
proof -
  obtain r cs' w' where r: "Reconnect os create_hostent cs w = Inr (r, cs', w')"
    "m_ServerName cs' = m_ServerName cs"
    using reconnect_numeric [OF assms(2)] by blast
  then show ?thesis
    using assms(1) by (cases r) (simp_all add: check_connect_def Tcp_def Tcp_connect_def)
qed

end

sublocale tcp_env \<subseteq> tcp: accepting "Tcp os create_hostent" numeric
proof
  fix c w assume "numeric c"
  then obtain cs where "client_socket c = Some cs" "\<not> isalpha (first_char (m_ServerName cs))"
    by (auto simp: numeric_def split: option.splits)
  then show "\<exists>c' w'. check_connect (Tcp os create_hostent) c w = Inr (True, c', w') \<and> numeric c'"
    using check_numeric [of c cs "snd w" "fst w"] by (auto simp: numeric_def)
qed

interpretation sim: tcp_env sim sim_hostent
  by unfold_locales (simp add: sim_hostent_def)

section \<open>Descriptors held by connections\<close>

definition fds :: "(ptr \<times> TcpConnection) list \<Rightarrow> int set" where
  "fds cs = {s. \<exists>(a, c) \<in> set cs. \<exists>x. client_socket c = Some x \<and> s = sock_fd x}"

lemma fds_simps [simp]:
  "fds [] = {}"
  "fds (xs @ ys) = fds xs \<union> fds ys"
  "fds ((a, c) # cs) = (case client_socket c of None \<Rightarrow> {} | Some x \<Rightarrow> {sock_fd x}) \<union> fds cs"
  by (auto simp: fds_def split: option.splits)

context client_env begin

lemma tcp_dtor_opened:
  "Tcp_dtor os c h w = Inr (h', w') \<Longrightarrow>
   opened w' = opened w - (case client_socket c of None \<Rightarrow> {} | Some x \<Rightarrow> {sock_fd x})"
proof (cases "client_socket c")
  case (Some x)
  assume "Tcp_dtor os c h w = Inr (h', w')"
  with Some have "Client_dtor os x h (Close os (sock_fd x) w) = Inr (h', w')"
    by (auto simp: Tcp_dtor_def Tcp_disconnect_def fbind_eq_Inr_iff)
  from dtor_opened [OF this] show ?thesis by (simp add: close_opened Some)
qed (simp add: Tcp_dtor_def Tcp_disconnect_def)

lemma destroy_all_opened:
  "destroy_all os cs h w = Inr (h', w') \<Longrightarrow> opened w' = opened w - fds cs"
proof (induction cs arbitrary: h w)
  case (Cons p cs)
  obtain a c where p: "p = (a, c)" by fastforce
  obtain h1 w1 where d: "Tcp_dtor os c h w = Inr (h1, w1)" "destroy_all os cs h1 w1 = Inr (h', w')"
    using Cons.prems p by (auto simp: fbind_eq_Inr_iff)
  show ?case using Cons.IH [OF d(2)] tcp_dtor_opened [OF d(1)] p by auto
qed simp

lemma tcp_new_opened:
  assumes "Tcp_new os create_hostent k name port h w = Inr (r, h', w')"
  shows "case r of
      Ret c \<Rightarrow> \<exists>x. client_socket c = Some x \<and> sock_fd x \<notin> opened w \<and> 0 \<le> sock_fd x \<and>
        opened w' = insert (sock_fd x) (opened w)
    | Throw e \<Rightarrow> opened w' = opened w"
proof -
  obtain q h1 w1 where q: "Client_new os create_hostent name port h w = Inr (q, h1, w1)"
    using assms by (auto simp: Tcp_new_def fbind_eq_Inr_iff)
  with assms new_client [OF q] show ?thesis by (cases q) (auto simp: Tcp_new_def)
qed

text \<open>A factory that throws has closed what it had opened; one that returns has opened one
  descriptor for each connection.\<close>

lemma create_loop_opened:
  assumes "create_loop os create_hostent name port alloc ks cs h w = Inr (r, h', w')"
    and "fds cs \<inter> base = {}" and "opened w = base \<union> fds cs"
    and "finite (fds cs)" and "card (fds cs) = length cs"
  shows "case r of
      Ret cs' \<Rightarrow> fds cs' \<inter> base = {} \<and> opened w' = base \<union> fds cs' \<and>
        card (fds cs') = length cs' \<and> map fst cs' = map fst cs @ map alloc ks
    | Throw e \<Rightarrow> opened w' = base"
  using assms
proof (induction ks arbitrary: cs h w)
  case (Cons k ks)
  obtain q h1 w1 where q: "Tcp_new os create_hostent (int k) name port h w = Inr (q, h1, w1)"
    and fin: "(case q of Ret c \<Rightarrow> create_loop os create_hostent name port alloc ks (cs @ [(alloc k, c)]) h1 w1
       | Throw e \<Rightarrow> fbind (destroy_all os cs h1 w1) (\<lambda>(h, w). Inr (Throw e, h, w))) = Inr (r, h', w')"
    using Cons.prems(1) by (auto simp: fbind_eq_Inr_iff)
  show ?case
  proof (cases q)
    case (Ret c)
    then show ?thesis
      using fin tcp_new_opened [OF q] Cons.prems(2-)
        Cons.IH [of "cs @ [(alloc k, c)]" h1 w1]
      by (auto split: outcome.splits)
  next
    case (Throw e)
    then show ?thesis
      using fin tcp_new_opened [OF q] Cons.prems(2-)
      by (auto simp: fbind_eq_Inr_iff dest!: destroy_all_opened)
  qed
qed auto

end

end
