(* ===== verification/Client_Theorems.thy ===== *)
theory Client_Theorems
  imports Tcp_Connection Pool_Run
begin

text \<open>
  The properties of the client socket and of the pooled TCP connection: which descriptors they open
  and close, that connecting by host name ends in an invalid \<open>free\<close>, and what a pool of such
  connections lends. \<open>client_env\<close> and \<open>tcp_env\<close> are the contracts of the descriptor table and of
  the resolver.
\<close>

section \<open>Connecting\<close>

text \<open>Connecting to a server that is given by name never succeeds. \<open>gethostbyname\<close> returns static
  storage, and \<open>Connect\<close> passes it to \<open>free\<close> exactly when the connection was made; so the outcome
  is an exception or undefined behaviour, and the latter whenever the server accepts.\<close>

theorem connecting_by_name_never_succeeds:
  assumes "\<And>n v hp v'. os_gethostbyname os n v = (Some hp, v') \<Longrightarrow> h_storage hp = StaticStorage"
    and "isalpha (first_char (m_ServerName this))"
  shows "Connect os create_hostent this w \<noteq> Inr (Ret (), this', w') \<and>
    (os_gethostbyname os (m_ServerName this) w = (Some hp, w1) \<and> h_addr hp = Some a \<and>
     os_connect os (sock_fd this) \<lparr>sin_port = word_of_int (m_ServerPort this), sin_addr = a\<rparr> w1 = (0, w2) \<longrightarrow>
      Connect os create_hostent this w = Inl InvalidFree)"
proof
  obtain found v where g: "os_gethostbyname os (m_ServerName this) w = (found, v)" by fastforce
  show "Connect os create_hostent this w \<noteq> Inr (Ret (), this', w')"
  proof (cases found)
    case (Some x)
    with g assms(1) [of "m_ServerName this" w x v] assms(2) show ?thesis
      by (auto simp: Connect_def Resolve_def c_free_def Let_def split: option.splits prod.splits)
  qed (use g assms(2) in \<open>simp add: Connect_def Resolve_def\<close>)
next
  show "os_gethostbyname os (m_ServerName this) w = (Some hp, w1) \<and> h_addr hp = Some a \<and>
     os_connect os (sock_fd this) \<lparr>sin_port = word_of_int (m_ServerPort this), sin_addr = a\<rparr> w1 = (0, w2) \<longrightarrow>
      Connect os create_hostent this w = Inl InvalidFree"
    using assms(1) [of "m_ServerName this" w hp w1] assms(2)
    by (auto simp: Connect_def Resolve_def c_free_def)
qed

definition named_client :: CClientSocket where
  "named_client = \<lparr>sock_fd = 3, refCounter = 0, m_ServerPort = 9000,
     m_ServerName = ''localhost'', m_HostPointer = None\<rparr>"

theorem connecting_by_name_never_succeeds_witness:
  "Connect sim sim_hostent named_client boot = Inl InvalidFree"
proof -
  have static: "\<And>n v hp v'. os_gethostbyname sim n v = (Some hp, v') \<Longrightarrow> h_storage hp = StaticStorage"
    by (auto simp: sim_def)
  have alpha: "isalpha (first_char (m_ServerName named_client))"
    by (simp add: named_client_def isalpha_def)
  obtain hp w1 a w2 where "os_gethostbyname sim (m_ServerName named_client) boot = (Some hp, w1)"
    "h_addr hp = Some a"
    "os_connect sim (sock_fd named_client)
       \<lparr>sin_port = word_of_int (m_ServerPort named_client), sin_addr = a\<rparr> w1 = (0, w2)"
    by (simp add: sim_def)
  with connecting_by_name_never_succeeds [of sim named_client sim_hostent boot _ _ hp w1 a w2] static alpha
  show ?thesis by blast
qed

section \<open>Descriptors\<close>

text \<open>Constructing a client socket opens exactly one descriptor, which the object owns with a
  fresh counter; if the constructor throws, at any point, every descriptor is as before and the
  counter is freed.\<close>

theorem client_construction_is_exception_safe:
  assumes "client_env os opened create_hostent" and "counters h (next_counter h) = None"
    and "Client_new os create_hostent name port h w = Inr (r, h', w')"
  shows "(\<forall>c. r = Ret c \<longrightarrow> 0 \<le> sock_fd c \<and> sock_fd c \<notin> opened w \<and>
      opened w' = insert (sock_fd c) (opened w) \<and>
      refCounter c = next_counter h \<and> counters h' = (counters h)(refCounter c \<mapsto> 1)) \<and>
    (\<forall>e. r = Throw e \<longrightarrow> opened w' = opened w \<and> counters h' = counters h)"
  using client_env.new_client [OF assms(1,3)] assms(2) by (cases r) auto

theorem client_construction_is_exception_safe_witness:
  "\<exists>c h' w'. Client_new sim sim_hostent ''10.0.0.1'' 9000 empty_heap boot = Inr (Ret c, h', w') \<and>
    k_open w' = {sock_fd c} \<and> counters h' = [0 \<mapsto> 1]"
proof -
  obtain c h' w' where n: "Client_new sim sim_hostent ''10.0.0.1'' 9000 empty_heap boot = Inr (Ret c, h', w')"
    by (simp add: Client_new_def Socket_new_def CreateSocket_def sim_def sim_open_def boot_def
        Start_def new_counter_def empty_heap_def INVALID_SOCKET_def strcpy_def SERVER_NAME_SIZE_def
        Connect_def Resolve_def isalpha_def sim_hostent_def c_free_def Socket.extend_def CClientSocket.fields_def)
  have "counters empty_heap (next_counter empty_heap) = None" by (simp add: empty_heap_def)
  from client_construction_is_exception_safe [OF sim.client_env_axioms this n]
  have "k_open w' = insert (sock_fd c) (k_open boot)" "counters h' = [0 \<mapsto> 1]"
    by (auto simp: empty_heap_def)
  with n show ?thesis by (auto simp: boot_def)
qed

text \<open>\<open>Reconnect\<close> gives back the old descriptor and, whatever its outcome, the object owns at most
  one new one: none when no socket could be created, and otherwise one that was not in use, even
  if the connection was then refused.\<close>

theorem reconnect_replaces_descriptor:
  assumes "client_env os opened create_hostent"
    and "Reconnect os create_hostent this w = Inr (r, this', w')"
  shows "sock_fd this' = - 1 \<and> r \<noteq> Ret () \<and> opened w' = opened w - {sock_fd this} \<or>
    0 \<le> sock_fd this' \<and> sock_fd this' \<notin> opened w - {sock_fd this} \<and>
    opened w' = insert (sock_fd this') (opened w - {sock_fd this})"
  by (rule client_env.reconnect_owns [OF assms])

definition numeric_client :: CClientSocket where
  "numeric_client = named_client\<lparr>m_ServerName := ''10.0.0.1''\<rparr>"

lemma numeric_reconnect:
  "\<exists>w'. Reconnect sim sim_hostent numeric_client (boot\<lparr>k_next := 7, k_open := {3, 4}\<rparr>) =
     Inr (Ret (), numeric_client\<lparr>sock_fd := 7, m_HostPointer :=
       Some \<lparr>h_name = None, h_addr = Some 0x0A000001, h_storage = HeapStorage\<rparr>\<rparr>, w')"
  by (simp add: Reconnect_def CreateSocket_def Close_def sim_def sim_open_def boot_def log_def
      INVALID_SOCKET_def Connect_def Resolve_def isalpha_def sim_hostent_def c_free_def
      numeric_client_def named_client_def)

theorem reconnect_replaces_descriptor_witness:
  "\<exists>this' w'. Reconnect sim sim_hostent numeric_client (boot\<lparr>k_next := 7, k_open := {3, 4}\<rparr>) =
      Inr (Ret (), this', w') \<and> k_open w' = {4, 7}"
proof -
  obtain w' where r: "Reconnect sim sim_hostent numeric_client (boot\<lparr>k_next := 7, k_open := {3, 4}\<rparr>) =
     Inr (Ret (), numeric_client\<lparr>sock_fd := 7, m_HostPointer :=
       Some \<lparr>h_name = None, h_addr = Some 0x0A000001, h_storage = HeapStorage\<rparr>\<rparr>, w')"
    using numeric_reconnect by blast
  have "k_open w' = {4, 7}"
    using reconnect_replaces_descriptor [OF sim.client_env_axioms r]
    by (auto simp: numeric_client_def named_client_def)
  with r show ?thesis by blast
qed

text \<open>Destroying a client socket closes its descriptor at once, even while copies of the object
  still use it; and when it was the last copy, it closes the same number a second time, when the
  number may already belong to another connection.\<close>

theorem client_destructor_closes_too_often:
  assumes "counters h (refCounter this) = Some n"
  shows "\<exists>h'. Client_dtor os this h w =
    Inr (h', if n = 1 then Close os (sock_fd this) (Close os (sock_fd this) w)
             else Close os (sock_fd this) w)"
  using assms by (simp add: Client_dtor_def Socket_dtor_def Socket.truncate_def)

theorem client_destructor_closes_too_often_witness:
  "\<exists>h'. Client_dtor sim named_client (empty_heap\<lparr>counters := [0 \<mapsto> 1]\<rparr>) boot =
    Inr (h', Close sim 3 (Close sim 3 boot))"
proof -
  have "counters (empty_heap\<lparr>counters := [0 \<mapsto> 1]\<rparr>) (refCounter named_client) = Some 1"
    by (simp add: named_client_def)
  from client_destructor_closes_too_often [OF this, of sim boot]
  show ?thesis by (simp add: named_client_def)
qed

section \<open>Pooled connections\<close>

text \<open>A pool of TCP connections always lends the first idle one. Since \<open>is_healthy\<close> is constantly
  false, lending reconnects it first, live or not; and it is lent whether or not the server
  accepted, in the state in which \<open>Reconnect\<close> left it.\<close>

theorem tcp_pool_lends_after_reconnecting:
  assumes "tcp_env create_hostent" and "pool_wf p"
    and "m_connections_idle p = (k, c) # others"
    and "client_socket c = Some cs" and "\<not> isalpha (first_char (m_ServerName cs))"
  shows "\<exists>r cs' w'. Reconnect os create_hostent cs w = Inr (r, cs', w') \<and>
    get_connection (Tcp os create_hostent) p (h, w) =
      Inr (\<lparr>m_pool = True, m_connection = Some k\<rparr>,
           \<lparr>m_connections_idle = others,
            m_connections_busy =
              (k, c\<lparr>client_socket := Some cs', connected := (r = Ret () \<or> connected c)\<rparr>) #
                m_connections_busy p\<rparr>, (h, w'))"
proof -
  obtain r cs' w' where r: "Reconnect os create_hostent cs w = Inr (r, cs', w')"
    and "check_connect (Tcp os create_hostent) c (h, w) =
      Inr (True, c\<lparr>client_socket := Some cs', connected := (r = Ret () \<or> connected c)\<rparr>, (h, w'))"
    using tcp_env.check_numeric [OF assms(1,4,5)] by blast
  from get_connection_head [OF assms(3,2) this(2)] r show ?thesis by blast
qed

definition idle_tcp :: TcpConnection where
  "idle_tcp = \<lparr>connection_id = 0, client_socket = Some numeric_client, connected = False\<rparr>"

text \<open>A system on which every connection is refused.\<close>

definition refusing :: "kernel os" where
  "refusing = sim\<lparr>os_connect := \<lambda>s a w. (- 1, w)\<rparr>"

theorem tcp_pool_lends_after_reconnecting_witness:
  "\<exists>c' w'. get_connection (Tcp refusing sim_hostent)
      \<lparr>m_connections_idle = [(8, idle_tcp)], m_connections_busy = []\<rparr> (empty_heap, boot) =
    Inr (\<lparr>m_pool = True, m_connection = Some 8\<rparr>,
         \<lparr>m_connections_idle = [], m_connections_busy = [(8, c')]\<rparr>, (empty_heap, w')) \<and>
    \<not> connected c'"
proof -
  let ?p = "\<lparr>m_connections_idle = [(8, idle_tcp)], m_connections_busy = []\<rparr>"
  have p: "pool_wf ?p" "m_connections_idle ?p = [(8, idle_tcp)]"
    "client_socket idle_tcp = Some numeric_client"
    "\<not> isalpha (first_char (m_ServerName numeric_client))"
    by (simp_all add: pool_wf_def idle_tcp_def numeric_client_def isalpha_def)
  obtain e this w' where "Reconnect refusing sim_hostent numeric_client boot = Inr (Throw e, this, w')"
    by (simp add: Reconnect_def CreateSocket_def Close_def refusing_def sim_def sim_open_def boot_def
      log_def INVALID_SOCKET_def Connect_def Resolve_def isalpha_def sim_hostent_def
      numeric_client_def named_client_def)
  with tcp_pool_lends_after_reconnecting [OF sim.tcp_env_axioms p, of refusing boot empty_heap]
  show ?thesis by (auto simp: idle_tcp_def)
qed

text \<open>Creating a pool of TCP connections is all or nothing: either it returns a pool with the
  requested number of idle connections and has opened exactly that many new descriptors, or it
  throws and every descriptor is as before.\<close>

theorem tcp_factory_is_exception_safe:
  assumes "client_env os opened create_hostent" and "inj alloc"
    and "create_tcp_pool os create_hostent num name port alloc h w = Inr (r, h', w')"
  shows "(\<forall>p. r = Ret p \<longrightarrow> pool_wf p \<and> m_connections_busy p = [] \<and>
      idle_keys p = alloc ` {0..<unat num} \<and> size_idle p = unat num \<and>
      opened w' = opened w \<union> fds (m_connections_idle p) \<and>
      fds (m_connections_idle p) \<inter> opened w = {} \<and> card (fds (m_connections_idle p)) = unat num) \<and>
    (\<forall>e. r = Throw e \<longrightarrow> opened w' = opened w)"
proof -
  obtain x where x: "create_loop os create_hostent name port alloc [0..<unat num] [] h w = Inr x"
    using assms(3) unfolding create_tcp_pool_def fbind_eq_Inr_iff by blast
  obtain q h1 w1 where x': "x = (q, h1, w1)" by (metis prod_cases3)
  note q = x [unfolded x']
  have fin: "(case q of Throw e \<Rightarrow> Inr (Throw e, h1, w1) | Ret cs \<Rightarrow> Inr (Ret (new_pool cs), h1, w1)) =
      (Inr (r, h', w') :: fault + _)"
    using assms(3) by (simp add: create_tcp_pool_def q)
  note l = client_env.create_loop_opened [OF assms(1) q, of "opened w"]
  show ?thesis
  proof (cases q)
    case (Ret cs)
    then have cs: "map fst cs = map alloc [0..<unat num]" "opened w1 = opened w \<union> fds cs"
      "fds cs \<inter> opened w = {}" "card (fds cs) = length cs"
      using l by auto
    then have d: "distinct (map fst cs)"
      using assms(2) by (simp add: distinct_map inj_on_def inj_def)
    have len: "length cs = unat num" using arg_cong [OF cs(1), of length] by simp
    note idle = new_pool_idle [OF d]
    have busy: "m_connections_busy (new_pool cs) = []" by (simp add: new_pool_def)
    have "fds (rev cs) = fds cs" by (simp add: fds_def)
    moreover have "idle_keys (new_pool cs) = alloc ` {0..<unat num}"
      unfolding idle rev_map [symmetric] set_rev cs(1) by simp
    moreover have "pool_wf (new_pool cs)"
      using d by (simp add: pool_wf_def idle busy rev_map [symmetric])
    moreover have "r = Ret (new_pool cs)" "w' = w1" using fin Ret by auto
    ultimately show ?thesis
      using cs(2-4) len busy by (simp add: idle size_idle_def del: set_map)
  next
    case (Throw e)
    then show ?thesis using fin l by auto
  qed
qed

lemmas sim_connects = Client_new_def Socket_new_def CreateSocket_def sim_def sim_open_def boot_def log_def
  Start_def new_counter_def empty_heap_def INVALID_SOCKET_def strcpy_def SERVER_NAME_SIZE_def
  Connect_def Resolve_def isalpha_def sim_hostent_def c_free_def Socket.extend_def CClientSocket.fields_def

theorem tcp_factory_is_exception_safe_witness:
  "\<exists>p h' w'. create_tcp_pool sim sim_hostent 2 ''10.0.0.1'' 9000 (\<lambda>k. k + 10) empty_heap boot =
      Inr (Ret p, h', w') \<and> idle_keys p = {10, 11} \<and>
    card (k_open w') = 2"
proof -
  obtain p h' w' where c: "create_tcp_pool sim sim_hostent 2 ''10.0.0.1'' 9000 (\<lambda>k. k + 10) empty_heap boot =
      Inr (Ret p, h', w')"
    by (simp add: create_tcp_pool_def Tcp_new_def sim_connects upt_rec)
  have "inj (\<lambda>k :: nat. k + 10)" by (simp add: inj_def)
  from tcp_factory_is_exception_safe [OF sim.client_env_axioms this c]
  have p: "idle_keys p = (\<lambda>k. k + 10) ` {0..<2}" "k_open w' = {} \<union> fds (m_connections_idle p)"
    "card (fds (m_connections_idle p)) = 2" by (simp_all add: boot_def del: set_map)
  have "{0..<2 :: nat} = {0, 1}" by auto
  with c p show ?thesis by (simp del: set_map)
qed

end
