(* ===== verification/Pool_Lifetime.thy ===== *)
theory Pool_Lifetime
  imports Pool_Theorems
begin

text \<open>
  The end of a pool's life, and of the proxies that are left. A proxy points to its pool, so the
  destructor of one that was lent a connection uses the pool after its end. \<open>del\<close> is the virtual
  destructor of the connection class.
\<close>

section \<open>Destruction\<close>

text \<open>
  \<open>~ConnectionPool\<close> is the defaulted one: the members are destroyed in the reverse of their order, and
  each map deletes its connections.
\<close>

definition delete_connections :: "('c \<Rightarrow> 'w \<Rightarrow> fault + 'w) \<Rightarrow> 'c conn_map \<Rightarrow> 'w \<Rightarrow> fault + 'w" where
  "delete_connections del = fold_fault (\<lambda>(k, c). del c)"

definition pool_dtor :: "('c \<Rightarrow> 'w \<Rightarrow> fault + 'w) \<Rightarrow> 'c pool \<Rightarrow> 'w \<Rightarrow> fault + 'w" where
  "pool_dtor del p w =
     fbind (delete_connections del (m_connections_busy p) w) (\<lambda>w.
       delete_connections del (m_connections_idle p) w)"

text \<open>The destructor of a proxy whose pool may be gone.\<close>

definition proxy_dtor_on :: "ConnectionProxy \<Rightarrow> 'c pool option \<Rightarrow> fault + 'c pool option" where
  "proxy_dtor_on px pool =
     (if m_pool px then (case pool of None \<Rightarrow> Inl UseAfterFree | Some p \<Rightarrow> Inr (Some (proxy_dtor px p)))
      else Inr pool)"

section \<open>Scopes\<close>

text \<open>The pool and its proxies, and the order in which they end.\<close>

record ('c, 'w) scope =
  sc_pool :: "'c pool option"
  sc_prox :: "nat \<rightharpoonup> ConnectionProxy"
  sc_world :: 'w

datatype ending = EndPool | EndProxy nat

fun end_one :: "('c \<Rightarrow> 'w \<Rightarrow> fault + 'w) \<Rightarrow> ending \<Rightarrow> ('c, 'w) scope \<Rightarrow> fault + ('c, 'w) scope" where
  "end_one del EndPool s =
     (case sc_pool s of None \<Rightarrow> Inl UseAfterFree
      | Some p \<Rightarrow> fbind (pool_dtor del p (sc_world s)) (\<lambda>w. Inr (s\<lparr>sc_pool := None, sc_world := w\<rparr>)))"
| "end_one del (EndProxy q) s =
     (case sc_prox s q of None \<Rightarrow> Inr s
      | Some px \<Rightarrow>
          fbind (proxy_dtor_on px (sc_pool s)) (\<lambda>p. Inr (s\<lparr>sc_pool := p, sc_prox := (sc_prox s)(q := None)\<rparr>)))"

definition end_scope :: "('c \<Rightarrow> 'w \<Rightarrow> fault + 'w) \<Rightarrow> ending list \<Rightarrow> ('c, 'w) scope \<Rightarrow> fault + ('c, 'w) scope" where
  "end_scope del = fold_fault (end_one del)"

lemma end_scope_simps [simp]:
  "end_scope del [] s = Inr s"
  "end_scope del (e # es) s = fbind (end_one del e s) (end_scope del es)"
  by (simp_all add: end_scope_def)

definition scope_of :: "('c, 'w) sys \<Rightarrow> ('c, 'w) scope" where
  "scope_of s = \<lparr>sc_pool = Some (s_pool s), sc_prox = s_prox s, sc_world = s_world s\<rparr>"

section \<open>What the destructors do\<close>

lemma pool_dtor_all: "pool_dtor del p w = delete_connections del (m_connections_busy p @ m_connections_idle p) w"
  by (simp add: pool_dtor_def delete_connections_def fold_fault_append)

lemma delete_connections_returns:
  assumes "\<And>c w. \<exists>w'. del c w = Inr w'"
  shows "\<exists>w'. delete_connections del m w = Inr w'"
proof (induction m arbitrary: w)
  case (Cons n m)
  obtain k c where n: "n = (k, c)" by fastforce
  obtain w1 where "del c w = Inr w1" using assms by blast
  with Cons n show ?case by (simp add: delete_connections_def)
qed (simp add: delete_connections_def)

text \<open>Proxies that end after their pool.\<close>

lemma proxies_after_pool:
  assumes "sc_pool s = None"
  shows "end_scope del (map EndProxy qs) s =
    (if \<exists>q \<in> set qs. \<exists>px. sc_prox s q = Some px \<and> m_pool px then Inl UseAfterFree
     else Inr (s\<lparr>sc_prox := (sc_prox s) |` (- set qs)\<rparr>))"
  using assms
proof (induction qs arbitrary: s)
  case Nil
  then show ?case by (simp add: restrict_map_def)
next
  case (Cons q qs)
  show ?case
  proof (cases "sc_prox s q")
    case None
    then have "(sc_prox s) |` (- set qs) = (sc_prox s) |` (- set (q # qs))"
      by (auto simp: restrict_map_def fun_eq_iff)
    then show ?thesis using Cons.IH [OF Cons.prems] None by simp
  next
    case (Some px)
    show ?thesis
    proof (cases "m_pool px")
      case True
      then show ?thesis using Some Cons.prems by (simp add: proxy_dtor_on_def)
    next
      case False
      let ?s = "s\<lparr>sc_pool := None, sc_prox := (sc_prox s)(q := None)\<rparr>"
      have "(sc_prox ?s) |` (- set qs) = (sc_prox s) |` (- set (q # qs))"
        by (auto simp: restrict_map_def fun_eq_iff)
      moreover have "(\<exists>r \<in> set qs. \<exists>px. sc_prox ?s r = Some px \<and> m_pool px) \<longleftrightarrow>
          (\<exists>r \<in> set (q # qs). \<exists>px. sc_prox s r = Some px \<and> m_pool px)"
      proof -
        have "(\<exists>py. sc_prox ?s r = Some py \<and> m_pool py) \<longleftrightarrow> (\<exists>py. sc_prox s r = Some py \<and> m_pool py)" for r
          using False Some by (cases "r = q") simp_all
        then show ?thesis using False Some by simp
      qed
      ultimately show ?thesis
        using Cons.IH [of ?s] Cons.prems False Some by (simp add: proxy_dtor_on_def)
    qed
  qed
qed

lemma holders_and_busy:
  assumes "exclusive_sys t" and "proxies_ok t"
  shows "(\<exists>q px. s_prox t q = Some px \<and> m_pool px) \<longleftrightarrow> m_connections_busy (s_pool t) \<noteq> []"
proof -
  have "(\<exists>q px. s_prox t q = Some px \<and> m_pool px) \<longleftrightarrow> (\<exists>q k. holdings t q = Some (Some k))"
    using assms(2) by (fastforce simp: proxies_ok_def holdings_def)
  also have "\<dots> \<longleftrightarrow> busy_keys (s_pool t) \<noteq> {}"
  proof
    assume "\<exists>q k. holdings t q = Some (Some k)"
    then obtain q k where "holdings t q = Some (Some k)" by blast
    from cp.exclusive_holder [OF assms(1) [unfolded exclusive_sys_def] this]
    show "busy_keys (s_pool t) \<noteq> {}" by (metis empty_iff)
  next
    assume "busy_keys (s_pool t) \<noteq> {}"
    then obtain k where "k \<in> busy_keys (s_pool t)" by (metis ex_in_conv)
    then obtain q where "cp.holders (holdings t) k = {q}"
      using assms(1) unfolding exclusive_sys_def cp.exclusive_def by metis
    then show "\<exists>q k. holdings t q = Some (Some k)" unfolding cp.holders_def by blast
  qed
  finally show ?thesis by simp
qed

section \<open>Properties\<close>

text \<open>C26: A pool may end exactly when nothing is lent. The conditions: connections are given back by destroying
  proxies, no proxy that holds one is assigned to, and the destructor of the connection class never
  faults. If the pool then ends while \<open>size_busy\<close> is not zero, ending the remaining proxies, in whatever
  order, uses the pool after its end; if \<open>size_busy\<close> is zero, the pool and all proxies end without a
  fault. The destructor of the pool deletes each of the connections it was built with once. (After an
  assignment to a proxy that holds a connection, \<open>size_busy\<close> can be positive with no holder left.)
\<close>

theorem pool_may_end_when_nothing_is_lent:
  assumes "distinct (map fst connections)" and "raii_run vt ops (initial connections w) t"
    and "\<And>c w. \<exists>w'. del c w = Inr w'" and "dom (s_prox t) \<subseteq> set qs"
  shows "(case end_scope del (EndPool # map EndProxy qs) (scope_of t) of
      Inl e \<Rightarrow> e = UseAfterFree \<and> 0 < size_busy (s_pool t)
    | Inr s \<Rightarrow> size_busy (s_pool t) = 0 \<and> sc_pool s = None \<and> sc_prox s = Map.empty) \<and>
    (\<exists>m. mset (keys m) = mset (map fst connections) \<and>
      pool_dtor del (s_pool t) (s_world t) = delete_connections del m (s_world t))"
proof -
  have t: "sys_inv t" "exclusive_sys t"
    using raii_run_exclusive [OF assms(2) initial_inv(1,2) [OF assms(1)]] by simp_all
  note keep = run_conserves [OF assms(1) raii_run_is_run [OF assms(2)]]
  let ?m = "m_connections_busy (s_pool t) @ m_connections_idle (s_pool t)"
  have "distinct (keys ?m)" "set (keys ?m) = set (map fst connections)"
    using keep by (auto simp del: set_map)
  then have "mset (keys ?m) = mset (map fst connections)"
    using assms(1) by (simp only: set_eq_iff_mset_eq_distinct)
  then have all: "\<exists>m. mset (keys m) = mset (map fst connections) \<and>
      pool_dtor del (s_pool t) (s_world t) = delete_connections del m (s_world t)"
    by (intro exI [of _ ?m] conjI pool_dtor_all)
  obtain w' where w': "pool_dtor del (s_pool t) (s_world t) = Inr w'"
    using delete_connections_returns [of del, OF assms(3)] unfolding pool_dtor_all by blast
  let ?s = "\<lparr>sc_pool = None, sc_prox = s_prox t, sc_world = w'\<rparr>"
  have "end_scope del (EndPool # map EndProxy qs) (scope_of t) = end_scope del (map EndProxy qs) ?s"
    using w' by (simp add: scope_of_def)
  moreover have "(\<exists>q \<in> set qs. \<exists>px. s_prox t q = Some px \<and> m_pool px) \<longleftrightarrow> 0 < size_busy (s_pool t)"
  proof -
    have "(\<exists>q \<in> set qs. \<exists>px. s_prox t q = Some px \<and> m_pool px) \<longleftrightarrow> (\<exists>q px. s_prox t q = Some px \<and> m_pool px)"
      using assms(4) by blast
    then show ?thesis using holders_and_busy [OF t(2)] t(1) by (simp add: sys_inv_def size_busy_def)
  qed
  moreover have "s_prox t |` (- set qs) = Map.empty"
    using assms(4) by (auto simp: restrict_map_def fun_eq_iff)
  ultimately have "case end_scope del (EndPool # map EndProxy qs) (scope_of t) of
      Inl e \<Rightarrow> e = UseAfterFree \<and> 0 < size_busy (s_pool t)
    | Inr s \<Rightarrow> size_busy (s_pool t) = 0 \<and> sc_pool s = None \<and> sc_prox s = Map.empty"
    using proxies_after_pool [of ?s del qs] by (simp del: end_scope_simps)
  with all show ?thesis by (rule conjI [rotated])
qed

text \<open>A pool of one connection that ends before its only proxy.\<close>

theorem pool_may_end_when_nothing_is_lent_witness:
  "end_scope (\<lambda>c w. Inr w) [EndPool, EndProxy 0] (scope_of one_lent) = Inl UseAfterFree"
proof -
  have run: "raii_run TestConnection [Get 0] (initial [(7, False)] ()) one_lent"
    by (rule raii_run.cons [OF _ get_one raii_run.nil]) simp
  have "dom (s_prox one_lent) \<subseteq> set [0 :: nat]" by (auto simp: one_lent_def split: if_splits)
  from pool_may_end_when_nothing_is_lent [OF _ run, of "\<lambda>c w. Inr w", OF _ _ this]
  have "case end_scope (\<lambda>c w. Inr w) [EndPool, EndProxy 0] (scope_of one_lent) of
      Inl e \<Rightarrow> e = UseAfterFree \<and> 0 < size_busy (s_pool one_lent) | Inr s \<Rightarrow> size_busy (s_pool one_lent) = 0 \<and>
        sc_pool s = None \<and> sc_prox s = Map.empty" by simp
  then show ?thesis by (auto simp: one_lent_def size_busy_def split: sum.splits)
qed

end
