(* ===== verification/Tcp_Lifetime.thy ===== *)
theory Tcp_Lifetime
  imports Client_Theorems Pool_Lifetime
begin

text \<open>
  A pool of TCP connections from its creation to its end: which descriptors and counters its
  connections have at any time, and that the destructors give all of them back.
\<close>

section \<open>What the connections of a pool own\<close>

definition socks :: "TcpConnection list \<Rightarrow> CClientSocket list" where
  "socks cs = map (the \<circ> client_socket) cs"

text \<open>A connection whose last \<open>Reconnect\<close> got no descriptor has -1.\<close>

definition live_fds :: "TcpConnection list \<Rightarrow> int list" where
  "live_fds cs = filter (\<lambda>s. s \<noteq> - 1) (map sock_fd (socks cs))"

definition refs :: "TcpConnection list \<Rightarrow> nat list" where
  "refs cs = map refCounter (socks cs)"

text \<open>
  Every connection has its socket object with a counter of its own, at 1; no two have a descriptor in
  common; and besides those of the connections there are the descriptors \<open>B\<close> and the counters \<open>C\<close>.
\<close>

definition tcp_owns ::
    "('w \<Rightarrow> int set) \<Rightarrow> int set \<Rightarrow> (nat \<rightharpoonup> int) \<Rightarrow> TcpConnection list \<Rightarrow> heap \<Rightarrow> 'w \<Rightarrow> bool" where
  "tcp_owns opened B C cs h w \<longleftrightarrow>
     (\<forall>c \<in> set cs. client_socket c \<noteq> None) \<and> distinct (live_fds cs) \<and> distinct (refs cs) \<and>
     opened w = B \<union> set (live_fds cs) \<and> B \<inter> set (live_fds cs) = {} \<and> (\<forall>s \<in> opened w. 0 \<le> s) \<and>
     (\<forall>r \<in> set (refs cs). C r = None) \<and> counters h = (\<lambda>r. if r \<in> set (refs cs) then Some 1 else C r)"

lemma tcp_parts [simp]:
  "socks [] = []" "socks (c # cs) = the (client_socket c) # socks cs" "socks (cs @ ds) = socks cs @ socks ds"
  "live_fds [] = []" "live_fds (cs @ ds) = live_fds cs @ live_fds ds"
  "live_fds (c # cs) = (if sock_fd (the (client_socket c)) = - 1 then [] else [sock_fd (the (client_socket c))]) @ live_fds cs"
  "refs [] = []" "refs (c # cs) = refCounter (the (client_socket c)) # refs cs" "refs (cs @ ds) = refs cs @ refs ds"
  by (simp_all add: socks_def live_fds_def refs_def)

lemma tcp_owns_mset:
  assumes "mset cs' = mset cs"
  shows "tcp_owns opened B C cs' h w = tcp_owns opened B C cs h w"
proof -
  have m: "mset (live_fds cs') = mset (live_fds cs)" "mset (refs cs') = mset (refs cs)"
    using assms by (simp_all add: live_fds_def refs_def socks_def)
  show ?thesis
    unfolding tcp_owns_def
    by (simp only: assms [THEN mset_eq_setD] m [THEN mset_eq_setD] m [THEN mset_eq_imp_distinct_iff])
qed

section \<open>What holders do\<close>

text \<open>
  A holder of a connection calls the functions of its socket that send and receive, in any order and with
  any arguments; \<open>called\<close> is the system after such a call, if it returns. A run of the pool in which the
  steps of the holders are calls of this kind, each on the socket of a connection that is lent.
\<close>

datatype socket_call =
    CallSendBytes bytes int
  | CallSendChecked bytes int
  | CallSendLine bytes
  | CallReceiveBytes
  | CallReceive bytes int
  | CallReceiveLine
  | CallRecvBlocking bytes u64
  | CallPeek int

fun called :: "'w os \<Rightarrow> int \<Rightarrow> socket_call \<Rightarrow> 'w \<Rightarrow> (fault + 'w) option" where
  "called os s (CallSendBytes buf n) w = Some (SendBytes os s buf n w)"
| "called os s (CallSendChecked buf n) w = Some (fbind (SendBytes_checked os s buf n w) (\<lambda>(ok, w). Inr w))"
| "called os s (CallSendLine line) w = Some (Inr (SendLine os s line w))"
| "called os s CallReceiveBytes w = map_option (\<lambda>(bs, w). Inr w) (ReceiveBytes os s w)"
| "called os s (CallReceive buf n) w = Some (fbind (Receive os s buf n w) (\<lambda>(ok, buf, n, w). Inr w))"
| "called os s CallReceiveLine w = map_option (\<lambda>(line, w). Inr w) (ReceiveLine os s w)"
| "called os s (CallRecvBlocking buf n) w =
     map_option (\<lambda>q. fbind q (\<lambda>(r, buf, w). Inr w)) (RecvBlocking os s buf n w)"
| "called os s (CallPeek n) w = Some (fbind (Peek os s n w) (\<lambda>(r, w). Inr w))"

definition uses_socket ::
    "'w os \<Rightarrow> (TcpConnection, heap \<times> 'w) sys \<Rightarrow> (TcpConnection, heap \<times> 'w) sys \<Rightarrow> bool" where
  "uses_socket os s t \<longleftrightarrow> (\<exists>k c x call h w w'. (k, c) \<in> set (m_connections_busy (s_pool s)) \<and>
     client_socket c = Some x \<and> s_world s = (h, w) \<and> called os (sock_fd x) call w = Some (Inr w') \<and>
     t = s\<lparr>s_world := (h, w')\<rparr>)"

inductive tcp_run ::
    "'w os \<Rightarrow> 'w resolver \<Rightarrow> pool_op list \<Rightarrow> (TcpConnection, heap \<times> 'w) sys \<Rightarrow>
     (TcpConnection, heap \<times> 'w) sys \<Rightarrow> bool" for os create_hostent where
  nil: "tcp_run os create_hostent [] s s"
| cons: "step (Tcp os create_hostent) x s t \<Longrightarrow> (x = Use \<longrightarrow> uses_socket os s t) \<Longrightarrow>
    tcp_run os create_hostent xs t u \<Longrightarrow> tcp_run os create_hostent (x # xs) s u"

lemma tcp_run_is_run: "tcp_run os create_hostent ops s t \<Longrightarrow> run (Tcp os create_hostent) ops s t"
  by (induction rule: tcp_run.induct) (auto intro: run.intros)

text \<open>Every such call is a step of the holders in general.\<close>

lemma socket_use_is_step: "uses_socket os s t \<Longrightarrow> step vt Use s t"
  using step.use [of "m_connections_busy (s_pool s)" s vt] by (auto simp: uses_socket_def)

context fd_table begin

lemma called_opened: "called os s call w = Some (Inr w') \<Longrightarrow> opened w' = opened w"
  by (cases call)
    (auto simp: fbind_eq_Inr_iff send_line_opened dest: send_opened checked_send_opened receive_opened
      receive_buffer_opened receive_line_opened recv_blocking_opened peek_opened)

end

section \<open>Lending\<close>

text \<open>A connection that is replaced by one with the same counter and another, new descriptor, or none.\<close>

lemma tcp_owns_first: "tcp_owns opened B C (cs @ c # ds) h w = tcp_owns opened B C (c # cs @ ds) h w"
  by (rule tcp_owns_mset) simp

text \<open>What is left when the first one's descriptor is closed.\<close>

lemma tcp_owns_tail:
  assumes "tcp_owns opened B C (c # cs) h w" and "client_socket c = Some x"
  shows "opened w - {sock_fd x} = B \<union> set (live_fds cs)" "distinct (live_fds cs)" "B \<inter> set (live_fds cs) = {}"
proof -
  have "\<forall>s \<in> opened w. 0 \<le> s" using assms(1) unfolding tcp_owns_def by blast
  then have "- 1 \<notin> opened w" by force
  then show "opened w - {sock_fd x} = B \<union> set (live_fds cs)"
    using assms by (auto simp: tcp_owns_def split: if_splits)
  show "distinct (live_fds cs)" "B \<inter> set (live_fds cs) = {}"
    using assms(1) by (auto simp: tcp_owns_def)
qed

lemma tcp_owns_replace:
  assumes "tcp_owns opened B C (cs @ c # ds) h w" and "client_socket c = Some x" and "client_socket c' = Some x'"
    and "refCounter x' = refCounter x"
    and "sock_fd x' = - 1 \<and> opened w' = opened w - {sock_fd x} \<or>
      0 \<le> sock_fd x' \<and> sock_fd x' \<notin> opened w - {sock_fd x} \<and> opened w' = insert (sock_fd x') (opened w - {sock_fd x})"
  shows "tcp_owns opened B C (cs @ c' # ds) h w'"
proof -
  have own: "tcp_owns opened B C (c # cs @ ds) h w" using assms(1) unfolding tcp_owns_first .
  note rest = tcp_owns_tail [OF own assms(2)]
  let ?new = "(if sock_fd x' = - 1 then [] else [sock_fd x']) @ live_fds (cs @ ds)"
  have "live_fds (c' # cs @ ds) = ?new" "refs (c' # cs @ ds) = refs (c # cs @ ds)"
    using assms(2-4) by simp_all
  moreover from assms(5) have "opened w' = B \<union> set ?new \<and> distinct ?new \<and> B \<inter> set ?new = {}"
    by (elim disjE conjE) (use rest in \<open>simp_all del: tcp_parts\<close>)
  moreover have "\<forall>s \<in> opened w. 0 \<le> s" using own unfolding tcp_owns_def by blast
  then have "\<forall>s \<in> opened w'. 0 \<le> s" using assms(5) by auto
  moreover have "\<forall>d \<in> set (c' # cs @ ds). client_socket d \<noteq> None" using own assms(3) by (auto simp: tcp_owns_def)
  ultimately have "tcp_owns opened B C (c' # cs @ ds) h w'"
    using own unfolding tcp_owns_def by simp
  then show ?thesis unfolding tcp_owns_first .
qed

lemma connect_keeps_counter:
  assumes "Socket.truncate this' = Socket.truncate (this\<lparr>sock_fd := s\<rparr>)"
  shows "refCounter this' = refCounter this"
  using arg_cong [OF assms, of refCounter] by (simp add: Socket.truncate_def)

context client_env begin

lemma reconnect_keeps_counter:
  assumes "Reconnect os create_hostent this w = Inr (r, this', w')"
  shows "refCounter this' = refCounter this"
proof -
  obtain q s w1 where c: "CreateSocket os (Close os (sock_fd this) w) = (q, s, w1)" by (metis prod_cases3)
  show ?thesis
  proof (cases q)
    case (Ret u)
    then have "Connect os create_hostent (this\<lparr>sock_fd := s\<rparr>) w1 = Inr (r, this', w')"
      using assms c by (simp add: Reconnect_def)
    from connect_keeps_counter [OF conjunct1 [OF conjunct2 [OF connect_keeps_open [OF this]]]] show ?thesis .
  qed (use assms c in \<open>auto simp: Reconnect_def\<close>)
qed

lemma check_connect_owns:
  assumes "check_connect (Tcp os create_hostent) c (h, w) = Inr (ok, c', h', w')"
    and "tcp_owns opened B C (cs @ c # ds) h w"
  shows "tcp_owns opened B C (cs @ c' # ds) h' w' \<and> ok"
proof -
  obtain x where x: "client_socket c = Some x" using assms(2) by (auto simp: tcp_owns_def)
  obtain r x' w1 where r: "Reconnect os create_hostent x w = Inr (r, x', w1)"
    using assms(1) x by (auto simp: check_connect_def Tcp_def Tcp_connect_def fbind_eq_Inr_iff)
  then have "\<exists>b. check_connect (Tcp os create_hostent) c (h, w) =
      Inr (True, c\<lparr>client_socket := Some x', connected := b\<rparr>, h, w1)"
    using x by (cases r) (auto simp: check_connect_def Tcp_def Tcp_connect_def intro: exI [of _ "connected c"])
  then have e: "h' = h" "w' = w1" "ok" "client_socket c' = Some x'" using assms(1) by auto
  have "sock_fd x' = - 1 \<and> opened w1 = opened w - {sock_fd x} \<or>
      0 \<le> sock_fd x' \<and> sock_fd x' \<notin> opened w - {sock_fd x} \<and> opened w1 = insert (sock_fd x') (opened w - {sock_fd x})"
    by (rule disj_forward [OF reconnect_owns [OF r]]; elim conjE; intro conjI; assumption)
  from tcp_owns_replace [OF assms(2) x e(4) reconnect_keeps_counter [OF r] this] e show ?thesis by simp
qed

lemma get_loop_owns:
  assumes "get_loop (Tcp os create_hostent) seen todo (h, w) = Inr (found, m, h', w')"
    and "tcp_owns opened B C (map snd (rev seen @ todo) @ others) h w"
  shows "tcp_owns opened B C (map snd m @ others) h' w'"
proof (cases todo)
  case Nil
  then show ?thesis using assms by simp
next
  case (Cons n todo')
  obtain k c where n: "n = (k, c)" by fastforce
  obtain ok c1 h1 w1 where c: "check_connect (Tcp os create_hostent) c (h, w) = Inr (ok, c1, h1, w1)"
    using assms(1) Cons n by (auto simp: fbind_eq_Inr_iff)
  have "tcp_owns opened B C (map snd (rev seen) @ c # map snd todo' @ others) h w" using assms(2) Cons n by simp
  from check_connect_owns [OF c this] show ?thesis using assms(1) Cons n c by auto
qed

end

text \<open>Which connections the pool has is not changed by lending and giving back.\<close>

definition connections_of :: "'c pool \<Rightarrow> 'c list" where
  "connections_of p = map snd (m_connections_idle p @ m_connections_busy p)"

lemma mset_extract:
  "distinct (keys m) \<Longrightarrow> map_of m k = Some c \<Longrightarrow>
   image_mset snd (mset m) = add_mset c (image_mset snd {#n \<in># mset m. fst n \<noteq> k#})"
proof (induction m)
  case (Cons n m)
  show ?case
  proof (cases "fst n = k")
    case True
    then have "k \<notin> set (keys m)" using Cons.prems(1) by (simp del: set_map)
    then have "filter (\<lambda>n. fst n \<noteq> k) m = m" by (auto simp: filter_id_conv)
    then have "{#n \<in># mset m. fst n \<noteq> k#} = mset m" by (metis mset_filter)
    then show ?thesis using True Cons.prems(2) by (cases n) simp
  qed (use Cons in \<open>auto split: if_splits\<close>)
qed simp

lemma get_connection_msets:
  assumes "get_connection vt p w = Inr (px, p', w')" and "pool_wf p" and "m_connections_idle p \<noteq> []"
  shows "\<exists>found m. get_loop vt [] (m_connections_idle p) w = Inr (found, m, w') \<and>
    mset (connections_of p') = mset (map snd m @ map snd (m_connections_busy p))"
proof -
  obtain found m w1 where loop: "get_loop vt [] (m_connections_idle p) w = Inr (found, m, w1)"
    using assms(1,3) by (auto simp: get_connection_def fbind_eq_Inr_iff)
  note k = get_loop_keys [OF loop]
  show ?thesis
  proof (cases found)
    case None
    then show ?thesis using assms(1,3) loop by (auto simp: get_connection_def connections_of_def)
  next
    case (Some j)
    then have j: "j \<in> set (keys m)" "distinct (keys m)" "j \<notin> busy_keys p"
      using k assms(2) by (auto simp: pool_wf_def)
    then obtain c where c: "map_of m j = Some c" using map_of_keys by metis
    have "mset (connections_of p') = mset (map snd m @ map snd (m_connections_busy p))"
      using assms(1,3) loop Some j(3) c mset_extract [OF j(2) c]
      by (auto simp: get_connection_def um_extract_def um_insert_def um_emplace_def connections_of_def simp del: set_map)
    then show ?thesis using assms(1,3) loop Some by (auto simp: get_connection_def Let_def case_prod_unfold)
  qed
qed

lemma release_msets:
  assumes "pool_wf p"
  shows "mset (connections_of (release_connection x p)) = mset (connections_of p)"
proof (cases "\<exists>k. x = Some k \<and> k \<in> busy_keys p")
  case True
  then obtain k where k: "x = Some k" "k \<in> busy_keys p" by (metis (no_types))
  moreover have "k \<notin> idle_keys p" "distinct (keys (m_connections_busy p))"
    using assms k(2) by (auto simp: pool_wf_def)
  moreover obtain c where "map_of (m_connections_busy p) k = Some c" using map_of_keys [OF k(2)] by (metis (no_types))
  ultimately show ?thesis
    using mset_extract [of "m_connections_busy p" k c]
    by (simp add: release_connection_def um_extract_def um_insert_def um_emplace_def connections_of_def del: set_map)
next
  case False
  then show ?thesis by (cases x) (simp_all del: set_map)
qed

section \<open>From the creation of the pool to its end\<close>

text \<open>\<open>delete\<close> on a pooled connection is the destructor of \<open>TcpConnection\<close>.\<close>

definition tcp_delete :: "'w os \<Rightarrow> TcpConnection \<Rightarrow> heap \<times> 'w \<Rightarrow> fault + (heap \<times> 'w)" where
  "tcp_delete os c = (\<lambda>(h, w). Tcp_dtor os c h w)"

definition fresh_counters :: "heap \<Rightarrow> bool" where
  "fresh_counters h \<longleftrightarrow> (\<forall>r \<ge> next_counter h. counters h r = None)"

lemma not_thrown: "(\<forall>e. r \<noteq> Throw e) \<longleftrightarrow> (\<exists>a. r = Ret a)"
  by (cases r) auto

lemma client_new_counter:
  assumes "Client_new os create_hostent name port h w = Inr (Ret c, h', w')"
  shows "next_counter h' = Suc (next_counter h)"
  using assms by (auto simp: Client_new_def Socket_new_def CreateSocket_def Start_def new_counter_def Let_def
      fbind_eq_Inr_iff not_thrown split: prod.splits if_splits outcome.splits)

text \<open>A further connection, with a descriptor that was not open and a counter that was not in use.\<close>

lemma tcp_owns_new:
  assumes "tcp_owns opened B C (map snd cs) h w" and "client_socket c = Some x"
    and "0 \<le> sock_fd x \<and> sock_fd x \<notin> opened w \<and> opened w' = insert (sock_fd x) (opened w) \<and>
      refCounter x = r \<and> counters h' = (counters h)(r \<mapsto> 1)"
    and "r \<notin> set (refs (map snd cs))" and "C r = None"
  shows "tcp_owns opened B C (map snd (cs @ [(k, c)])) h' w'"
proof -
  have "counters h = (\<lambda>r. if r \<in> set (refs (map snd cs)) then Some 1 else C r)"
    using assms(1) unfolding tcp_owns_def by blast
  then have "counters h' = (\<lambda>q. if q \<in> set (refs (map snd (cs @ [(k, c)]))) then Some 1 else C q)"
    using assms(2,3) by (auto simp: fun_eq_iff)
  moreover have "live_fds (map snd (cs @ [(k, c)])) = live_fds (map snd cs) @ [sock_fd x]"
    using assms(2,3) by auto
  moreover have "refs (map snd (cs @ [(k, c)])) = refs (map snd cs) @ [r]" using assms(2,3) by simp
  ultimately show ?thesis
    using assms unfolding tcp_owns_def by auto
qed

context client_env begin

lemma get_connection_owns:
  assumes "get_connection (Tcp os create_hostent) p (h, w) = Inr (px, p', h', w')" and "pool_wf p"
    and "tcp_owns opened B C (connections_of p) h w"
  shows "tcp_owns opened B C (connections_of p') h' w'"
proof (cases "m_connections_idle p = []")
  case True
  then show ?thesis using assms by (simp add: get_connection_def)
next
  case False
  from get_connection_msets [OF assms(1,2) False] obtain found m where
    m: "get_loop (Tcp os create_hostent) [] (m_connections_idle p) (h, w) = Inr (found, m, h', w')"
    "mset (connections_of p') = mset (map snd m @ map snd (m_connections_busy p))" by blast
  have "tcp_owns opened B C (map snd (rev [] @ m_connections_idle p) @ map snd (m_connections_busy p)) h w"
    using assms(3) by (simp add: connections_of_def)
  from get_loop_owns [OF m(1) this] show ?thesis unfolding tcp_owns_mset [OF m(2)] .
qed

lemma beat_loop_Tcp:
  "beat_loop (Tcp os create_hostent) seen todo w = Inr (Ret (), rev seen @ todo, w)"
  by (induction todo arbitrary: seen) (auto simp: Tcp_def)

lemma step_owns:
  assumes "step (Tcp os create_hostent) x s t" and "x = Use \<longrightarrow> uses_socket os s t" and "pool_wf (s_pool s)"
    and "case s_world s of (h, w) \<Rightarrow> tcp_owns opened B C (connections_of (s_pool s)) h w"
  shows "case s_world t of (h, w) \<Rightarrow> tcp_owns opened B C (connections_of (s_pool t)) h w"
  using assms(1)
proof cases
  case (get q px p' w')
  obtain h w h1 w1 where "s_world s = (h, w)" "w' = (h1, w1)" by fastforce
  with get get_connection_owns [of "s_pool s" h w px p' h1 w1] assms(3,4) show ?thesis by simp
next
  case (dtor q px)
  have m: "mset (connections_of (proxy_dtor px (s_pool s))) = mset (connections_of (s_pool s))"
    using release_msets [OF assms(3)] by (simp add: proxy_dtor_def)
  then show ?thesis using dtor assms(4) by (cases "s_world s") (simp add: tcp_owns_mset [OF m])
next
  case (release q px)
  have m: "mset (connections_of (release_proxy px (s_pool s))) = mset (connections_of (s_pool s))"
    using release_msets [OF assms(3)] by (simp add: release_proxy_def)
  then show ?thesis using release assms(4) by (cases "s_world s") (simp add: tcp_owns_mset [OF m])
next
  case (beat r p' w')
  then show ?thesis using assms(4) by (simp add: pool_heart_beat_def beat_loop_Tcp)
next
  case (rehash idle busy)
  then have m: "mset (connections_of \<lparr>m_connections_idle = idle, m_connections_busy = busy\<rparr>) = mset (connections_of (s_pool s))"
    by (simp add: connections_of_def)
  then show ?thesis using rehash assms(4) by (cases "s_world s") (simp add: tcp_owns_mset [OF m])
next
  case (use busy w')
  then have "uses_socket os s t" using assms(2) by blast
  then obtain k c x call h w1 w2 where u: "s_world s = (h, w1)" "called os (sock_fd (x :: CClientSocket)) call w1 = Some (Inr w2)"
    "t = s\<lparr>s_world := (h, w2)\<rparr>"
    unfolding uses_socket_def by blast
  from called_opened [OF u(2)] show ?thesis using assms(4) u(1,3) by (simp add: tcp_owns_def)
qed (use assms(4) in simp_all)

lemma run_owns:
  assumes "tcp_run os create_hostent ops s t" and "pool_wf (s_pool s)"
    and "case s_world s of (h, w) \<Rightarrow> tcp_owns opened B C (connections_of (s_pool s)) h w"
  shows "case s_world t of (h, w) \<Rightarrow> tcp_owns opened B C (connections_of (s_pool t)) h w"
  using assms
proof (induction rule: tcp_run.induct)
  case (cons x s t xs u)
  have "pool_wf (s_pool t)" using step_pool_wf [OF cons.hyps(1) cons.prems(1)] by blast
  with step_owns [OF cons.hyps(1,2) cons.prems(1,2)] cons.IH show ?case by simp
qed

lemma create_loop_owns:
  assumes "create_loop os create_hostent name port alloc ks cs h w = Inr (Ret cs', h', w')"
    and "tcp_owns opened B C (map snd cs) h w" and "fresh_counters h"
  shows "tcp_owns opened B C (map snd cs') h' w'"
  using assms
proof (induction ks arbitrary: cs h w)
  case (Cons k ks)
  obtain c h1 w1 where c: "Tcp_new os create_hostent (int k) name port h w = Inr (Ret c, h1, w1)"
    "create_loop os create_hostent name port alloc ks (cs @ [(alloc k, c)]) h1 w1 = Inr (Ret cs', h', w')"
    using Cons.prems(1) by (auto simp: fbind_eq_Inr_iff not_thrown split: outcome.splits)
  then obtain x where x: "Client_new os create_hostent name port h w = Inr (Ret x, h1, w1)" "client_socket c = Some x"
    by (auto simp: Tcp_new_def fbind_eq_Inr_iff not_thrown split: outcome.splits)
  note n = new_client [OF x(1), simplified] and s = client_new_counter [OF x(1)]
  have own: "tcp_owns opened B C (map snd cs) h w" by (rule Cons.prems(2))
  have "counters h (next_counter h) = None" using Cons.prems(3) by (simp add: fresh_counters_def)
  then have "next_counter h \<notin> set (refs (map snd cs))" "C (next_counter h) = None"
    using own by (auto simp: tcp_owns_def split: if_splits)
  with own n x(2) have "tcp_owns opened B C (map snd (cs @ [(alloc k, c)])) h1 w1"
    by (intro tcp_owns_new)
  moreover have "fresh_counters h1" using Cons.prems(3) n s by (auto simp: fresh_counters_def)
  ultimately show ?case using Cons.IH [OF c(2)] by blast
qed simp

text \<open>The end: nothing is left but what was there before.\<close>

lemma tcp_delete_owned:
  assumes "tcp_owns opened B C (c # cs) h w"
  shows "\<exists>h' w'. tcp_delete os c (h, w) = Inr (h', w') \<and> tcp_owns opened B C cs h' w'"
proof -
  obtain x where x: "client_socket c = Some x" using assms by (auto simp: tcp_owns_def)
  then have "counters h (refCounter x) = Some 1" using assms by (simp add: tcp_owns_def)
  then obtain h' w' where d: "Tcp_dtor os c h w = Inr (h', w')" "counters h' = (counters h)(refCounter x := None)"
    using x by (simp add: Tcp_dtor_def Tcp_disconnect_def Client_dtor_def Socket_dtor_def Socket.truncate_def Let_def)
  have o: "opened w' = opened w - {sock_fd x}" using tcp_dtor_opened [OF d(1)] x by simp
  note rest = tcp_owns_tail [OF assms x]
  have r: "refCounter x \<notin> set (refs cs)" "distinct (refs cs)" "C (refCounter x) = None"
    "counters h = (\<lambda>r. if r \<in> insert (refCounter x) (set (refs cs)) then Some 1 else C r)"
    "\<forall>r \<in> set (refs cs). C r = None" "\<forall>d \<in> set cs. client_socket d \<noteq> None" "\<forall>s \<in> opened w. 0 \<le> s"
    using assms x unfolding tcp_owns_def by simp_all
  have "counters h' = (\<lambda>r. if r \<in> set (refs cs) then Some 1 else C r)"
    unfolding d(2) r(4) using r(1,3) by (auto simp: fun_eq_iff)
  then have "tcp_owns opened B C cs h' w'"
    using r(2,5-7) rest o unfolding tcp_owns_def by (metis DiffD1)
  with d(1) show ?thesis by (simp add: tcp_delete_def)
qed

lemma delete_connections_owned:
  "tcp_owns opened B C (map snd m) h w \<Longrightarrow>
   \<exists>h' w'. delete_connections (tcp_delete os) m (h, w) = Inr (h', w') \<and> opened w' = B \<and> counters h' = C"
proof (induction m arbitrary: h w)
  case Nil
  then show ?case by (simp add: delete_connections_def tcp_owns_def)
next
  case (Cons n m)
  obtain k c where n: "n = (k, c)" by fastforce
  with Cons.prems obtain h1 w1 where d: "tcp_delete os c (h, w) = Inr (h1, w1)" "tcp_owns opened B C (map snd m) h1 w1"
    using tcp_delete_owned by (metis list.simps(9) snd_conv)
  from Cons.IH [OF d(2)] show ?case using d(1) n by (auto simp: delete_connections_def)
qed

end

section \<open>Properties\<close>

text \<open>C11: A pool of TCP connections gives everything back. From its creation, through any interleaving of
  lending, moving, giving back and heart beats, reconnections that fail included, and of the calls by
  which the holders send and receive on the sockets of the connections they were lent, the pool never has
  more than one open descriptor for each of its connections, and none of those that were open before is
  touched; and when it ends, its destructor raises no fault, every descriptor its connections opened
  is closed, and every counter is freed. (The calls of the holders are those that return within defined
  behaviour; holders do not reconnect, disconnect or copy the sockets themselves, and nobody else opens or closes descriptors meanwhile.)
\<close>

theorem tcp_pool_gives_everything_back:
  assumes "client_env os opened create_hostent" and "inj alloc" and "fresh_counters h" and "\<forall>s \<in> opened w. 0 \<le> s"
    and "create_tcp_pool os create_hostent num name port alloc h w = Inr (Ret p, h1, w1)"
    and "tcp_run os create_hostent ops \<lparr>s_pool = p, s_prox = Map.empty, s_world = (h1, w1)\<rparr> t"
  shows "opened w \<subseteq> opened (snd (s_world t)) \<and> card (opened (snd (s_world t)) - opened w) \<le> unat num \<and>
    (\<exists>h' w'. pool_dtor (tcp_delete os) (s_pool t) (s_world t) = Inr (h', w') \<and>
      opened w' = opened w \<and> counters h' = counters h)"
proof -
  let ?s = "\<lparr>s_pool = p, s_prox = Map.empty, s_world = (h1, w1)\<rparr>"
  obtain cs where cs: "create_loop os create_hostent name port alloc [0..<unat num] [] h w = Inr (Ret cs, h1, w1)"
    "p = new_pool cs"
    using assms(5) by (auto simp: create_tcp_pool_def fbind_eq_Inr_iff not_thrown split: outcome.splits)
  have "map fst cs = map alloc [0..<unat num]"
    using client_env.create_loop_opened [OF assms(1) cs(1), of "opened w"] by simp
  then have d: "distinct (map fst cs)" and n: "length cs = unat num"
    using assms(2) by (simp_all add: distinct_map inj_on_def inj_def, metis length_map length_upt minus_nat.diff_0)
  note k = new_pool_idle [OF d]
  have wf: "pool_wf p" and size: "pool_size p = unat num"
    using d n by (simp_all add: cs(2) pool_wf_def k new_pool_def [of cs, THEN arg_cong, of m_connections_busy]
        rev_map [symmetric] pool_size_def)
  have "tcp_owns opened (opened w) (counters h) (map snd cs) h1 w1"
    by (rule client_env.create_loop_owns [OF assms(1) cs(1) _ assms(3)]) (simp add: tcp_owns_def assms(4))
  moreover have m: "mset (connections_of p) = mset (map snd cs)"
    by (simp add: connections_of_def cs(2) k new_pool_def [of cs, THEN arg_cong, of m_connections_busy])
  ultimately have "tcp_owns opened (opened w) (counters h) (connections_of p) h1 w1"
    by (simp only: tcp_owns_mset [OF m])
  then have own: "tcp_owns opened (opened w) (counters h) (connections_of (s_pool t)) (fst (s_world t)) (snd (s_world t))"
    using client_env.run_owns [OF assms(1,6), of "opened w" "counters h"] wf by (simp add: case_prod_unfold)
  then have o: "opened (snd (s_world t)) - opened w = set (live_fds (connections_of (s_pool t)))"
    "opened w \<subseteq> opened (snd (s_world t))" by (auto simp: tcp_owns_def)
  have "pool_size (s_pool t) = unat num"
    using run_pool_wf [OF tcp_run_is_run [OF assms(6)]] wf size pool_size_card [of "s_pool t"] pool_size_card [of p] by simp
  then have "length (live_fds (connections_of (s_pool t))) \<le> unat num"
    using length_filter_le [of "\<lambda>s. s \<noteq> - 1" "map sock_fd (socks (connections_of (s_pool t)))"]
    by (simp add: live_fds_def socks_def connections_of_def pool_size_def)
  then have "card (opened (snd (s_world t)) - opened w) \<le> unat num"
    unfolding o(1) by (rule order_trans [OF card_length])
  moreover have "tcp_owns opened (opened w) (counters h)
      (map snd (m_connections_busy (s_pool t) @ m_connections_idle (s_pool t))) (fst (s_world t)) (snd (s_world t))"
    using own by (subst tcp_owns_mset [of _ "connections_of (s_pool t)"]) (simp_all add: connections_of_def)
  from client_env.delete_connections_owned [OF assms(1) this]
  have "\<exists>h' w'. pool_dtor (tcp_delete os) (s_pool t) (s_world t) = Inr (h', w') \<and>
      opened w' = opened w \<and> counters h' = counters h" by (simp add: pool_dtor_all)
  ultimately show ?thesis using o(2) by blast
qed

theorem tcp_pool_gives_everything_back_witness:
  "\<exists>p h1 w1 t h' w'. create_tcp_pool sim sim_hostent 2 ''10.0.0.1'' 9000 (\<lambda>k. k + 10) empty_heap boot = Inr (Ret p, h1, w1) \<and>
     tcp_run sim sim_hostent [Get 0, Use] \<lparr>s_pool = p, s_prox = Map.empty, s_world = (h1, w1)\<rparr> t \<and>
     size_busy (s_pool t) = 1 \<and> pool_dtor (tcp_delete sim) (s_pool t) (s_world t) = Inr (h', w') \<and>
     k_open w' = {} \<and> counters h' = Map.empty"
proof -
  obtain p h1 w1 px p' h2 w2 k c x where c: "create_tcp_pool sim sim_hostent 2 ''10.0.0.1'' 9000 (\<lambda>k. k + 10) empty_heap boot =
      Inr (Ret p, h1, w1)" and g: "get_connection (Tcp sim sim_hostent) p (h1, w1) = Inr (px, p', h2, w2)"
    "m_connections_busy p' = [(k, c)]" "client_socket c = Some x"
    by (simp add: create_tcp_pool_def Tcp_new_def sim_connects upt_rec new_pool_def um_emplace_def get_connection_def
        check_connect_def Tcp_def Tcp_connect_def Reconnect_def Close_def um_extract_def um_insert_def size_busy_def)
  let ?s = "\<lparr>s_pool = p, s_prox = Map.empty, s_world = (h1, w1)\<rparr>"
  let ?u = "?s\<lparr>s_pool := p', s_prox := (s_prox ?s)(0 \<mapsto> px), s_world := (h2, w2)\<rparr>"
  let ?t = "?u\<lparr>s_world := (h2, SendLine sim (sock_fd x) [72, 105] w2)\<rparr>"
  have "called sim (sock_fd x) (CallSendLine [72, 105]) w2 = Some (Inr (SendLine sim (sock_fd x) [72, 105] w2))" by simp
  then have use: "uses_socket sim ?u ?t"
    unfolding uses_socket_def using g(2,3) by (intro exI conjI) (assumption | simp)+
  have "step (Tcp sim sim_hostent) (Get 0) ?s ?u" by (rule step.get) (use g(1) in simp_all)
  then have run: "tcp_run sim sim_hostent [Get 0, Use] ?s ?t"
    by (rule tcp_run.cons [OF _ _ tcp_run.cons [OF socket_use_is_step [OF use] _ tcp_run.nil]]) (use use in simp_all)
  have "inj (\<lambda>k :: nat. k + 10)" "fresh_counters empty_heap" "\<forall>s \<in> k_open boot. 0 \<le> s"
    by (simp_all add: inj_def fresh_counters_def empty_heap_def boot_def)
  from tcp_pool_gives_everything_back [OF sim.client_env_axioms this c run]
  obtain h' w' where "pool_dtor (tcp_delete sim) (s_pool ?t) (s_world ?t) = Inr (h', w')"
    "k_open w' = {}" "counters h' = Map.empty" by (auto simp: boot_def empty_heap_def)
  moreover have "size_busy (s_pool ?t) = 1" using g(2) by (simp add: size_busy_def)
  ultimately show ?thesis using c run by blast
qed

text \<open>Why holders must not disconnect: \<open>disconnect\<close> leaves a null \<open>client_socket\<close>, which \<open>connect\<close> dereferences.
  A connection that was disconnected and given back ends the next \<open>get_connection\<close> that reaches it in
  undefined behaviour.\<close>

theorem disconnected_connection_faults:
  assumes "disconnect (Tcp os create_hostent) c v = Inr (r, c', v')" and "m_connections_idle p = (k, c') # others"
  shows "get_connection (Tcp os create_hostent) p u = Inl NullDeref"
proof -
  obtain h w where "v = (h, w)" by fastforce
  then have "client_socket c' = None"
    using assms(1) by (auto simp: Tcp_def Tcp_disconnect_def fbind_eq_Inr_iff)
  then show ?thesis
    using assms(2) by (cases u) (simp add: get_connection_def check_connect_def Tcp_def Tcp_connect_def)
qed

theorem disconnected_connection_faults_witness:
  "\<exists>c v. disconnect (Tcp sim sim_hostent) idle_tcp (empty_heap\<lparr>counters := [0 \<mapsto> 1]\<rparr>, boot) = Inr (Ret (), c, v) \<and>
     get_connection (Tcp sim sim_hostent) \<lparr>m_connections_idle = [(8, c)], m_connections_busy = []\<rparr> v = Inl NullDeref"
proof -
  obtain c v where d: "disconnect (Tcp sim sim_hostent) idle_tcp (empty_heap\<lparr>counters := [0 \<mapsto> 1]\<rparr>, boot) = Inr (Ret (), c, v)"
    by (simp add: Tcp_def Tcp_disconnect_def idle_tcp_def numeric_client_def named_client_def Client_dtor_def
        Socket_dtor_def Socket.truncate_def)
  from disconnected_connection_faults [OF d] d show ?thesis by auto
qed

end
