(* ===== verification/Socket_Select.thy ===== *)
theory Socket_Select
  imports Socket_Ops
begin

text \<open>
  \<open>SocketSelect\<close> (\<open>socket/SocketSelect.cpp\<close>, the POSIX branch): the constructor asks the system
  which of one or two sockets are readable, \<open>Readable\<close> looks the answer up. An \<open>fd_set\<close> is an array
  of \<open>FD_SETSIZE\<close> bits; \<open>FD_SET\<close> and \<open>FD_ISSET\<close> on a descriptor outside it leave the array.
\<close>

datatype TypeSocket = BlockingSocket | NonBlockingSocket

definition FD_SETSIZE :: int where "FD_SETSIZE = 1024"

definition fd_ok :: "int \<Rightarrow> bool" where
  "fd_ok s \<longleftrightarrow> 0 \<le> s \<and> s < FD_SETSIZE"

definition FD_SET :: "int \<Rightarrow> int set \<Rightarrow> fault + int set" where
  "FD_SET s fds = (if fd_ok s then Inr (insert s fds) else Inl OutOfBounds)"

text \<open>
  The exception that a failing \<open>select\<close> raises is caught in the constructor itself and logged, so the
  constructor always returns, with whatever the call left in \<open>fds_\<close>.
\<close>

definition SocketSelect_new ::
    "'w os \<Rightarrow> int \<Rightarrow> int option \<Rightarrow> TypeSocket \<Rightarrow> 'w \<Rightarrow> fault + (int set \<times> 'w)" where
  "SocketSelect_new os s1 s2 type w =
     fbind (FD_SET s1 {}) (\<lambda>fds.
     fbind (case s2 of None \<Rightarrow> Inr (fds, s1)
            | Some s2 \<Rightarrow> fbind (FD_SET s2 fds) (\<lambda>fds. Inr (fds, max s1 s2))) (\<lambda>(fds, max_fd).
       let tval = (if type = NonBlockingSocket then Some 1 else None);
           ((r, fds), w) = os_select os (max_fd + 1) fds tval w
       in Inr (fds, w)))"

definition Readable :: "int set \<Rightarrow> int \<Rightarrow> fault + bool" where
  "Readable fds s = (if fd_ok s then Inr (s \<in> fds) else Inl OutOfBounds)"

lemma SocketSelect_two:
  "fd_ok s1 \<Longrightarrow> fd_ok s2 \<Longrightarrow>
   SocketSelect_new os s1 (Some s2) NonBlockingSocket w =
     (case os_select os (max s1 s2 + 1) {s1, s2} (Some 1) w of ((r, fds), w') \<Rightarrow> Inr (fds, w'))"
  by (simp add: SocketSelect_new_def FD_SET_def insert_commute split: prod.splits)

lemma SocketSelect_outside:
  "\<not> fd_ok s1 \<or> \<not> fd_ok s2 \<Longrightarrow> SocketSelect_new os s1 (Some s2) type w = Inl OutOfBounds"
  by (auto simp: SocketSelect_new_def FD_SET_def)

lemma SocketSelect_returns:
  assumes "SocketSelect_new os s1 (Some s2) NonBlockingSocket w = Inr (fds, w')"
  shows "fd_ok s1 \<and> fd_ok s2 \<and> (\<exists>r. os_select os (max s1 s2 + 1) {s1, s2} (Some 1) w = ((r, fds), w'))"
proof -
  have "fd_ok s1" "fd_ok s2" using assms SocketSelect_outside by (metis Inl_Inr_False)+
  then show ?thesis using assms by (auto simp: SocketSelect_two split: prod.splits)
qed

end
