(* ===== verification/Server.thy ===== *)
theory Server
  imports Client Socket_Select
begin

text \<open>
  \<open>CServerSocket\<close> (\<open>socket/CServerSocket.h\<close> and \<open>.cpp\<close>) and the structures of
  \<open>config/EngineConstants.h\<close>: the listening socket, its listener thread, which accepts connections
  and hands each to the thread pool, and the task that serves one. The thread pool and the
  conversion of addresses to text (\<open>ProtocolHelper\<close>) are not part of the repository; a pushed task is
  the \<open>CLIENT_DATA\<close> it was given, and the conversion is the parameter \<open>ip_string\<close>.
\<close>

section \<open>Structures\<close>

record NODE_INFO =
  node_info :: string
  node_mode :: int

record CLIENT_DATA =
  client_port :: "int option"
  remote_addr :: "string option"
  cd_node_info :: string
  cd_mode :: int
  cd_client_socket :: "Socket slot"

definition NODE_INFO_SIZE :: nat where "NODE_INFO_SIZE = 255"

definition REMOTE_ADDR_SIZE :: nat where "REMOTE_ADDR_SIZE = 32"

text \<open>
  The server object. \<open>'r\<close> are the thread routines; \<open>listener\<close> is the argument that the listening
  thread was started with, once it was started.
\<close>

record 'r CServerSocket = Socket +
  m_ProtocolPort :: int
  max_connections :: int
  info :: NODE_INFO
  socket_address :: sockaddr_in
  thread_routine :: "'r option"
  listener :: "NODE_INFO option"

section \<open>Construction\<close>

text \<open>
  The base class has opened a socket already; the body opens another one and overwrites \<open>s_\<close> with
  it. An exception of the body runs \<open>~Socket\<close>, on the current value of \<open>s_\<close>. The result of
  \<open>make_nonblocking\<close> is ignored.
\<close>

definition Server_fail :: "'w os \<Rightarrow> string \<Rightarrow> Socket \<Rightarrow> heap \<Rightarrow> 'w \<Rightarrow> fault + ('a outcome \<times> heap \<times> 'w)" where
  "Server_fail os e base h w = fbind (Socket_dtor os base h w) (\<lambda>(h, w). Inr (Throw e, h, w))"

definition Server_new ::
    "'w os \<Rightarrow> int \<Rightarrow> int \<Rightarrow> TypeSocket \<Rightarrow> heap \<Rightarrow> 'w \<Rightarrow>
     fault + ('r CServerSocket outcome \<times> heap \<times> 'w)" where
  "Server_new os port num_of_connections type h w =
     (case Socket_new os h w of (r, h, w) \<Rightarrow>
        case r of Throw e \<Rightarrow> Inr (Throw e, h, w)
        | Ret base \<Rightarrow>
            let (s, w) = os_socket os w; base = base\<lparr>sock_fd := s\<rparr>
            in if s = INVALID_SOCKET then Server_fail os ''INVALID_SOCKET'' base h w
               else let (r, w) = os_reuseport os s w
               in if r < 0 then Server_fail os ''setsockopt(SO_REUSEADDR) failed'' base h w
               else let w = (if type = NonBlockingSocket then snd (make_nonblocking os s w) else w)
               in Inr (Ret (Socket.extend base
                    (CServerSocket.fields port num_of_connections \<lparr>node_info = [], node_mode = 0\<rparr>
                       \<lparr>sin_port = word_of_int port, sin_addr = 0\<rparr> None None)), h, w))"

section \<open>Opening\<close>

text \<open>\<open>pthread_create\<close> is given the address of the object's own \<open>info\<close>; its result is not looked at.\<close>

definition StartListeningThread ::
    "string \<Rightarrow> 'r \<Rightarrow> ('r, 'a) CServerSocket_scheme \<Rightarrow>
     fault + (bool \<times> ('r, 'a) CServerSocket_scheme)" where
  "StartListeningThread name routine this =
     fbind (strcpy NODE_INFO_SIZE name) (\<lambda>name.
       let i = \<lparr>node_info = name, node_mode = 1\<rparr>
       in Inr (True, this\<lparr>info := i, thread_routine := Some routine, listener := Some i\<rparr>))"

definition Server_Open ::
    "'w os \<Rightarrow> string \<Rightarrow> 'r \<Rightarrow> ('r, 'a) CServerSocket_scheme \<Rightarrow> 'w \<Rightarrow>
     fault + (bool outcome \<times> ('r, 'a) CServerSocket_scheme \<times> 'w)" where
  "Server_Open os name routine this w =
     (let (r, w) = os_bind os (sock_fd this) (socket_address this) w
      in if r = - 1 then Inr (Throw ''INVALID_SOCKET'', this, Close os (sock_fd this) w)
         else let (r, w) = os_listen os (sock_fd this) (max_connections this) w
         in if r = - 1 then Inr (Throw ''LISTEN_ERROR'', this, w)
         else fbind (StartListeningThread name routine this) (\<lambda>(b, this). Inr (Ret b, this, w)))"

section \<open>Accepting\<close>

definition Accept ::
    "'w os \<Rightarrow> ('r, 'a) CServerSocket_scheme \<Rightarrow> heap \<Rightarrow> 'w \<Rightarrow> Socket option outcome \<times> heap \<times> 'w" where
  "Accept os this h w =
     (let (new_sock, w) = os_accept os (sock_fd this) w
      in if new_sock = INVALID_SOCKET then
           (if os_errno os w = EWOULDBLOCK \<or> os_errno os w = EAGAIN then (Ret None, h, w)
            else (Throw ''Invalid Socket'', h, w))
         else let (r, h) = Socket_adopt new_sock h in (Ret (Some r), h, w))"

text \<open>
  One round of the listener thread. \<open>Accept\<close> may answer a null pointer, which the loop dereferences.
  The address that is recorded as the remote one is that of the listening socket itself.
\<close>

definition listen_round ::
    "'w os \<Rightarrow> (sockaddr_in \<Rightarrow> string) \<Rightarrow> NODE_INFO \<Rightarrow> ('r, 'a) CServerSocket_scheme \<Rightarrow> heap \<Rightarrow> 'w \<Rightarrow>
     fault + (CLIENT_DATA outcome \<times> heap \<times> 'w)" where
  "listen_round os ip_string i this h w =
     (case Accept os this h w of (r, h, w) \<Rightarrow>
        case r of Throw e \<Rightarrow> Inr (Throw e, h, w)
        | Ret None \<Rightarrow> Inl NullDeref
        | Ret (Some new_sock) \<Rightarrow>
            fbind (strcpy REMOTE_ADDR_SIZE (ip_string (socket_address this))) (\<lambda>ip.
              Inr (Ret \<lparr>client_port = Some (sock_fd new_sock), remote_addr = Some ip,
                        cd_node_info = node_info i, cd_mode = node_mode i,
                        cd_client_socket = Ptr new_sock\<rparr>, h, w)))"

text \<open>
  \<open>ListenThreadProc\<close> repeats this for ever; \<open>listen_rounds n\<close> are its first \<open>n\<close> rounds, with the
  tasks they push, in order. An exception leaves the thread.
\<close>

fun listen_rounds ::
    "'w os \<Rightarrow> (sockaddr_in \<Rightarrow> string) \<Rightarrow> NODE_INFO \<Rightarrow> ('r, 'a) CServerSocket_scheme \<Rightarrow> nat \<Rightarrow>
     CLIENT_DATA list \<Rightarrow> heap \<Rightarrow> 'w \<Rightarrow> fault + (unit outcome \<times> CLIENT_DATA list \<times> heap \<times> 'w)" where
  "listen_rounds os ip i this 0 pushed h w = Inr (Ret (), pushed, h, w)"
| "listen_rounds os ip i this (Suc n) pushed h w =
     fbind (listen_round os ip i this h w) (\<lambda>(r, h, w).
       case r of Throw e \<Rightarrow> Inr (Throw e, pushed, h, w)
       | Ret d \<Rightarrow> listen_rounds os ip i this n (pushed @ [d]) h w)"

section \<open>Serving one connection\<close>

text \<open>
  The pushed task: \<open>ClientThreadProc\<close> calls the thread routine and swallows its exceptions, then the
  client data are deleted. The client's \<open>Socket\<close> object, which was allocated for this connection, is
  not.
\<close>

type_synonym 's routine = "CLIENT_DATA \<Rightarrow> 's \<Rightarrow> (fault + (unit outcome \<times> 's)) option"

definition ClientThreadProc :: "'s routine \<Rightarrow> CLIENT_DATA \<Rightarrow> 's \<Rightarrow> (fault + 's) option" where
  "ClientThreadProc routine d s =
     map_option (\<lambda>r. fbind r (\<lambda>(q, s). Inr s)) (routine d s)"

section \<open>Descriptors of a server\<close>

text \<open>
  What the listener is to push: the descriptors that \<open>n\<close> calls of \<open>accept\<close> return, one after the other, and
  the task for one of them, whose \<open>Socket\<close> has the counter \<open>c\<close>.
\<close>

fun accepted :: "'w os \<Rightarrow> int \<Rightarrow> nat \<Rightarrow> 'w \<Rightarrow> int list \<times> 'w" where
  "accepted os l 0 w = ([], w)"
| "accepted os l (Suc n) w =
     (case os_accept os l w of (s, w) \<Rightarrow> case accepted os l n w of (ss, w) \<Rightarrow> (s # ss, w))"

definition task_for :: "NODE_INFO \<Rightarrow> string \<Rightarrow> nat \<times> int \<Rightarrow> CLIENT_DATA" where
  "task_for i ip = (\<lambda>(c, s).
     \<lparr>client_port = Some s, remote_addr = Some ip, cd_node_info = node_info i, cd_mode = node_mode i,
      cd_client_socket = Ptr \<lparr>sock_fd = s, refCounter = c\<rparr>\<rparr>)"

context fd_table begin

text \<open>Whatever the constructor does, the socket of the base class stays open.\<close>

lemma server_new_leaks:
  assumes "Server_new os port n BlockingSocket h w = Inr (r, h', w')"
    and "os_socket os w = (s0, w0)" and "s0 \<noteq> - 1" and "- 1 \<notin> opened w"
  shows "s0 \<in> opened w' \<and> s0 \<notin> opened w \<and>
    (case r of
      Ret server \<Rightarrow> sock_fd server \<noteq> s0 \<and> opened w' = {s0, sock_fd server} \<union> opened w
    | Throw e \<Rightarrow> opened w' = insert s0 (opened w))"
proof -
  let ?h = "h\<lparr>nofSockets := nofSockets h + 1, counters := (counters h)(next_counter h \<mapsto> 1),
      next_counter := Suc (next_counter h)\<rparr>"
  have b: "Socket_new os h w = (Ret \<lparr>sock_fd = s0, refCounter = next_counter h\<rparr>, ?h, w0)"
    using assms(2,3)
    by (simp add: Socket_new_def CreateSocket_def INVALID_SOCKET_def Start_def new_counter_def Let_def)
  have o0: "0 \<le> s0" "s0 \<notin> opened w" "opened w0 = insert s0 (opened w)"
    using socket_opens [OF assms(2)] assms(3) by auto
  obtain s1 w1 where s1: "os_socket os w0 = (s1, w1)" by fastforce
  have fail: "r = Throw e \<and> w' = Close os s1 v"
    if "Server_fail os e (\<lparr>sock_fd = s0, refCounter = next_counter h\<rparr>\<lparr>sock_fd := s1\<rparr>) ?h v = Inr (r, h', w')" for e v
    using that by (auto simp: Server_fail_def Socket_dtor_def Let_def)
  show ?thesis
  proof (cases "s1 = - 1")
    case True
    then have "r = Throw ''INVALID_SOCKET'' \<and> w' = Close os s1 w1"
      using assms(1) b s1 by (intro fail) (simp add: Server_new_def INVALID_SOCKET_def)
    then show ?thesis
      using socket_opens [OF s1] True o0 close_opened [of s1 w1] assms(4) by auto
  next
    case False
    then have o1: "s1 \<noteq> s0" "s1 \<notin> opened w" "opened w1 = insert s1 (opened w0)"
      using socket_opens [OF s1] o0 by auto
    obtain q w2 where q: "os_reuseport os s1 w1 = (q, w2)" by fastforce
    note o2 = option_keeps [OF q]
    show ?thesis
    proof (cases "q < 0")
      case True
      then have "r = Throw ''setsockopt(SO_REUSEADDR) failed'' \<and> w' = Close os s1 w2"
        using assms(1) b s1 False q by (intro fail) (simp add: Server_new_def INVALID_SOCKET_def)
      then show ?thesis using o0 o1 o2 close_opened [of s1 w2] by auto
    next
      case no: False
      then show ?thesis
        using assms(1) b s1 False q o0 o1 o2
        by (auto simp: Server_new_def INVALID_SOCKET_def Socket.extend_def)
    qed
  qed
qed

text \<open>One round of the listener: the connection it accepts is new and stays open, with a counter of 1.\<close>

lemma listen_round_opened:
  assumes "listen_round os ip i this h w = Inr (r, h', w')"
  shows "case r of Throw e \<Rightarrow> opened w' = opened w \<and> h' = h
    | Ret d \<Rightarrow> \<exists>s. client_port d = Some s \<and> 0 \<le> s \<and> s \<notin> opened w \<and> opened w' = insert s (opened w) \<and>
        cd_client_socket d = Ptr \<lparr>sock_fd = s, refCounter = next_counter h\<rparr> \<and>
        counters h' (next_counter h) = Some 1 \<and>
        map_option Inr (remote_addr d) = Some (strcpy REMOTE_ADDR_SIZE (ip (socket_address this))) \<and>
        cd_node_info d = node_info i \<and> cd_mode d = node_mode i"
proof -
  obtain s w1 where s: "os_accept os (sock_fd this) w = (s, w1)" by fastforce
  show ?thesis
    using assms accept_opens [OF s] s
    by (auto simp: listen_round_def Accept_def INVALID_SOCKET_def Socket_adopt_def Start_def
        new_counter_def Let_def fbind_eq_Inr_iff split: if_splits)
qed

lemma listen_round_task:
  assumes "listen_round os ip i this h w = Inr (Ret d, h', w')"
  shows "\<exists>s a. os_accept os (sock_fd this) w = (s, w') \<and> strcpy REMOTE_ADDR_SIZE (ip (socket_address this)) = Inr a \<and>
    d = task_for i a (next_counter h, s) \<and> next_counter h' = Suc (next_counter h) \<and>
    counters h' = (counters h)(next_counter h \<mapsto> 1)"
  using assms
  by (auto simp: listen_round_def Accept_def Socket_adopt_def Start_def new_counter_def Let_def fbind_eq_Inr_iff
      task_for_def split: if_splits prod.splits)

lemma listen_round_throws:
  assumes "listen_round os ip i this h w = Inr (Throw e, h', w')"
  shows "os_accept os (sock_fd this) w = (- 1, w')"
  using assms
  by (auto simp: listen_round_def Accept_def INVALID_SOCKET_def Let_def fbind_eq_Inr_iff split: if_splits prod.splits)

lemma listen_rounds_pushed:
  assumes "listen_rounds os ip i this n pushed h w = Inr (r, pushed', h', w')"
  shows "\<exists>fds v a. accepted os (sock_fd this) (length fds) w = (fds, v) \<and>
    pushed' = pushed @ map (task_for i a) (enumerate (next_counter h) fds) \<and>
    (fds \<noteq> [] \<longrightarrow> strcpy REMOTE_ADDR_SIZE (ip (socket_address this)) = Inr a) \<and>
    distinct fds \<and> set fds \<inter> opened w = {} \<and> opened w' = set fds \<union> opened w \<and>
    (\<forall>c < next_counter h + length fds. counters h' c = (if next_counter h \<le> c then Some 1 else counters h c)) \<and>
    (case r of Ret _ \<Rightarrow> length fds = n \<and> w' = v
     | Throw e \<Rightarrow> length fds < n \<and> os_accept os (sock_fd this) v = (- 1, w'))"
  using assms
proof (induction n arbitrary: pushed h w)
  case 0
  then show ?case by (intro exI [of _ "[]"]) auto
next
  case (Suc n)
  obtain q h1 w1 where q: "listen_round os ip i this h w = Inr (q, h1, w1)"
    using Suc.prems by (auto simp: fbind_eq_Inr_iff)
  show ?case
  proof (cases q)
    case (Throw e)
    then show ?thesis
      using Suc.prems q listen_round_opened [OF q] listen_round_throws [of ip i this h w e h1 w1]
      by (intro exI [of _ "[]"] exI [of _ w]) auto
  next
    case (Ret d)
    then have "listen_rounds os ip i this n (pushed @ [d]) h1 w1 = Inr (r, pushed', h', w')"
      using Suc.prems q by simp
    from Suc.IH [OF this] obtain fds v a' where n: "accepted os (sock_fd this) (length fds) w1 = (fds, v)"
      "pushed' = (pushed @ [d]) @ map (task_for i a') (enumerate (next_counter h1) fds)"
      "fds \<noteq> [] \<longrightarrow> strcpy REMOTE_ADDR_SIZE (ip (socket_address this)) = Inr a'"
      "distinct fds" "set fds \<inter> opened w1 = {}" "opened w' = set fds \<union> opened w1"
      "\<forall>c < next_counter h1 + length fds. counters h' c = (if next_counter h1 \<le> c then Some 1 else counters h1 c)"
      "case r of Ret _ \<Rightarrow> length fds = n \<and> w' = v | Throw e \<Rightarrow> length fds < n \<and> os_accept os (sock_fd this) v = (- 1, w')"
      by blast
    obtain s a where s: "os_accept os (sock_fd this) w = (s, w1)" "strcpy REMOTE_ADDR_SIZE (ip (socket_address this)) = Inr a"
      "d = task_for i a (next_counter h, s)" "next_counter h1 = Suc (next_counter h)"
      "counters h1 = (counters h)(next_counter h \<mapsto> 1)"
      using listen_round_task [OF q [unfolded Ret]] by blast
    have new: "s \<notin> opened w" "opened w1 = insert s (opened w)"
      using listen_round_opened [OF q] Ret s(3) by (auto simp: task_for_def)
    have a: "map (task_for i a') (enumerate (next_counter h1) fds) = map (task_for i a) (enumerate (next_counter h1) fds)"
      using n(3) s(2) by (cases "fds = []") simp_all
    have "accepted os (sock_fd this) (length (s # fds)) w = (s # fds, v)" using s(1) n(1) by simp
    moreover have "pushed' = pushed @ map (task_for i a) (enumerate (next_counter h) (s # fds))"
      unfolding n(2) a using s(3,4) by simp
    moreover have "distinct (s # fds)" "set (s # fds) \<inter> opened w = {}" "opened w' = set (s # fds) \<union> opened w"
      using n(4-6) new by auto
    moreover have "\<forall>c < next_counter h + length (s # fds). counters h' c = (if next_counter h \<le> c then Some 1 else counters h c)"
      using n(7) s(4,5) by auto
    moreover have "case r of Ret _ \<Rightarrow> length (s # fds) = Suc n \<and> w' = v
        | Throw e \<Rightarrow> length (s # fds) < Suc n \<and> os_accept os (sock_fd this) v = (- 1, w')"
      using n(8) by (cases r) simp_all
    ultimately show ?thesis using s(2) by blast
  qed
qed

end

end
