(* ===== verification/Server_Theorems.thy ===== *)
theory Server_Theorems
  imports Server
begin

text \<open>Properties of the listening socket and of its listener thread.\<close>

text \<open>Constructing a blocking server opens two descriptors and keeps one. The base class has opened
  a socket when the constructor overwrites \<open>s_\<close> with a second one; that first descriptor is still
  open after the constructor returns, and after it throws, and no object refers to it.
\<close>

theorem server_construction_leaks_descriptor:
  assumes "fd_table os opened"
    and "Server_new os port n BlockingSocket h w = Inr (r, h', w')"
    and "os_socket os w = (s0, w0)" and "s0 \<noteq> - 1" and "- 1 \<notin> opened w"
  shows "s0 \<in> opened w' \<and> s0 \<notin> opened w \<and>
    (case r of
      Ret server \<Rightarrow> sock_fd server \<noteq> s0 \<and> opened w' = {s0, sock_fd server} \<union> opened w
    | Throw e \<Rightarrow> opened w' = insert s0 (opened w))"
  by (rule fd_table.server_new_leaks [OF assms])

definition sample_server :: "unit CServerSocket" where
  "sample_server = \<lparr>sock_fd = 4, refCounter = 0, m_ProtocolPort = 9000, max_connections = 128,
     info = \<lparr>node_info = [], node_mode = 0\<rparr>, socket_address = \<lparr>sin_port = 9000, sin_addr = 0\<rparr>,
     thread_routine = None, listener = None\<rparr>"

lemmas server_eval = Server_new_def Socket_new_def CreateSocket_def Start_def new_counter_def
  INVALID_SOCKET_def sim_def sim_open_def boot_def empty_heap_def Let_def

theorem server_construction_leaks_descriptor_witness:
  "\<exists>(server :: unit CServerSocket) h w.
     Server_new sim 9000 128 BlockingSocket empty_heap boot = Inr (Ret server, h, w) \<and>
     3 \<in> k_open w \<and> sock_fd server \<noteq> 3"
proof -
  obtain server :: "unit CServerSocket" and h w where
    r: "Server_new sim 9000 128 BlockingSocket empty_heap boot = Inr (Ret server, h, w)"
    by (simp add: server_eval)
  have "os_socket sim boot = (3, fst (id (snd (os_socket sim boot), ())))" by (simp add: server_eval)
  from server_construction_leaks_descriptor [OF sim.fd_table_axioms r this]
  show ?thesis using r by (auto simp: boot_def)
qed

text \<open>Opening a server. When \<open>bind\<close> fails the descriptor is closed and an exception is thrown; when
  \<open>listen\<close> fails the exception is thrown with the descriptor still open. Otherwise, if the name of
  the node fits its array, the listening thread is started on the object's own node information, with
  the routine it was given.
\<close>

theorem server_open_spec:
  assumes "fd_table os opened"
    and "os_bind os (sock_fd this) (socket_address this) w = (b, w1)"
    and "os_listen os (sock_fd this) (max_connections this) w1 = (l, w2)"
  shows "if b = - 1 then \<exists>w'. Server_Open os name routine this w = Inr (Throw ''INVALID_SOCKET'', this, w') \<and>
       opened w' = opened w - {sock_fd this}
     else if l = - 1 then Server_Open os name routine this w = Inr (Throw ''LISTEN_ERROR'', this, w2) \<and>
       opened w2 = opened w
     else case strcpy NODE_INFO_SIZE name of
       Inl e \<Rightarrow> Server_Open os name routine this w = Inl OutOfBounds
     | Inr copied \<Rightarrow> \<exists>this'. Server_Open os name routine this w = Inr (Ret True, this', w2) \<and>
         listener this' = Some \<lparr>node_info = copied, node_mode = 1\<rparr> \<and>
         thread_routine this' = Some routine \<and> sock_fd this' = sock_fd this \<and> opened w2 = opened w"
proof -
  have o: "opened w1 = opened w" "opened w2 = opened w1"
    using fd_table.bind_keeps [OF assms(1,2)] fd_table.listen_keeps [OF assms(1,3)] by simp_all
  have "strcpy k name = Inl e \<Longrightarrow> e = OutOfBounds" for k e
    by (auto simp: strcpy_def Let_def split: if_splits)
  then show ?thesis
    using assms(2,3) o fd_table.close_opened [OF assms(1), of "sock_fd this" w1]
    by (auto simp: Server_Open_def StartListeningThread_def Let_def split: sum.split)
qed

theorem server_open_spec_witness:
  "\<exists>this'. Server_Open sim ''node'' () sample_server boot = Inr (Ret True, this', boot) \<and>
     listener this' = Some \<lparr>node_info = ''node'', node_mode = 1\<rparr>"
proof -
  have "strcpy NODE_INFO_SIZE ''node'' = Inr ''node''" by (simp add: strcpy_def NODE_INFO_SIZE_def)
  moreover have "os_bind sim (sock_fd sample_server) (socket_address sample_server) boot = (0, boot)"
    "os_listen sim (sock_fd sample_server) (max_connections sample_server) boot = (0, boot)"
    by (simp_all add: sim_def)
  from server_open_spec [OF sim.fd_table_axioms this, of "''node''" "()"]
  have "case strcpy NODE_INFO_SIZE ''node'' of
       Inl e \<Rightarrow> Server_Open sim ''node'' () sample_server boot = Inl OutOfBounds
     | Inr copied \<Rightarrow> \<exists>this'. Server_Open sim ''node'' () sample_server boot = Inr (Ret True, this', boot) \<and>
         listener this' = Some \<lparr>node_info = copied, node_mode = 1\<rparr> \<and>
         thread_routine this' = Some () \<and> sock_fd this' = sock_fd sample_server \<and> k_open boot = k_open boot"
    by simp
  ultimately show ?thesis by auto
qed

text \<open>C16: The listener pushes one task per accepted connection, in the order of acceptance. The tasks of the
  first \<open>n\<close> rounds are those for the descriptors that as many calls of \<open>accept\<close> on the listening socket
  return, one after the other, in this order (\<open>accepted\<close>, \<open>task_for\<close>): the \<open>j\<close>-th has the \<open>j\<close>-th descriptor
  and owns a new \<open>Socket\<close> on it, with a reference counter of its own, at 1, and carries the node
  information that the thread was started with and, as the address of its client, the address of the
  listening socket itself. The descriptors are distinct, were not open before and stay open. The rounds
  are \<open>n\<close> unless an exception left the thread, and that was a call of \<open>accept\<close> that failed.
\<close>

theorem listener_pushes_accepted_connections:
  assumes "fd_table os opened"
    and "listen_rounds os ip i this n [] h w = Inr (r, tasks, h', w')"
  shows "\<exists>fds v a. accepted os (sock_fd this) (length fds) w = (fds, v) \<and>
    tasks = map (task_for i a) (enumerate (next_counter h) fds) \<and>
    (fds \<noteq> [] \<longrightarrow> strcpy REMOTE_ADDR_SIZE (ip (socket_address this)) = Inr a) \<and>
    distinct fds \<and> set fds \<inter> opened w = {} \<and> opened w' = set fds \<union> opened w \<and>
    (\<forall>c < next_counter h + length fds. counters h' c = (if next_counter h \<le> c then Some 1 else counters h c)) \<and>
    (case r of Ret _ \<Rightarrow> length fds = n \<and> w' = v
     | Throw e \<Rightarrow> length fds < n \<and> os_accept os (sock_fd this) v = (- 1, w'))"
  using fd_table.listen_rounds_pushed [OF assms] by simp

text \<open>A round of the listener leaves defined behaviour in exactly two cases: when \<open>accept\<close> reports
  that no connection is waiting, as it does on a non-blocking listener, for \<open>Accept\<close> then answers a
  null pointer that the round dereferences; and when a connection was accepted and the text of the
  listener's address does not fit the 32 bytes of \<open>remote_addr\<close>.
\<close>

theorem listener_faults_iff:
  assumes "os_accept os (sock_fd this) w = (s, w1)"
  shows "listen_round os ip i this h w = Inl e \<longleftrightarrow>
    e = NullDeref \<and> s = - 1 \<and> os_errno os w1 \<in> {EWOULDBLOCK, EAGAIN} \<or>
    e = OutOfBounds \<and> s \<noteq> - 1 \<and>
      REMOTE_ADDR_SIZE \<le> length (takeWhile (\<lambda>c. c \<noteq> CHR 0x00) (ip (socket_address this)))"
  using assms
  by (auto simp: listen_round_def Accept_def INVALID_SOCKET_def Socket_adopt_def new_counter_def Let_def
      fbind_eq_Inl_iff strcpy_def split: if_splits)

theorem listener_faults_iff_witness:
  "listen_round sim (\<lambda>a. ''0.0.0.0'') \<lparr>node_info = [], node_mode = 1\<rparr> sample_server empty_heap boot =
     Inl NullDeref"
proof -
  have "os_accept sim (sock_fd sample_server) boot = (- 1, boot\<lparr>k_errno := EAGAIN\<rparr>)"
    by (simp add: sim_def boot_def)
  from iffD2 [OF listener_faults_iff [OF this, of _ _ empty_heap NullDeref]] show ?thesis
    by (simp add: sim_def)
qed

lemma sim_listen_round:
  assumes "os_accept os = os_accept sim" and "k_accept w = c # cs" and "0 \<le> c" and "c \<notin> k_open w"
    and "strcpy REMOTE_ADDR_SIZE (ip (socket_address this)) = Inr a"
  shows "\<exists>d h'. listen_round os ip i this h w =
      Inr (Ret d, h', w\<lparr>k_accept := cs, k_open := insert c (k_open w)\<rparr>) \<and>
    client_port d = Some c \<and> remote_addr d = Some a"
proof -
  have "os_accept os (sock_fd this) w = (c, w\<lparr>k_accept := cs, k_open := insert c (k_open w)\<rparr>)"
    using assms(1-4) by (simp add: sim_def sim_open_def)
  then show ?thesis
    using assms(3,5)
    by (simp add: listen_round_def Accept_def INVALID_SOCKET_def Socket_adopt_def new_counter_def Let_def)
qed

theorem listener_pushes_accepted_connections_witness:
  "\<exists>r tasks h' w'.
     listen_rounds sim (\<lambda>a. ''0.0.0.0'') \<lparr>node_info = ''n'', node_mode = 1\<rparr> sample_server 2 [] empty_heap
       (boot\<lparr>k_accept := [7, 9]\<rparr>) = Inr (r, tasks, h', w') \<and>
     tasks = map (task_for \<lparr>node_info = ''n'', node_mode = 1\<rparr> ''0.0.0.0'') [(0, 7), (1, 9)] \<and> k_open w' = {7, 9}"
proof -
  have a: "strcpy REMOTE_ADDR_SIZE ''0.0.0.0'' = Inr ''0.0.0.0''"
    by (simp add: strcpy_def REMOTE_ADDR_SIZE_def)
  let ?ip = "\<lambda>a. ''0.0.0.0''" and ?i = "\<lparr>node_info = ''n'', node_mode = 1\<rparr>"
  obtain d h where d: "listen_round sim ?ip ?i sample_server empty_heap (boot\<lparr>k_accept := [7, 9]\<rparr>) =
      Inr (Ret d, h, boot\<lparr>k_accept := [9], k_open := {7}\<rparr>)"
    "client_port d = Some 7" "remote_addr d = Some ''0.0.0.0''"
    using sim_listen_round [of sim "boot\<lparr>k_accept := [7, 9]\<rparr>" 7 "[9]" ?ip, OF refl _ _ _ a]
    by (fastforce simp: boot_def)
  obtain d' h' where d': "listen_round sim ?ip ?i sample_server h (boot\<lparr>k_accept := [9], k_open := {7}\<rparr>) =
      Inr (Ret d', h', boot\<lparr>k_accept := [], k_open := {9, 7}\<rparr>)"
    "client_port d' = Some 9" "remote_addr d' = Some ''0.0.0.0''"
    using sim_listen_round [of sim "boot\<lparr>k_accept := [9], k_open := {7}\<rparr>" 9 "[]" ?ip, OF refl _ _ _ a]
    by (fastforce simp: boot_def)
  have run: "listen_rounds sim ?ip ?i sample_server 2 [] empty_heap (boot\<lparr>k_accept := [7, 9]\<rparr>) =
      Inr (Ret (), [d, d'], h', boot\<lparr>k_accept := [], k_open := {9, 7}\<rparr>)"
    by (simp add: eval_nat_numeral d(1) d'(1))
  have acc1: "os_accept sim l (boot\<lparr>k_accept := [7, 9]\<rparr>) = (7, boot\<lparr>k_accept := [9], k_open := {7}\<rparr>)"
    and acc2: "os_accept sim l (boot\<lparr>k_accept := [9], k_open := {7}\<rparr>) = (9, boot\<lparr>k_accept := [], k_open := {9, 7}\<rparr>)" for l
    by (simp_all add: sim_def sim_open_def boot_def)
  have acc: "accepted sim (sock_fd sample_server) 2 (boot\<lparr>k_accept := [7, 9]\<rparr>) =
      ([7, 9], boot\<lparr>k_accept := [], k_open := {9, 7}\<rparr>)"
    using acc1 acc2 by (simp add: numeral_2_eq_2)
  from listener_pushes_accepted_connections [OF sim.fd_table_axioms run] obtain fds v b where
    f: "accepted sim (sock_fd sample_server) (length fds) (boot\<lparr>k_accept := [7, 9]\<rparr>) = (fds, v)"
    "[d, d'] = map (task_for ?i b) (enumerate (next_counter empty_heap) fds)"
    "fds \<noteq> [] \<longrightarrow> strcpy REMOTE_ADDR_SIZE ''0.0.0.0'' = Inr b" "length fds = 2"
    unfolding outcome.case by (elim exE conjE) (rule that)
  have "fds = [7, 9]" using f(1) acc unfolding f(4) by simp
  moreover from this have "b = ''0.0.0.0''" using f(3) a by simp
  ultimately have t: "[d, d'] = map (task_for ?i ''0.0.0.0'') [(0, 7), (1, 9)]" using f(2) by (simp add: empty_heap_def)
  have o: "k_open (boot\<lparr>k_accept := [], k_open := {9, 7}\<rparr>) = {7, 9}" by auto
  show ?thesis by (intro exI) (rule conjI [OF run conjI [OF t o]])
qed

end
