(* ===== verification/Relay.thy ===== *)
theory Relay
  imports Socket_Select
begin

text \<open>
  The forwarding of a proxy session (the bodies of \<open>CProxySocket::ThreadHandler\<close> and
  \<open>LibuvProxySocket::ThreadHandler\<close>): the \<open>CProxyHandler\<close> interface, one direction of one round
  (\<open>forward\<close>), the rounds of the two proxies and the loop around them (\<open>pump\<close>). The locale \<open>relay\<close> states
  what one round must do; both proxies provide it, and the theorem about whole sessions is proved
  once in it.
\<close>

section \<open>Handlers\<close>

text \<open>
  \<open>CProxyHandler\<close> is an abstract class; its implementations are outside the repository. \<open>'x\<close> is the
  state they keep, with the \<open>EXECUTION_CONTEXT\<close> of the session. Either method may throw.
\<close>

type_synonym 'x handling = "bytes \<Rightarrow> int \<Rightarrow> 'x \<Rightarrow> bytes outcome \<times> 'x"

record 'x CProxyHandler =
  HandleUpstreamData :: "'x handling"
  HandleDownStreamData :: "'x handling"

section \<open>One round\<close>

text \<open>
  The two halves of a round have the same body. The length of the answer goes through the \<open>int\<close>
  parameter of \<open>SendBytes\<close>. An exception of the handler ends the half before \<open>still_connected\<close> is
  looked after.
\<close>

definition forward ::
    "'w os \<Rightarrow> 'x handling \<Rightarrow> int \<Rightarrow> int \<Rightarrow> int set \<Rightarrow> bool \<Rightarrow> 'x \<times> 'w \<Rightarrow>
     (fault + (bool \<times> 'x \<times> 'w)) option" where
  "forward os handle s_from s_to fds still_connected xw =
     (case Readable fds s_from of
        Inl e \<Rightarrow> Some (Inl e)
      | Inr False \<Rightarrow> Some (Inr (still_connected, xw))
      | Inr True \<Rightarrow>
          (case xw of (x, w) \<Rightarrow>
           Option.bind (ReceiveBytes os s_from w) (\<lambda>(bs, w).
             case handle bs (int (length bs)) x of (r, x) \<Rightarrow>
               case r of
                 Throw e \<Rightarrow> Some (Inr (still_connected, x, w))
               | Ret response \<Rightarrow>
                   Some (fbind (SendBytes os s_to response
                                  (sint (word_of_nat (length response) :: u32)) w) (\<lambda>w.
                     Inr (if bs = [] then False else still_connected, x, w))))))"

definition upstream_half ::
    "'w os \<Rightarrow> 'x CProxyHandler \<Rightarrow> int \<Rightarrow> int \<Rightarrow> int set \<Rightarrow> 'x \<times> 'w \<Rightarrow>
     (fault + (bool \<times> 'x \<times> 'w)) option" where
  "upstream_half os ph client target fds =
     forward os (HandleUpstreamData ph) client target fds True"

definition downstream_half ::
    "'w os \<Rightarrow> 'x CProxyHandler \<Rightarrow> int \<Rightarrow> int \<Rightarrow> int set \<Rightarrow> bool \<Rightarrow> 'x \<times> 'w \<Rightarrow>
     (fault + (bool \<times> 'x \<times> 'w)) option" where
  "downstream_half os ph client target fds still_connected =
     forward os (HandleDownStreamData ph) target client fds still_connected"

text \<open>One round of \<open>CProxySocket\<close>; it answers \<open>still_connected\<close>.\<close>

definition proxy_round ::
    "'w os \<Rightarrow> 'x CProxyHandler \<Rightarrow> int \<Rightarrow> int \<Rightarrow> 'x \<times> 'w \<Rightarrow> (fault + (bool \<times> 'x \<times> 'w)) option" where
  "proxy_round os ph client target xw =
     (case SocketSelect_new os client (Some target) NonBlockingSocket (snd xw) of
        Inl e \<Rightarrow> Some (Inl e)
      | Inr (fds, w) \<Rightarrow>
          Option.bind (upstream_half os ph client target fds (fst xw, w)) (\<lambda>r.
            case r of Inl e \<Rightarrow> Some (Inl e)
            | Inr (still_connected, xw) \<Rightarrow>
                downstream_half os ph client target fds still_connected xw))"

text \<open>The round of \<open>LibuvProxySocket\<close> is written out with the same calls.\<close>

definition libuv_round ::
    "'w os \<Rightarrow> 'x CProxyHandler \<Rightarrow> int \<Rightarrow> int \<Rightarrow> 'x \<times> 'w \<Rightarrow> (fault + (bool \<times> 'x \<times> 'w)) option" where
  "libuv_round os ph client target xw =
     (case SocketSelect_new os client (Some target) NonBlockingSocket (snd xw) of
        Inl e \<Rightarrow> Some (Inl e)
      | Inr (fds, w) \<Rightarrow>
          Option.bind (forward os (HandleUpstreamData ph) client target fds True (fst xw, w)) (\<lambda>r.
            case r of Inl e \<Rightarrow> Some (Inl e)
            | Inr (still_connected, xw) \<Rightarrow>
                forward os (HandleDownStreamData ph) target client fds still_connected xw))"

lemma rounds_agree: "libuv_round os = proxy_round os"
  unfolding libuv_round_def proxy_round_def upstream_half_def downstream_half_def by (intro ext) (rule refl)

section \<open>The loop\<close>

partial_function (option) pump ::
    "('s \<Rightarrow> (fault + (bool \<times> 's)) option) \<Rightarrow> 's \<Rightarrow> (fault + 's) option" where
  "pump round s =
     Option.bind (round s) (\<lambda>r.
       case r of Inl e \<Rightarrow> Some (Inl e)
       | Inr q \<Rightarrow> (case q of (still_connected, s) \<Rightarrow>
           if still_connected then pump round s else Some (Inr s)))"

lemma pump_step:
  "round s = Some (Inr (b, s')) \<Longrightarrow> pump round s = (if b then pump round s' else Some (Inr s'))"
  by (subst pump.simps) simp

lemma pump_fault: "round s = Some (Inl e) \<Longrightarrow> pump round s = Some (Inl e)"
  by (subst pump.simps) simp

text \<open>A loop that keeps an invariant under which every round asks for another one never returns.\<close>

lemma pump_diverges:
  assumes "I s" and "\<And>s. I s \<Longrightarrow> \<exists>s'. round s = Some (Inr (True, s')) \<and> I s'"
  shows "pump round s = None"
proof -
  have "\<not> I s" if "pump round' s = Some r" and "round' = round" for round' s r
    using that
  proof (induct rule: pump.raw_induct [rotated, consumes 1, case_names loop])
    case (loop self round' s r)
    show ?case
    proof
      assume "I s"
      then obtain s' where s': "round s = Some (Inr (True, s'))" "I s'" using assms(2) by blast
      then have "self round' s' = Some r" using loop(2,3) by simp
      from loop(1) [OF this loop(3)] s'(2) show False by blast
    qed
  qed
  with assms(1) show ?thesis by (cases "pump round s") auto
qed

section \<open>What a session has exchanged\<close>

text \<open>
  An exchange is what one half of a round read and what the receiving side's kernel accepted of the
  answer. \<open>explains\<close>: the exchanges are those of a handler that started with \<open>x\<close> and ended with \<open>x'\<close>;
  if \<open>complete\<close>, every answer was accepted as a whole, and otherwise a prefix of it. A handler that throws
  answers nothing.
\<close>

datatype direction = Upstream | Downstream

type_synonym exchange = "direction \<times> bytes \<times> bytes"

fun handle_of :: "'x CProxyHandler \<Rightarrow> direction \<Rightarrow> 'x handling" where
  "handle_of ph Upstream = HandleUpstreamData ph"
| "handle_of ph Downstream = HandleDownStreamData ph"

fun explains :: "bool \<Rightarrow> 'x CProxyHandler \<Rightarrow> exchange list \<Rightarrow> 'x \<Rightarrow> 'x \<Rightarrow> bool" where
  "explains complete ph [] x x' \<longleftrightarrow> x' = x"
| "explains complete ph ((d, got, put) # tr) x x' \<longleftrightarrow>
     (case handle_of ph d got (int (length got)) x of (r, x1) \<Rightarrow>
        let ans = (case r of Ret ans \<Rightarrow> ans | Throw e \<Rightarrow> [])
        in put = (if complete then ans else take (length put) ans) \<and> explains complete ph tr x1 x')"

definition got_on :: "direction \<Rightarrow> exchange list \<Rightarrow> bytes" where
  "got_on d tr = concat (map (\<lambda>e. fst (snd e)) (filter (\<lambda>e. fst e = d) tr))"

definition put_on :: "direction \<Rightarrow> exchange list \<Rightarrow> bytes" where
  "put_on d tr = concat (map (\<lambda>e. snd (snd e)) (filter (\<lambda>e. fst e = d) tr))"

lemma explains_append:
  "explains complete ph (tr @ tr') x x' \<longleftrightarrow>
     (\<exists>x1. explains complete ph tr x x1 \<and> explains complete ph tr' x1 x')"
  by (induction complete ph tr x x' rule: explains.induct) (auto simp: Let_def split: prod.splits)

lemma on_simps [simp]:
  "got_on d [] = []" "put_on d [] = []"
  "got_on d (tr @ tr') = got_on d tr @ got_on d tr'" "put_on d (tr @ tr') = put_on d tr @ put_on d tr'"
  "got_on d [(d', got, put)] = (if d' = d then got else [])"
  "put_on d [(d', got, put)] = (if d' = d then put else [])"
  by (simp_all add: got_on_def put_on_def)

text \<open>
  \<open>inp\<close> and \<open>out\<close> are the streams of the two descriptors: what the trace reads upstream comes off the
  client's, and what it puts upstream was sent to the target; and the other way round.
\<close>

definition relayed ::
    "bool \<Rightarrow> 'x CProxyHandler \<Rightarrow> (int \<Rightarrow> 'w \<Rightarrow> bytes) \<Rightarrow> (int \<Rightarrow> 'w \<Rightarrow> bytes) \<Rightarrow> int \<Rightarrow> int \<Rightarrow> exchange list \<Rightarrow>
     'x \<times> 'w \<Rightarrow> 'x \<times> 'w \<Rightarrow> bool" where
  "relayed complete ph inp out client target tr s s' \<longleftrightarrow>
     explains complete ph tr (fst s) (fst s') \<and>
     inp client (snd s) = got_on Upstream tr @ inp client (snd s') \<and>
     inp target (snd s) = got_on Downstream tr @ inp target (snd s') \<and>
     out target (snd s') = out target (snd s) @ put_on Upstream tr \<and>
     out client (snd s') = out client (snd s) @ put_on Downstream tr"

lemma relayed_refl: "relayed complete ph inp out c t [] s s"
  by (simp add: relayed_def)

lemma relayed_trans:
  "relayed complete ph inp out c t tr s s1 \<Longrightarrow> relayed complete ph inp out c t tr' s1 s2 \<Longrightarrow>
   relayed complete ph inp out c t (tr @ tr') s s2"
  by (auto simp: relayed_def explains_append)

section \<open>Loops that never return\<close>

text \<open>
  A loop that asks for another round for ever: \<open>f\<close> are the states it goes through, and from some round
  on all of them are states in which it \<open>waits\<close>.
\<close>

definition spins :: "('s \<Rightarrow> (fault + (bool \<times> 's)) option) \<Rightarrow> ('s \<Rightarrow> bool) \<Rightarrow> 's \<Rightarrow> (nat \<Rightarrow> 's) \<Rightarrow> bool" where
  "spins round waits s f \<longleftrightarrow> f 0 = s \<and> (\<forall>n. round (f n) = Some (Inr (True, f (Suc n)))) \<and>
     (\<exists>k. \<forall>n \<ge> k. waits (f n))"

lemma spins_waits: "spins round waits s f \<Longrightarrow> \<exists>n. waits (f n)"
  by (auto simp: spins_def)

section \<open>The contract of a round\<close>

text \<open>
  Every round returns, and has exchanged something; the round that ends the session has read the
  empty string on one side, and any other has come closer to that, or it waits.
\<close>

locale relay =
  fixes round :: "'x \<times> 'w \<Rightarrow> (fault + (bool \<times> 'x \<times> 'w)) option"
    and exchanged :: "exchange list \<Rightarrow> 'x \<times> 'w \<Rightarrow> 'x \<times> 'w \<Rightarrow> bool"
    and rank :: "'x \<times> 'w \<Rightarrow> nat"
    and waits :: "'x \<times> 'w \<Rightarrow> bool"
  assumes no_exchange: "exchanged [] s s"
    and compose: "exchanged tr s s1 \<Longrightarrow> exchanged tr' s1 s2 \<Longrightarrow> exchanged (tr @ tr') s s2"
    and round_exchanges: "\<exists>b s' tr. round s = Some (Inr (b, s')) \<and> exchanged tr s s' \<and>
      (if b then rank s' + (if waits s then 0 else 1) \<le> rank s
       else [] \<in> (\<lambda>e. fst (snd e)) ` set tr)"
begin

lemmas step = pump_step [of round]

text \<open>A session that returns has relayed and ended with an empty string.\<close>

lemma session_returns:
  assumes "pump round s = Some q"
  shows "\<exists>s' tr. q = Inr s' \<and> exchanged tr s s' \<and> [] \<in> (\<lambda>e. fst (snd e)) ` set tr"
proof -
  have "\<exists>s' tr. q = Inr s' \<and> exchanged tr s s' \<and> [] \<in> (\<lambda>e. fst (snd e)) ` set tr"
    if "pump round' s = Some q" and "round' = round" for round' s q
    using that
  proof (induct rule: pump.raw_induct [rotated, consumes 1, case_names loop])
    case (loop self round' s q)
    obtain b s1 tr where r: "round s = Some (Inr (b, s1))" "exchanged tr s s1"
      "if b then rank s1 + (if waits s then 0 else 1) \<le> rank s else [] \<in> (\<lambda>e. fst (snd e)) ` set tr"
      using round_exchanges by blast
    show ?case
    proof (cases b)
      case False
      then have "q = Inr s1" using r(1) loop(2,3) by simp
      then show ?thesis using False r(2,3) by auto
    next
      case True
      then have "self round' s1 = Some q" using r(1) loop(2,3) by simp
      from loop(1) [OF this loop(3)] obtain s' tr' where "q = Inr s'" "exchanged tr' s1 s'"
        "[] \<in> (\<lambda>e. fst (snd e)) ` set tr'" by blast
      then show ?thesis using compose [OF r(2)] by (intro exI [of _ s'] exI [of _ "tr @ tr'"]) auto
    qed
  qed
  with assms show ?thesis by blast
qed

text \<open>One that does not return waits for ever.\<close>

lemma session_spins:
  assumes "pump round s = None"
  shows "\<exists>f. spins round waits s f \<and> (\<forall>n. \<exists>tr. exchanged tr s (f n))"
proof -
  define f where "f = rec_nat s (\<lambda>n t. snd (projr (the (round t))))"
  have next_round: "round t = Some (Inr (True, t')) \<and> pump round t' = None"
    if "pump round t = None" "t' = snd (projr (the (round t)))" for t t'
    using round_exchanges [of t] that step [of t] by (auto split: if_splits)
  have run: "pump round (f n) = None" for n
    by (induction n) (use assms next_round in \<open>simp_all add: f_def\<close>)
  have rounds: "round (f n) = Some (Inr (True, f (Suc n)))" for n
    using next_round [OF run [of n]] by (simp add: f_def)
  have ranks: "rank (f (Suc n)) + (if waits (f n) then 0 else 1) \<le> rank (f n)"
    and one: "\<exists>tr. exchanged tr (f n) (f (Suc n))" for n
    using round_exchanges [of "f n"] rounds [of n] by auto
  have "\<exists>tr. exchanged tr s (f n)" for n
  proof (induction n)
    case 0
    have "f 0 = s" by (simp add: f_def)
    with no_exchange [of s] show ?case by metis
  next
    case (Suc n)
    then show ?case using one [of n] compose by blast
  qed
  moreover obtain k where least: "rank (f k) \<le> rank (f n)" for n
    using ex_has_least_nat [of "\<lambda>n. True" 0 "\<lambda>n. rank (f n)"] by blast
  have "rank (f n) \<le> rank (f k)" if "k \<le> n" for n
    using that by (rule lift_Suc_antimono_le [rotated]) (use ranks in \<open>meson add_leD1\<close>)
  then have "waits (f n)" if "k \<le> n" for n
    using that ranks [of n] least [of "Suc n"] by (fastforce split: if_splits)
  ultimately show ?thesis
    using rounds by (intro exI [of _ f]) (auto simp: spins_def f_def)
qed

lemma session:
  "case pump round s of
     Some q \<Rightarrow> \<exists>s' tr. q = Inr s' \<and> exchanged tr s s' \<and> [] \<in> (\<lambda>e. fst (snd e)) ` set tr
   | None \<Rightarrow> \<exists>f. spins round waits s f \<and> (\<forall>n. \<exists>tr. exchanged tr s (f n))"
  using session_returns session_spins by (auto split: option.split)

text \<open>Where it never waits, it returns.\<close>

lemma busy_session:
  assumes "\<And>s. \<not> waits s"
  shows "\<exists>s' tr. pump round s = Some (Inr s') \<and> exchanged tr s s' \<and> [] \<in> (\<lambda>e. fst (snd e)) ` set tr"
proof (cases "pump round s")
  case None
  from session_spins [OF this] spins_waits assms show ?thesis by metis
next
  case (Some q)
  from session_returns [OF this] Some show ?thesis by blast
qed

end

end
