(* ===== verification/Proxy_Session.thy ===== *)
theory Proxy_Session
  imports Relay
begin

text \<open>
  The rounds of both proxies keep the contract \<open>relay\<close>. A round waits when its \<open>select\<close> has reported
  none of the two descriptors.
\<close>

section \<open>The assumptions of a session\<close>

definition pending :: "(int \<Rightarrow> 'w \<Rightarrow> bytes) \<Rightarrow> int \<Rightarrow> int \<Rightarrow> 'x \<times> 'w \<Rightarrow> nat" where
  "pending inp client target s = length (inp client (snd s)) + length (inp target (snd s))"

fun source_of :: "int \<Rightarrow> int \<Rightarrow> direction \<Rightarrow> int" where
  "source_of client target Upstream = client"
| "source_of client target Downstream = target"

definition idle_round :: "'w os \<Rightarrow> int \<Rightarrow> int \<Rightarrow> 'x \<times> 'w \<Rightarrow> bool" where
  "idle_round os client target s \<longleftrightarrow>
     (case SocketSelect_new os client (Some target) NonBlockingSocket (snd s) of
        Inl e \<Rightarrow> False | Inr (fds, w) \<Rightarrow> fds = {})"

text \<open>
  \<open>select\<close> reports some of the descriptors it was asked for. If \<open>complete\<close>, the kernel always accepts the whole of what is sent. The handler answers the empty string without an exception, and its answers are shorter than
  \<open>2 ^ 31\<close> bytes; on other chunks it may throw.
\<close>

locale relay_session = posix_live +
  fixes complete :: bool and ph :: "'x CProxyHandler" and client target :: int
  assumes select_reports: "os_select os m fds tv w = ((r, fds'), w') \<Longrightarrow> fds' \<subseteq> fds"
    and send_complete: "complete \<Longrightarrow> os_send os s bs w = (r, w') \<Longrightarrow> r = int (length bs)"
    and distinct: "client \<noteq> target" "fd_ok client" "fd_ok target"
    and answers_empty: "fst (handle_of ph d [] 0 x) \<noteq> Throw e"
    and short_answers: "handle_of ph d bs n x = (Ret ans, x') \<Longrightarrow> length ans < 2 ^ 31"
begin

lemma send_short:
  assumes "length ans < 2 ^ 31"
  shows "\<exists>w' n. SendBytes os s ans (sint (word_of_nat (length ans) :: u32)) w = Inr w' \<and>
    sent s w' = sent s w @ take n ans \<and> (complete \<longrightarrow> take n ans = ans) \<and> (\<forall>t. t \<noteq> s \<longrightarrow> sent t w' = sent t w) \<and>
    (\<forall>t. incoming t w' = incoming t w)"
proof -
  obtain r w' where r: "os_send os s ans w = (r, w')" by fastforce
  have "SendBytes os s ans (sint (word_of_nat (length ans) :: u32)) w = Inr w'"
    using r by (simp add: SendBytes_def sint_of_nat_32 [OF assms])
  moreover have "complete \<longrightarrow> take (nat r) ans = ans" using send_complete [OF _ r] by auto
  ultimately show ?thesis using send_accepts [OF r] by blast
qed

text \<open>One half of a round: nothing happens, or one chunk is exchanged.\<close>

lemma half:
  assumes "source_of client target d \<in> fds \<Longrightarrow> fd_ok (source_of client target d)" and "fd_ok (source_of client target d)"
  shows "\<exists>b' s' tr. forward os (handle_of ph d) (source_of client target d) (source_of target client d) fds b s = Some (Inr (b', s')) \<and>
    relayed complete ph incoming sent client target tr s s' \<and>
    (if source_of client target d \<notin> fds then tr = [] \<and> s' = s \<and> b' = b
     else if [] \<in> (\<lambda>e. fst (snd e)) ` set tr then \<not> b' \<and> pending incoming client target s' \<le> pending incoming client target s
     else b' = b \<and> pending incoming client target s' < pending incoming client target s)"
proof (cases "source_of client target d \<in> fds")
  case False
  then show ?thesis
    using assms(2) relayed_refl by (intro exI [of _ b] exI [of _ s] exI [of _ "[]"])
      (simp add: forward_def Readable_def)
next
  case True
  obtain x w where s: "s = (x, w)" by fastforce
  obtain bs w1 where bs: "ReceiveBytes os (source_of client target d) w = Some (bs, w1)"
    "incoming (source_of client target d) w = bs @ incoming (source_of client target d) w1"
    "\<forall>t. sent t w1 = sent t w \<and> (t \<noteq> source_of client target d \<longrightarrow> incoming t w1 = incoming t w)"
    using receive_loop_spec [of READ_BUFFER "source_of client target d" "[]" w]
    by (auto simp: ReceiveBytes_def READ_BUFFER_def)
  obtain r x1 where r: "handle_of ph d bs (int (length bs)) x = (r, x1)" by fastforce
  show ?thesis
  proof (cases r)
    case (Throw e)
    have "bs \<noteq> []" using answers_empty [of d x e] r Throw by auto
    let ?s' = "(x1, w1)" and ?tr = "[(d, bs, [])]"
    have "forward os (handle_of ph d) (source_of client target d) (source_of target client d) fds b s = Some (Inr (b, ?s'))"
      using True assms(2) by (simp add: forward_def Readable_def s bs(1) r Throw)
    moreover have "relayed complete ph incoming sent client target ?tr s ?s'"
      using bs r Throw distinct(1) by (cases d) (auto simp: relayed_def s)
    moreover have "pending incoming client target ?s' < pending incoming client target s"
      using bs \<open>bs \<noteq> []\<close> distinct(1) by (cases d) (auto simp: pending_def s)
    ultimately show ?thesis
      using True \<open>bs \<noteq> []\<close> by (intro exI [of _ b] exI [of _ ?s'] exI [of _ ?tr]) simp
  next
    case (Ret ans)
    obtain w2 n where w2: "SendBytes os (source_of target client d) ans (sint (word_of_nat (length ans) :: u32)) w1 = Inr w2"
      "sent (source_of target client d) w2 = sent (source_of target client d) w1 @ take n ans"
      "\<forall>t. t \<noteq> source_of target client d \<longrightarrow> sent t w2 = sent t w1" "\<forall>t. incoming t w2 = incoming t w1"
      "complete \<longrightarrow> take n ans = ans"
      using send_short [OF short_answers [OF r [unfolded Ret]]] by blast
    let ?s' = "(x1, w2)" and ?tr = "[(d, bs, take n ans)]" and ?b = "if bs = [] then False else b"
    have "forward os (handle_of ph d) (source_of client target d) (source_of target client d) fds b s = Some (Inr (?b, ?s'))"
      using True assms(2) by (simp add: forward_def Readable_def s bs(1) r Ret w2(1))
    moreover have "relayed complete ph incoming sent client target ?tr s ?s'"
      using bs r Ret distinct(1) w2 by (cases d) (auto simp: relayed_def s min_def)
    moreover have "if bs = [] then pending incoming client target ?s' \<le> pending incoming client target s else pending incoming client target ?s' < pending incoming client target s"
      using bs distinct(1) w2(4) by (cases d) (auto simp: pending_def s)
    ultimately show ?thesis
      using True by (intro exI [of _ ?b] exI [of _ ?s'] exI [of _ ?tr]) auto
  qed
qed

lemma half_returns:
  "\<exists>b' x' w'. forward os (handle_of ph d) (source_of client target d) (source_of target client d) fds b (x, w) =
     Some (Inr (b', x', w'))"
  using half [of d fds b "(x, w)"] distinct by (cases d) (auto simp: split_paired_Ex)

text \<open>A whole round: \<open>select\<close> and the two halves.\<close>

lemma round_told:
  "\<exists>b s' tr. proxy_round os ph client target s = Some (Inr (b, s')) \<and>
     relayed complete ph incoming sent client target tr s s' \<and>
     (if b then pending incoming client target s' + (if idle_round os client target s then 0 else 1) \<le>
          pending incoming client target s
      else [] \<in> (\<lambda>e. fst (snd e)) ` set tr)"
proof -
  obtain x w where s: "s = (x, w)" by fastforce
  obtain r fds w0 where sel: "os_select os (max client target + 1) {client, target} (Some 1) w = ((r, fds), w0)"
    by (metis prod.exhaust)
  note q = select_reports [OF sel]
  have s0: "relayed complete ph incoming sent client target [] s (x, w0)"
    "pending incoming client target (x, w0) = pending incoming client target s"
    using select_asks [OF sel] by (auto simp: relayed_def pending_def s)
  obtain b1 s1 tr1 where h1: "upstream_half os ph client target fds (x, w0) = Some (Inr (b1, s1))"
    "relayed complete ph incoming sent client target tr1 (x, w0) s1"
    "if client \<notin> fds then tr1 = [] \<and> s1 = (x, w0) \<and> b1
     else if [] \<in> (\<lambda>e. fst (snd e)) ` set tr1
       then \<not> b1 \<and> pending incoming client target s1 \<le> pending incoming client target (x, w0)
     else b1 \<and> pending incoming client target s1 < pending incoming client target (x, w0)"
    using half [of Upstream fds True "(x, w0)"] distinct(2) by (auto simp: upstream_half_def)
  obtain b2 s2 tr2 where h2: "downstream_half os ph client target fds b1 s1 = Some (Inr (b2, s2))"
    "relayed complete ph incoming sent client target tr2 s1 s2"
    "if target \<notin> fds then tr2 = [] \<and> s2 = s1 \<and> b2 = b1
     else if [] \<in> (\<lambda>e. fst (snd e)) ` set tr2
       then \<not> b2 \<and> pending incoming client target s2 \<le> pending incoming client target s1
     else b2 = b1 \<and> pending incoming client target s2 < pending incoming client target s1"
    using half [of Downstream fds b1 s1] distinct(3) by (auto simp: downstream_half_def)
  have run: "proxy_round os ph client target s = Some (Inr (b2, s2))"
    using h1(1) h2(1) distinct(2,3) sel by (simp add: proxy_round_def SocketSelect_two s)
  have told: "relayed complete ph incoming sent client target (tr1 @ tr2) s s2"
    using relayed_trans [OF relayed_trans [OF s0(1) h1(2)] h2(2)] by simp
  show ?thesis
  proof (cases b2)
    case False
    then have "[] \<in> (\<lambda>e. fst (snd e)) ` set (tr1 @ tr2)"
      using h1(3) h2(3) by (auto split: if_splits)
    with False run told show ?thesis by metis
  next
    case True
    have "pending incoming client target s2 + (if idle_round os client target s then 0 else 1) \<le>
        pending incoming client target s"
    proof (cases "fds = {}")
      case True
      moreover from this have "idle_round os client target s"
        using sel distinct(2,3) by (simp add: idle_round_def SocketSelect_two s)
      ultimately show ?thesis using h1(3) h2(3) s0(2) by simp
    next
      case False
      then have "client \<in> fds \<or> target \<in> fds" using q by blast
      then show ?thesis using True h1(3) h2(3) s0(2) by (auto split: if_splits)
    qed
    with True run told show ?thesis by metis
  qed
qed

end

section \<open>Both proxies relay\<close>

sublocale relay_session \<subseteq> cproxy: relay "proxy_round os ph client target"
  "relayed complete ph incoming sent client target"
  "pending incoming client target" "idle_round os client target"
  by (unfold_locales, rule relayed_refl, erule (1) relayed_trans, rule round_told)

sublocale relay_session \<subseteq> libuv: relay "libuv_round os ph client target"
  "relayed complete ph incoming sent client target"
  "pending incoming client target" "idle_round os client target"
  unfolding rounds_agree by (rule cproxy.relay_axioms)

context relay_session begin

lemmas proxy_session = cproxy.session
lemmas libuv_session = libuv.session
lemmas busy_session = cproxy.busy_session

end

section \<open>Sessions whose streams have ended\<close>

text \<open>
  When both streams have ended and the handler throws on the empty string, a round asks for another
  one and leaves both streams ended.
\<close>

context posix_live begin

lemma ended_half:
  assumes "fd_ok a" and "\<exists>e x'. handle [] 0 x = (Throw e, x')" and "a = client \<or> a = target"
    and "incoming client w = []" and "incoming target w = []"
  shows "\<exists>x' w'. forward os handle a b fds True (x, w) = Some (Inr (True, x', w')) \<and>
    incoming client w' = [] \<and> incoming target w' = []"
proof -
  obtain bs w1 where r: "ReceiveBytes os a w = Some (bs, w1)" "incoming a w = bs @ incoming a w1"
    "\<forall>t. t \<noteq> a \<longrightarrow> incoming t w1 = incoming t w"
    using receive_loop_spec [of READ_BUFFER a "[]" w] by (auto simp: ReceiveBytes_def READ_BUFFER_def)
  have "bs = []" "incoming client w1 = []" "incoming target w1 = []"
    using r(2,3) assms(3-5) by (metis append_is_Nil_conv)+
  then show ?thesis
    using r(1) assms by (cases "a \<in> fds") (auto simp: forward_def Readable_def)
qed

lemma ended_round:
  assumes "fd_ok client" and "fd_ok target"
    and "\<And>dir x. \<exists>e x'. handle_of ph dir [] 0 x = (Throw e, x')"
    and "incoming client w = []" and "incoming target w = []"
  shows "\<exists>x' w'. proxy_round os ph client target (x, w) = Some (Inr (True, x', w')) \<and>
    incoming client w' = [] \<and> incoming target w' = []"
proof -
  obtain r fds w0 where sel: "os_select os (max client target + 1) {client, target} (Some 1) w = ((r, fds), w0)"
    by (metis prod.exhaust)
  have e: "incoming client w0 = []" "incoming target w0 = []"
    using select_asks [OF sel] assms(4,5) by metis+
  obtain x1 w1 where u: "upstream_half os ph client target fds (x, w0) = Some (Inr (True, x1, w1))"
    "incoming client w1 = []" "incoming target w1 = []"
    using ended_half [of client "HandleUpstreamData ph" x client target w0 target fds] assms(1) assms(3) [of Upstream x] e
    by (auto simp: upstream_half_def)
  obtain x2 w2 where "downstream_half os ph client target fds True (x1, w1) = Some (Inr (True, x2, w2))"
    "incoming client w2 = []" "incoming target w2 = []"
    using ended_half [of target "HandleDownStreamData ph" x1 client target w1 client fds] assms(2) assms(3) [of Downstream x1] u(2,3)
    by (auto simp: downstream_half_def)
  then show ?thesis
    using sel u(1) assms(1,2) by (simp add: proxy_round_def SocketSelect_two)
qed

end

section \<open>A concrete session\<close>

text \<open>A handler that passes every chunk on unchanged, and counts its calls.\<close>

definition pass_on :: "nat handling" where
  "pass_on bs n x = (if length bs < 2 ^ 31 then Ret bs else Throw ''too long'', x + 1)"

definition pass_through :: "nat CProxyHandler" where
  "pass_through = \<lparr>HandleUpstreamData = pass_on, HandleDownStreamData = pass_on\<rparr>"

lemma handle_pass_through: "handle_of pass_through d = pass_on"
  by (cases d) (simp_all add: pass_through_def)

text \<open>The concrete system, with a kernel that accepts everything that is sent.\<close>

definition sim_full :: "kernel os" where
  "sim_full = sim\<lparr>os_send := (\<lambda>s bs w. (int (length bs), log (Sent s bs) w))\<rparr>"

interpretation sim_full: posix_live sim_full sim_in sim_out sim_fails
proof (unfold_locales, goal_cases)
  case (1 s n f w bs w')
  then have "os_recv sim s n f w = (Some bs, w')" by (simp add: sim_full_def)
  from sim.recv_takes [OF this 1(2)] show ?case .
next
  case (2 s n f w w') then show ?case using sim.recv_fails by (simp add: sim_full_def)
next
  case (3 s n f w got w' t) then show ?case using sim.recv_others by (simp add: sim_full_def)
next
  case (6 s bs w r w' t) then show ?case
    by (auto simp: sim_full_def sim_in_def sim_out_def log_def sent_on_append)
next
  case (7 s n f w w') then show ?case using sim.recv_failure by (simp add: sim_full_def)
next
  case (8 s n f w bs w') then show ?case using sim.recv_success by (simp add: sim_full_def)
qed (auto simp: sim_full_def sim_def)

interpretation sim_full: fd_table sim_full k_open
  by unfold_locales
    (auto simp: sim_full_def sim_def sim_open_def sim_recv_def log_def split: if_splits list.splits prod.splits)

interpretation sim_session: relay_session sim_full sim_in sim_out sim_fails True pass_through 9 3
  by unfold_locales (auto simp: sim_full_def sim_def fd_ok_def FD_SETSIZE_def handle_pass_through pass_on_def split: if_splits)

text \<open>Its \<open>select\<close> always reports both descriptors.\<close>

lemma sim_never_idle: "fd_ok c \<Longrightarrow> fd_ok t \<Longrightarrow> \<not> idle_round sim_full c t s"
  by (simp add: idle_round_def SocketSelect_two sim_full_def sim_def)

end
