(* ===== verification/Proxy.thy ===== *)
theory Proxy
  imports Proxy_Session Server
begin

text \<open>
  The proxy server objects: \<open>CProxySocket\<close> and \<open>CApiGatewaySocket\<close> (\<open>interface/CProxySocket.h\<close>, \<open>.cpp\<close>,
  \<open>interface/CApiGatewaySocket.h\<close>, \<open>.cpp\<close>). The load balancer, \<open>ProtocolHelper\<close> and the pipeline
  functions are not part of the repository: they are the parameters \<open>balancer\<close> and \<open>helper\<close>, and a
  pipeline is a value of a type parameter \<open>'p\<close>.
\<close>

section \<open>Collaborators\<close>

text \<open>The fields of a configured service that the code reads.\<close>

record RESOLVED_SERVICE =
  ipaddress :: string
  service_port :: int
  source_hostname :: string

record ('st, 'lb) balancer =
  new_balancer :: "'st \<Rightarrow> 'lb"
  addServer :: "RESOLVED_SERVICE \<Rightarrow> 'lb \<Rightarrow> 'lb"
  requestServer :: "'lb \<Rightarrow> RESOLVED_SERVICE outcome \<times> 'lb"

text \<open>\<open>ReadSocketBuffer\<close> fills a buffer of the given size and counts the bytes; \<open>None\<close> is \<open>false\<close>.\<close>

record 'w helper =
  SetReadTimeOut :: "int \<Rightarrow> int \<Rightarrow> 'w \<Rightarrow> 'w"
  SetKeepAlive :: "int \<Rightarrow> int \<Rightarrow> 'w \<Rightarrow> 'w"
  ReadSocketBuffer :: "int \<Rightarrow> nat \<Rightarrow> 'w \<Rightarrow> bytes option \<times> 'w"

section \<open>The object\<close>

text \<open>
  The thread routine of a server is its own \<open>ThreadHandler\<close>, bound to the object by the constructor,
  or the pipeline that \<open>SetPipeline\<close> replaced it with.
\<close>

datatype 'p thread_function = BuiltIn | Pipeline 'p

record ('p, 'x, 'st, 'lb) CProxySocket = "'p thread_function CServerSocket" +
  m_handler :: "'x CProxyHandler option"
  m_configValues :: "RESOLVED_SERVICE list"
  thread_routine_override :: "'p thread_function"
  loadBalancerStrategy :: 'st
  loadBalancer :: "'lb slot"
  hostname_map :: "(string \<rightharpoonup> RESOLVED_SERVICE) slot"

definition Proxy_new ::
    "'w os \<Rightarrow> int \<Rightarrow> int \<Rightarrow> 'st \<Rightarrow> heap \<Rightarrow> 'w \<Rightarrow>
     fault + (('p, 'x, 'st, 'lb) CProxySocket outcome \<times> heap \<times> 'w)" where
  "Proxy_new os limit port strategy h w =
     fbind (Server_new os port limit BlockingSocket h w) (\<lambda>(r, h, w).
       case r of Throw e \<Rightarrow> Inr (Throw e, h, w)
       | Ret server \<Rightarrow>
           Inr (Ret (CServerSocket.extend server
                  (CProxySocket.fields None [] BuiltIn strategy Indeterminate Indeterminate)), h, w))"

definition SetHandler ::
    "'x CProxyHandler option \<Rightarrow> ('p, 'x, 'st, 'lb, 'a) CProxySocket_scheme \<Rightarrow>
     bool \<times> ('p, 'x, 'st, 'lb, 'a) CProxySocket_scheme" where
  "SetHandler handler this = (let this = this\<lparr>m_handler := handler\<rparr> in (m_handler this \<noteq> None, this))"

definition SetPipeline ::
    "'p option \<Rightarrow> ('p, 'x, 'st, 'lb, 'a) CProxySocket_scheme \<Rightarrow>
     bool \<times> ('p, 'x, 'st, 'lb, 'a) CProxySocket_scheme" where
  "SetPipeline pipelineFunction this =
     (case pipelineFunction of None \<Rightarrow> (False, this)
      | Some f \<Rightarrow> (True, this\<lparr>thread_routine_override := Pipeline f\<rparr>))"

definition GetHandler :: "('p, 'x, 'st, 'lb, 'a) CProxySocket_scheme \<Rightarrow> 'x CProxyHandler option" where
  "GetHandler this = m_handler this"

definition SetConfigValues ::
    "RESOLVED_SERVICE list \<Rightarrow> ('p, 'x, 'st, 'lb, 'a) CProxySocket_scheme \<Rightarrow>
     bool \<times> ('p, 'x, 'st, 'lb, 'a) CProxySocket_scheme" where
  "SetConfigValues configValues this = (True, this\<lparr>m_configValues := configValues\<rparr>)"

definition GetConfigValues :: "('p, 'x, 'st, 'lb, 'a) CProxySocket_scheme \<Rightarrow> RESOLVED_SERVICE list" where
  "GetConfigValues this = m_configValues this"

text \<open>One iteration of the loop of \<open>Start\<close> over the configured services.\<close>

definition load_service ::
    "('st, 'lb) balancer \<Rightarrow> RESOLVED_SERVICE \<Rightarrow> 'lb \<times> (string \<rightharpoonup> RESOLVED_SERVICE) \<Rightarrow>
     'lb \<times> (string \<rightharpoonup> RESOLVED_SERVICE)" where
  "load_service bal service = (\<lambda>(lb, hosts).
     (addServer bal service lb,
      if source_hostname service \<noteq> [] then hosts(source_hostname service \<mapsto> service) else hosts))"

definition Proxy_Start ::
    "'w os \<Rightarrow> ('st, 'lb) balancer \<Rightarrow> string \<Rightarrow> ('p, 'x, 'st, 'lb, 'a) CProxySocket_scheme \<Rightarrow> 'w \<Rightarrow>
     fault + (bool outcome \<times> ('p, 'x, 'st, 'lb, 'a) CProxySocket_scheme \<times> 'w)" where
  "Proxy_Start os bal identifier this w =
     (let lb = new_balancer bal (loadBalancerStrategy this);
          (lb, hosts) = fold (load_service bal) (GetConfigValues this) (lb, Map.empty);
          this = this\<lparr>loadBalancer := Ptr lb, hostname_map := Ptr hosts\<rparr>
      in Server_Open os identifier (thread_routine_override this) this w)"

section \<open>Serving a connection\<close>

text \<open>Asking the load balancer for a service, and connecting to it.\<close>

definition connect_target ::
    "'w os \<Rightarrow> 'w resolver \<Rightarrow> ('st, 'lb) balancer \<Rightarrow> 'lb slot \<Rightarrow> heap \<Rightarrow> 'w \<Rightarrow>
     fault + (CClientSocket outcome \<times> 'lb slot \<times> heap \<times> 'w)" where
  "connect_target os create_hostent bal lb h w =
     (case lb of Indeterminate \<Rightarrow> Inl Uninitialised | Null \<Rightarrow> Inl NullDeref
      | Ptr lb \<Rightarrow>
          (case requestServer bal lb of (r, lb) \<Rightarrow>
             case r of Throw e \<Rightarrow> Inr (Throw e, Ptr lb, h, w)
             | Ret currentService \<Rightarrow>
                 fbind (Client_new os create_hostent (ipaddress currentService)
                          (service_port currentService) h w) (\<lambda>(r, h, w).
                   Inr (r, Ptr lb, h, w))))"

text \<open>The keep-alive option is set twice on the client's socket, and never on the target's.\<close>

definition set_options :: "'w helper \<Rightarrow> int \<Rightarrow> int \<Rightarrow> 'w \<Rightarrow> 'w" where
  "set_options hp client target w =
     SetKeepAlive hp client 1 (SetReadTimeOut hp target 1 (SetKeepAlive hp client 1 (SetReadTimeOut hp client 1 w)))"

text \<open>
  \<open>CProxySocket::ThreadHandler\<close>. \<open>'x\<close> is the state of the handler together with the new execution
  context. Neither the client's nor the target's socket is closed or deleted at the end.
\<close>

type_synonym ('p, 'x, 'st, 'lb, 'w) proxy_state =
  "('p, 'x, 'st, 'lb) CProxySocket \<times> 'x \<times> heap \<times> 'w"

definition Proxy_ThreadHandler ::
    "'w os \<Rightarrow> 'w resolver \<Rightarrow> 'w helper \<Rightarrow> ('st, 'lb) balancer \<Rightarrow>
     ('p, 'x, 'st, 'lb, 'w) proxy_state routine" where
  "Proxy_ThreadHandler os create_hostent hp bal clientData = (\<lambda>(this, x, h, w).
     case GetHandler this of None \<Rightarrow> Some (Inr (Ret (), this, x, h, w))
     | Some proxy_handler \<Rightarrow>
       (case connect_target os create_hostent bal (loadBalancer this) h w of
          Inl e \<Rightarrow> Some (Inl e)
        | Inr (r, lb, h, w) \<Rightarrow>
          (let this = this\<lparr>loadBalancer := lb\<rparr> in
           case r of Throw e \<Rightarrow> Some (Inr (Throw e, this, x, h, w))
           | Ret target_socket \<Rightarrow>
             (case deref (cd_client_socket clientData) of Inl e \<Rightarrow> Some (Inl e)
              | Inr client_socket \<Rightarrow>
                  let w = set_options hp (sock_fd client_socket) (sock_fd target_socket) w
                  in map_option (\<lambda>q. fbind q (\<lambda>(x, w). Inr (Ret (), this, x, h, w)))
                       (pump (proxy_round os proxy_handler (sock_fd client_socket) (sock_fd target_socket))
                          (x, w))))))"

section \<open>The API gateway\<close>

text \<open>
  \<open>CApiGatewaySocket\<close> has a host name map of its own; its \<open>Start\<close> opens the server without creating a
  load balancer.
\<close>

record ('p, 'x, 'st, 'lb) CApiGatewaySocket = "('p, 'x, 'st, 'lb) CProxySocket" +
  gateway_hostname_map :: "string \<rightharpoonup> string \<rightharpoonup> RESOLVED_SERVICE"

definition SetApiGatewayConfig ::
    "(string \<rightharpoonup> string \<rightharpoonup> RESOLVED_SERVICE) \<Rightarrow> ('p, 'x, 'st, 'lb) CApiGatewaySocket \<Rightarrow>
     ('p, 'x, 'st, 'lb) CApiGatewaySocket" where
  "SetApiGatewayConfig h_map this = this\<lparr>gateway_hostname_map := h_map\<rparr>"

definition Gateway_new ::
    "'w os \<Rightarrow> int \<Rightarrow> int \<Rightarrow> 'st \<Rightarrow> heap \<Rightarrow> 'w \<Rightarrow>
     fault + (('p, 'x, 'st, 'lb) CApiGatewaySocket outcome \<times> heap \<times> 'w)" where
  "Gateway_new os limit port strategy h w =
     fbind (Proxy_new os limit port strategy h w) (\<lambda>(r, h, w).
       case r of Throw e \<Rightarrow> Inr (Throw e, h, w)
       | Ret proxy \<Rightarrow> Inr (Ret (CProxySocket.extend proxy (CApiGatewaySocket.fields Map.empty)), h, w))"

definition Gateway_SetPipeline ::
    "'p option \<Rightarrow> ('p, 'x, 'st, 'lb) CApiGatewaySocket \<Rightarrow> bool \<times> ('p, 'x, 'st, 'lb) CApiGatewaySocket" where
  "Gateway_SetPipeline pipelineFunction this =
     (case pipelineFunction of None \<Rightarrow> (False, this)
      | Some f \<Rightarrow> (True, this\<lparr>thread_routine_override := Pipeline f\<rparr>))"

definition Gateway_Start ::
    "'w os \<Rightarrow> string \<Rightarrow> ('p, 'x, 'st, 'lb) CApiGatewaySocket \<Rightarrow> 'w \<Rightarrow>
     fault + (bool outcome \<times> ('p, 'x, 'st, 'lb) CApiGatewaySocket \<times> 'w)" where
  "Gateway_Start os identifier this w =
     Server_Open os identifier (thread_routine_override this) this w"

section \<open>Descriptors of a session\<close>

context fd_table begin

lemma forward_opened:
  assumes "forward os handle a b fds st xw = Some (Inr (b', x', w'))"
  shows "opened w' = opened (snd xw)"
proof -
  obtain x w where xw: "xw = (x, w)" by fastforce
  show ?thesis
  proof (cases "Readable fds a = Inr True")
    case False
    then show ?thesis using assms xw by (auto simp: forward_def split: sum.splits bool.splits)
  next
    case True
    obtain bs w1 where r: "ReceiveBytes os a w = Some (bs, w1)"
      using assms True xw by (auto simp: forward_def bind_eq_Some_conv)
    obtain q x1 where h: "handle bs (int (length bs)) x = (q, x1)" by fastforce
    show ?thesis
    proof (cases q)
      case (Throw e)
      then show ?thesis using assms True xw r h receive_opened [OF r] by (simp add: forward_def)
    next
      case (Ret ans)
      then have "fbind (SendBytes os b ans (sint (word_of_nat (length ans) :: u32)) w1)
          (\<lambda>w. Inr (if bs = [] then False else st, x1, w)) = Inr (b', x', w')"
        using assms True xw r h by (simp add: forward_def)
      then obtain w2 where "SendBytes os b ans (sint (word_of_nat (length ans) :: u32)) w1 = Inr w2" "w' = w2"
        by (auto simp: fbind_eq_Inr_iff)
      then show ?thesis using send_opened receive_opened [OF r] xw by simp
    qed
  qed
qed

lemma round_opened:
  assumes "proxy_round os ph c t xw = Some (Inr (b, x', w'))"
  shows "opened w' = opened (snd xw)"
proof -
  obtain fds w0 where sel: "SocketSelect_new os c (Some t) NonBlockingSocket (snd xw) = Inr (fds, w0)"
    using assms by (auto simp: proxy_round_def split: sum.splits)
  have o: "opened w0 = opened (snd xw)" using SocketSelect_returns [OF sel] select_keeps by blast
  obtain b1 xw1 where h: "upstream_half os ph c t fds (fst xw, w0) = Some (Inr (b1, xw1))"
    "downstream_half os ph c t fds b1 xw1 = Some (Inr (b, x', w'))"
    using assms sel by (cases "upstream_half os ph c t fds (fst xw, w0)"; cases "the (upstream_half os ph c t fds (fst xw, w0))")
      (auto simp: proxy_round_def)
  obtain x1 w1 where xw1: "xw1 = (x1, w1)" by fastforce
  from forward_opened [OF h(1) [unfolded upstream_half_def xw1]]
    forward_opened [OF h(2) [unfolded downstream_half_def]] o
  show ?thesis by (simp add: xw1)
qed

lemma pump_opened:
  assumes "pump round s = Some r"
  shows "round = proxy_round os ph c t \<longrightarrow> (\<forall>s'. r = Inr s' \<longrightarrow> opened (snd s') = opened (snd s))"
  using assms
proof (induct rule: pump.raw_induct [rotated, consumes 1, case_names loop])
  case (loop self round s r)
  show ?case
  proof (intro impI allI)
    fix s' assume rd: "round = proxy_round os ph c t" and r: "r = Inr s'"
    obtain b s1 where q: "round s = Some (Inr (b, s1))" "(if b then self round s1 else Some (Inr s1)) = Some r"
      using loop(2) r by (cases "round s"; cases "the (round s)") auto
    obtain x1 w1 where s1: "s1 = (x1, w1)" by fastforce
    have o: "opened w1 = opened (snd s)" by (rule round_opened [OF q(1) [unfolded rd s1]])
    show "opened (snd s') = opened (snd s)"
    proof (cases b)
      case True
      then have "self round s1 = Some (Inr s')" using q(2) r by simp
      from loop(1) [OF this] rd have "opened (snd s') = opened (snd s1)" by blast
      then show ?thesis using o s1 by simp
    next
      case False
      then have "s' = s1" using q(2) r by simp
      then show ?thesis using o s1 by simp
    qed
  qed
qed

end

text \<open>\<open>ProtocolHelper\<close> opens and closes no descriptor when it sets an option.\<close>

locale proxy_env = client_env +
  fixes hp :: "'a helper"
  assumes timeout_keeps: "opened (SetReadTimeOut hp s k w) = opened w"
    and alive_keeps: "opened (SetKeepAlive hp s k w) = opened w"
begin

lemma target_opened:
  assumes "connect_target os create_hostent bal lb h w = Inr (r, lb', h', w')"
  shows "case r of Throw e \<Rightarrow> opened w' = opened w
    | Ret t \<Rightarrow> 0 \<le> sock_fd t \<and> sock_fd t \<notin> opened w \<and> opened w' = insert (sock_fd t) (opened w)"
proof -
  obtain l where lb: "lb = Ptr l" using assms by (cases lb) (auto simp: connect_target_def)
  obtain q l' where q: "requestServer bal l = (q, l')" by fastforce
  show ?thesis
  proof (cases q)
    case (Throw e)
    then show ?thesis using assms lb q by (auto simp: connect_target_def)
  next
    case (Ret service)
    then obtain h1 where "Client_new os create_hostent (ipaddress service) (service_port service) h w =
        Inr (r, h1, w')"
      using assms lb q by (auto simp: connect_target_def fbind_eq_Inr_iff)
    from new_client [OF this] show ?thesis by (cases r) auto
  qed
qed

text \<open>Whatever a session does, it closes nothing; and it leaves the target's connection behind.\<close>

lemma session_opened:
  assumes "Proxy_ThreadHandler os create_hostent hp bal d (this, x, h, w) = Some (Inr (r, this', x', h', w'))"
  shows "opened w' = opened w \<and> (m_handler this = None \<or> (\<exists>e. r = Throw e)) \<or>
    (\<exists>t. t \<notin> opened w \<and> opened w' = insert t (opened w))"
proof (cases "m_handler this")
  case None
  then show ?thesis using assms by (simp add: Proxy_ThreadHandler_def GetHandler_def)
next
  case (Some ph)
  obtain q lb h1 w1 where q: "connect_target os create_hostent bal (loadBalancer this) h w = Inr (q, lb, h1, w1)"
    using assms Some by (auto simp: Proxy_ThreadHandler_def GetHandler_def split: sum.splits)
  show ?thesis
  proof (cases q)
    case (Throw e)
    then show ?thesis
      using assms Some q target_opened [OF q] by (auto simp: Proxy_ThreadHandler_def GetHandler_def)
  next
    case (Ret target)
    obtain client where c: "cd_client_socket d = Ptr client"
      using assms Some q Ret by (cases "cd_client_socket d")
        (auto simp: Proxy_ThreadHandler_def GetHandler_def deref_def)
    let ?w = "set_options hp (sock_fd client) (sock_fd target) w1"
    obtain s' where s': "pump (proxy_round os ph (sock_fd client) (sock_fd target)) (x, ?w) = Some (Inr s')"
      "snd s' = w'"
      using assms Some q Ret c
      by (auto simp: Proxy_ThreadHandler_def GetHandler_def deref_def Let_def fbind_eq_Inr_iff)
    have "opened w' = opened ?w" using pump_opened [OF s'(1)] s'(2) by auto
    also have "\<dots> = opened w1" by (simp add: set_options_def timeout_keeps alive_keeps)
    finally show ?thesis using target_opened [OF q] Ret by auto
  qed
qed

end

definition no_options :: "kernel helper" where
  "no_options = \<lparr>SetReadTimeOut = (\<lambda>_ _ w. w), SetKeepAlive = (\<lambda>_ _ w. w),
     ReadSocketBuffer = (\<lambda>_ _ w. (None, w))\<rparr>"

interpretation sim_full: proxy_env sim_full k_open sim_hostent no_options
  by unfold_locales (simp_all add: no_options_def sim_hostent_def)

end
