(* ===== verification/Libuv.thy ===== *)
theory Libuv
  imports Proxy
begin

text \<open>
  The proxy on libuv: \<open>LibuvServerSocket\<close> (\<open>libuv-socket/LibuvServerSocket.h\<close>, \<open>.cpp\<close>) and
  \<open>LibuvProxySocket\<close> (\<open>interface/LibuvProxySocket.h\<close>, \<open>.cpp\<close>). libuv is the parameter \<open>uv\<close>; its event loop
  calls \<open>on_new_connection\<close> with a status for every event on the listening handle, and the statuses of
  a run are the argument of \<open>uv_events\<close>.
\<close>

section \<open>The server\<close>

text \<open>Closing a handle returns no result; \<open>uv_close_pair\<close> closes both handles of a pair.\<close>

record 'w uv =
  uv_bind :: "sockaddr_in \<Rightarrow> 'w \<Rightarrow> 'w"
  uv_listen :: "int \<Rightarrow> 'w \<Rightarrow> int \<times> 'w"
  uv_accept :: "'w \<Rightarrow> int \<times> 'w"
  uv_close_pair :: "'w \<Rightarrow> 'w"

record 'r LibuvServerSocket =
  uv_port :: int
  uv_max_connections :: int
  uv_address :: sockaddr_in
  uv_routine :: "'r option"
  uv_info :: "NODE_INFO slot"
  uv_loop :: "unit slot"

definition LibuvServer_new :: "int \<Rightarrow> int \<Rightarrow> 'r LibuvServerSocket" where
  "LibuvServer_new port num_of_connections =
     \<lparr>uv_port = port, uv_max_connections = num_of_connections,
      uv_address = \<lparr>sin_port = word_of_int port, sin_addr = 0\<rparr>,
      uv_routine = None, uv_info = Indeterminate, uv_loop = Indeterminate\<rparr>"

definition LibuvServer_StartListeningThread ::
    "string \<Rightarrow> 'r \<Rightarrow> ('r, 'a) LibuvServerSocket_scheme \<Rightarrow>
     fault + (bool \<times> ('r, 'a) LibuvServerSocket_scheme)" where
  "LibuvServer_StartListeningThread name routine this =
     fbind (strcpy NODE_INFO_SIZE name) (\<lambda>name.
       Inr (True, this\<lparr>uv_info := Ptr \<lparr>node_info = name, node_mode = 1\<rparr>, uv_routine := Some routine\<rparr>))"

definition LibuvServer_Open ::
    "string \<Rightarrow> 'r \<Rightarrow> ('r, 'a) LibuvServerSocket_scheme \<Rightarrow>
     fault + (bool \<times> ('r, 'a) LibuvServerSocket_scheme)" where
  "LibuvServer_Open name routine this = LibuvServer_StartListeningThread name routine this"

text \<open>\<open>ClientThreadProc\<close> calls the routine; unlike that of \<open>CServerSocket\<close> it catches nothing.\<close>

definition LibuvServer_ClientThreadProc :: "'s routine \<Rightarrow> 's routine" where
  "LibuvServer_ClientThreadProc routine clientData s = routine clientData s"

text \<open>
  The client data of a new connection are filled in partly: the port, the address and the pointer to
  a \<open>Socket\<close> are never set. The state is that of the routine, beside the world.
\<close>

definition on_new_connection ::
    "'w uv \<Rightarrow> ('o \<times> 'w) routine \<Rightarrow> NODE_INFO \<Rightarrow> int \<Rightarrow> 'o \<times> 'w \<Rightarrow>
     (fault + (unit outcome \<times> 'o \<times> 'w)) option" where
  "on_new_connection uv routine i status = (\<lambda>(s, w).
     if status < 0 then Some (Inr (Ret (), s, w))
     else let (r, w) = uv_accept uv w
       in if r = 0 then
            LibuvServer_ClientThreadProc routine
              \<lparr>client_port = None, remote_addr = None, cd_node_info = node_info i,
               cd_mode = node_mode i, cd_client_socket = Indeterminate\<rparr> (s, w)
          else Some (Inr (Ret (), s, uv_close_pair uv w)))"

fun uv_events ::
    "'w uv \<Rightarrow> ('o \<times> 'w) routine \<Rightarrow> NODE_INFO \<Rightarrow> int list \<Rightarrow> 'o \<times> 'w \<Rightarrow>
     (fault + (unit outcome \<times> 'o \<times> 'w)) option" where
  "uv_events uv routine i [] s = Some (Inr (Ret (), s))"
| "uv_events uv routine i (status # statuses) s =
     Option.bind (on_new_connection uv routine i status s) (\<lambda>q.
       case q of Inl e \<Rightarrow> Some (Inl e)
       | Inr (r, s) \<Rightarrow> (case r of Throw e \<Rightarrow> Some (Inr (Throw e, s))
                       | Ret _ \<Rightarrow> uv_events uv routine i statuses s))"

text \<open>
  The listening thread, on the object whose information it was given: it binds, listens and runs
  the loop. The result of the binding is not looked at.
\<close>

definition LibuvServer_ListenThreadProc ::
    "'w uv \<Rightarrow> ('o \<times> 'w) routine \<Rightarrow> ('r, 'a) LibuvServerSocket_scheme \<Rightarrow> int list \<Rightarrow> 'o \<times> 'w \<Rightarrow>
     (fault + (unit outcome \<times> 'o \<times> 'w)) option" where
  "LibuvServer_ListenThreadProc uv routine this statuses = (\<lambda>(s, w).
     case deref (uv_info this) of Inl e \<Rightarrow> Some (Inl e)
     | Inr i \<Rightarrow>
         (let (listen_result, w) = uv_listen uv 128 (uv_bind uv (uv_address this) w)
          in if listen_result \<noteq> 0 then Some (Inr (Ret (), s, w))
             else uv_events uv routine i statuses (s, w)))"

section \<open>The proxy\<close>

record ('p, 'x, 'st, 'lb) LibuvProxySocket = "'p thread_function LibuvServerSocket" +
  uv_handler :: "'x CProxyHandler option"
  uv_configValues :: "RESOLVED_SERVICE list"
  uv_override :: "'p thread_function"
  uv_strategy :: 'st
  uv_balancer :: "'lb slot"

definition LibuvProxy_new :: "int \<Rightarrow> int \<Rightarrow> 'st \<Rightarrow> ('p, 'x, 'st, 'lb) LibuvProxySocket" where
  "LibuvProxy_new limit port strategy =
     LibuvServerSocket.extend (LibuvServer_new port limit)
       (LibuvProxySocket.fields None [] BuiltIn strategy Indeterminate)"

definition Libuv_SetHandler ::
    "'x CProxyHandler option \<Rightarrow> ('p, 'x, 'st, 'lb) LibuvProxySocket \<Rightarrow>
     bool \<times> ('p, 'x, 'st, 'lb) LibuvProxySocket" where
  "Libuv_SetHandler handler this = (let this = this\<lparr>uv_handler := handler\<rparr> in (uv_handler this \<noteq> None, this))"

definition Libuv_SetPipeline ::
    "'p option \<Rightarrow> ('p, 'x, 'st, 'lb) LibuvProxySocket \<Rightarrow> bool \<times> ('p, 'x, 'st, 'lb) LibuvProxySocket" where
  "Libuv_SetPipeline pipelineFunction this =
     (case pipelineFunction of None \<Rightarrow> (False, this)
      | Some f \<Rightarrow> (True, this\<lparr>uv_override := Pipeline f\<rparr>))"

definition Libuv_SetConfigValues ::
    "RESOLVED_SERVICE list \<Rightarrow> ('p, 'x, 'st, 'lb) LibuvProxySocket \<Rightarrow>
     bool \<times> ('p, 'x, 'st, 'lb) LibuvProxySocket" where
  "Libuv_SetConfigValues configValues this = (True, this\<lparr>uv_configValues := configValues\<rparr>)"

definition Libuv_Start ::
    "('st, 'lb) balancer \<Rightarrow> string \<Rightarrow> ('p, 'x, 'st, 'lb) LibuvProxySocket \<Rightarrow>
     fault + (bool \<times> ('p, 'x, 'st, 'lb) LibuvProxySocket)" where
  "Libuv_Start bal identifier this =
     (let lb = fold (addServer bal) (uv_configValues this) (new_balancer bal (uv_strategy this));
          this = this\<lparr>uv_balancer := Ptr lb\<rparr>
      in LibuvServer_Open identifier (uv_override this) this)"

type_synonym ('p, 'x, 'st, 'lb, 'w) libuv_state =
  "(('p, 'x, 'st, 'lb) LibuvProxySocket \<times> 'x \<times> heap) \<times> 'w"

definition Libuv_ThreadHandler ::
    "'w os \<Rightarrow> 'w resolver \<Rightarrow> 'w helper \<Rightarrow> ('st, 'lb) balancer \<Rightarrow>
     ('p, 'x, 'st, 'lb, 'w) libuv_state routine" where
  "Libuv_ThreadHandler os create_hostent hp bal clientData = (\<lambda>((this, x, h), w).
     case uv_handler this of None \<Rightarrow> Some (Inr (Ret (), (this, x, h), w))
     | Some proxy_handler \<Rightarrow>
       (case connect_target os create_hostent bal (uv_balancer this) h w of
          Inl e \<Rightarrow> Some (Inl e)
        | Inr (r, lb, h, w) \<Rightarrow>
          (let this = this\<lparr>uv_balancer := lb\<rparr> in
           case r of Throw e \<Rightarrow> Some (Inr (Throw e, (this, x, h), w))
           | Ret target_socket \<Rightarrow>
             (case deref (cd_client_socket clientData) of Inl e \<Rightarrow> Some (Inl e)
              | Inr client_socket \<Rightarrow>
                  let w = SetReadTimeOut hp (sock_fd target_socket) 1
                            (SetReadTimeOut hp (sock_fd client_socket) 1 w)
                  in map_option (\<lambda>q. fbind q (\<lambda>(x, w). Inr (Ret (), (this, x, h), w)))
                       (pump (libuv_round os proxy_handler (sock_fd client_socket) (sock_fd target_socket))
                          (x, w))))))"

end
