(* ===== verification/Proxy_Theorems.thy ===== *)
theory Proxy_Theorems
  imports Proxy Libuv
begin

text \<open>Properties of the proxy servers and of the sessions they run.\<close>

section \<open>Sessions\<close>

lemma handler_session:
  assumes "relay_session os inp out fails complete ph (sock_fd client) (sock_fd target)"
    and "m_handler this = Some ph"
    and "connect_target os create_hostent bal (loadBalancer this) h w = Inr (Ret target, lb, h', w1)"
    and "cd_client_socket d = Ptr client"
  shows "case Proxy_ThreadHandler os create_hostent hp bal d (this, x, h, w) of
      Some q \<Rightarrow> \<exists>x' w' tr. q = Inr (Ret (), this\<lparr>loadBalancer := lb\<rparr>, x', h', w') \<and>
        relayed complete ph inp out (sock_fd client) (sock_fd target) tr
          (x, set_options hp (sock_fd client) (sock_fd target) w1) (x', w') \<and>
        (\<exists>dir put. (dir, [], put) \<in> set tr)
    | None \<Rightarrow> \<exists>f. spins (proxy_round os ph (sock_fd client) (sock_fd target))
          (idle_round os (sock_fd client) (sock_fd target))
          (x, set_options hp (sock_fd client) (sock_fd target) w1) f \<and>
        (\<forall>n. \<exists>tr. relayed complete ph inp out (sock_fd client) (sock_fd target) tr
          (x, set_options hp (sock_fd client) (sock_fd target) w1) (f n))"
proof -
  let ?s = "(x, set_options hp (sock_fd client) (sock_fd target) w1)"
  have run: "Proxy_ThreadHandler os create_hostent hp bal d (this, x, h, w) =
      map_option (\<lambda>q. fbind q (\<lambda>(x, w). Inr (Ret (), this\<lparr>loadBalancer := lb\<rparr>, x, h', w)))
        (pump (proxy_round os ph (sock_fd client) (sock_fd target)) ?s)"
    using assms(2-4)
    by (simp add: Proxy_ThreadHandler_def GetHandler_def deref_def Let_def)
  show ?thesis
  proof (cases "pump (proxy_round os ph (sock_fd client) (sock_fd target)) ?s")
    case None
    then show ?thesis using run relay_session.proxy_session [OF assms(1), of ?s] by simp
  next
    case (Some q)
    with relay_session.proxy_session [OF assms(1), of ?s] obtain x' w' tr where
      "q = Inr (x', w')" "relayed complete ph inp out (sock_fd client) (sock_fd target) tr ?s (x', w')"
      "[] \<in> (\<lambda>e. fst (snd e)) ` set tr" by fastforce
    moreover from this(3) have "\<exists>dir put. (dir, [], put) \<in> set tr" by force
    ultimately show ?thesis using run Some by auto
  qed
qed

text \<open>C1: A proxy session relays faithfully, and the only thing it can wait for is its peers. The conditions are:
  the handler is set, never throws on the empty string, and its answers are shorter than \<open>2 ^ 31\<close>
  bytes; the target can be reached; the two descriptors are distinct, not negative and below
  \<open>FD_SETSIZE\<close>; a peer sends finitely many bytes, \<open>recv\<close> fails only finitely often on a descriptor,
  the calls on one descriptor leave the streams of the others alone, and \<open>select\<close> reports no other
  descriptors than it was asked for. Then either \<open>ThreadHandler\<close> returns, or it runs for ever. If it
  returns, there is a sequence of exchanges such that what was read from the client is exactly what was
  taken off its stream; what the target's kernel accepted are prefixes of the answers of
  \<open>HandleUpstreamData\<close> on those chunks in their order, and the whole answers if the kernel always
  accepts everything (\<open>complete\<close>); the same holds for the other direction; the handler's state went
  through all these calls; and the session ended after one of the two streams delivered nothing. If it
  runs for ever, every round of its loop returns, what it has exchanged up to any round is relayed in the
  same way, and from some round on \<open>select\<close> never again reports any of the two descriptors.
\<close>

theorem proxy_session_relays:
  assumes "relay_session os inp out fails complete ph (sock_fd client) (sock_fd target)"
    and "m_handler this = Some ph"
    and "connect_target os create_hostent bal (loadBalancer this) h w = Inr (Ret target, lb, h', w1)"
    and "cd_client_socket d = Ptr client"
  shows "case Proxy_ThreadHandler os create_hostent hp bal d (this, x, h, w) of
      Some q \<Rightarrow> \<exists>x' w' tr. q = Inr (Ret (), this\<lparr>loadBalancer := lb\<rparr>, x', h', w') \<and>
        relayed complete ph inp out (sock_fd client) (sock_fd target) tr
          (x, set_options hp (sock_fd client) (sock_fd target) w1) (x', w') \<and>
        (\<exists>dir put. (dir, [], put) \<in> set tr)
    | None \<Rightarrow> \<exists>f. spins (proxy_round os ph (sock_fd client) (sock_fd target))
          (idle_round os (sock_fd client) (sock_fd target))
          (x, set_options hp (sock_fd client) (sock_fd target) w1) f \<and>
        (\<forall>n. \<exists>tr. relayed complete ph inp out (sock_fd client) (sock_fd target) tr
          (x, set_options hp (sock_fd client) (sock_fd target) w1) (f n))"
  by (rule handler_session [OF assms])

text \<open>A concrete proxy: one configured service, a load balancer that counts, a client on descriptor 9.\<close>

definition sample_service :: RESOLVED_SERVICE where
  "sample_service = \<lparr>ipaddress = ''10.0.0.1'', service_port = 9000, source_hostname = ''db''\<rparr>"

definition counting_balancer :: "(unit, nat) balancer" where
  "counting_balancer = \<lparr>new_balancer = (\<lambda>_. 0), addServer = (\<lambda>_ n. n),
     requestServer = (\<lambda>n. (Ret sample_service, n + 1))\<rparr>"

definition sample_proxy :: "(unit, nat, unit, nat) CProxySocket" where
  "sample_proxy = \<lparr>sock_fd = 4, refCounter = 0, m_ProtocolPort = 9000, max_connections = 128,
     info = \<lparr>node_info = [], node_mode = 0\<rparr>, socket_address = \<lparr>sin_port = 9000, sin_addr = 0\<rparr>,
     thread_routine = None, listener = None, m_handler = Some pass_through, m_configValues = [sample_service],
     thread_routine_override = BuiltIn, loadBalancerStrategy = (), loadBalancer = Ptr 0,
     hostname_map = Indeterminate\<rparr>"

definition sample_client :: Socket where
  "sample_client = \<lparr>sock_fd = 9, refCounter = 7\<rparr>"

definition sample_data :: CLIENT_DATA where
  "sample_data = \<lparr>client_port = Some 9, remote_addr = Some ''0.0.0.0'', cd_node_info = [], cd_mode = 1,
     cd_client_socket = Ptr sample_client\<rparr>"

definition sample_world :: kernel where
  "sample_world = boot\<lparr>k_in := (\<lambda>s. if s = 9 then [[1, 2], [3]] else []), k_open := {9}\<rparr>"

lemma sim_connect:
  assumes "k_next w = 3" and "3 \<notin> k_open w"
  shows "\<exists>target h' w1. connect_target sim_full sim_hostent counting_balancer (Ptr 0) h w =
     Inr (Ret target, Ptr 1, h', w1) \<and> sock_fd target = 3 \<and> k_in w1 = k_in w \<and> sim_out 3 w1 = sim_out 3 w"
  using assms
  by (simp add: sim_out_def sent_on_append connect_target_def counting_balancer_def sample_service_def
      Client_new_def Socket_new_def CreateSocket_def sim_full_def sim_def sim_open_def log_def
      Start_def new_counter_def INVALID_SOCKET_def strcpy_def SERVER_NAME_SIZE_def
      Connect_def Resolve_def isalpha_def sim_hostent_def c_free_def Socket.extend_def CClientSocket.fields_def)

lemma sample_connect:
  "\<exists>target h' w1. connect_target sim_full sim_hostent counting_balancer (Ptr 0) empty_heap sample_world =
     Inr (Ret target, Ptr 1, h', w1) \<and> sock_fd target = 3 \<and> k_in w1 = k_in sample_world \<and>
     sim_out 3 w1 = []"
  using sim_connect [of sample_world empty_heap] by (simp add: sample_world_def boot_def sim_out_def)

lemma sample_session:
  "\<exists>x' h' w'. Proxy_ThreadHandler sim_full sim_hostent no_options counting_balancer sample_data
      (sample_proxy, 0, empty_heap, sample_world) =
        Some (Inr (Ret (), sample_proxy\<lparr>loadBalancer := Ptr 1\<rparr>, x', h', w'))"
proof -
  obtain target h' w1 where c: "connect_target sim_full sim_hostent counting_balancer (Ptr 0) empty_heap sample_world =
     Inr (Ret target, Ptr 1, h', w1)" "sock_fd target = 3"
    using sample_connect by blast
  obtain s' where "pump (proxy_round sim_full pass_through 9 3) (0, w1) = Some (Inr s')"
    using sim_session.busy_session sim_never_idle sim_session.distinct by blast
  moreover obtain x' w' where "s' = (x', w')" by fastforce
  ultimately show ?thesis
    using c by (simp add: Proxy_ThreadHandler_def GetHandler_def deref_def set_options_def no_options_def
        sample_proxy_def sample_data_def sample_client_def)
qed

lemma chunk_bound: "e \<in> set tr \<Longrightarrow> fst e = d \<Longrightarrow> length (fst (snd e)) \<le> length (got_on d tr)"
  by (induction tr) (auto simp: got_on_def)

lemma pass_through_puts:
  "explains True pass_through tr x x' \<Longrightarrow> \<forall>e \<in> set tr. fst e = d \<longrightarrow> length (fst (snd e)) < 2 ^ 31 \<Longrightarrow>
   put_on d tr = got_on d tr"
  by (induction True "pass_through" tr x x' rule: explains.induct)
    (auto simp: handle_pass_through pass_on_def Let_def put_on_def got_on_def split: prod.splits)

theorem proxy_session_relays_witness:
  "\<exists>this x' h' w' sent_up. Proxy_ThreadHandler sim_full sim_hostent no_options counting_balancer sample_data
      (sample_proxy, 0, empty_heap, sample_world) = Some (Inr (Ret (), this, x', h', w')) \<and>
    sent_up @ sim_in 9 w' = [1, 2, 3] \<and> sim_out 3 w' = sent_up"
proof -
  obtain target h' w1 where c: "connect_target sim_full sim_hostent counting_balancer (Ptr 0) empty_heap sample_world =
     Inr (Ret target, Ptr 1, h', w1)" "sock_fd target = 3" "k_in w1 = k_in sample_world" "sim_out 3 w1 = []"
    using sample_connect by blast
  have o: "set_options no_options a b w1 = w1" for a b by (simp add: set_options_def no_options_def)
  have "relay_session sim_full sim_in sim_out sim_fails True pass_through
      (sock_fd sample_client) (sock_fd target)"
    using sim_session.relay_session_axioms c(2) by (simp add: sample_client_def)
  note told = proxy_session_relays [OF this, of sample_proxy sim_hostent counting_balancer empty_heap
      sample_world "Ptr 1" h' w1 sample_data, where hp = no_options and x = 0]
  have no_wait: "\<not> spins r (idle_round sim_full 9 3) v f" for r v and f :: "nat \<Rightarrow> nat \<times> kernel"
    using spins_waits [of r "idle_round sim_full 9 3" v f] sim_never_idle sim_session.distinct by blast
  obtain x' w' tr where r: "Proxy_ThreadHandler sim_full sim_hostent no_options counting_balancer sample_data
      (sample_proxy, 0, empty_heap, sample_world) =
        Some (Inr (Ret (), sample_proxy\<lparr>loadBalancer := Ptr 1\<rparr>, x', h', w'))"
    "relayed True pass_through sim_in sim_out 9 3 tr (0, w1) (x', w')"
    using told c(1) no_wait
    by (cases "Proxy_ThreadHandler sim_full sim_hostent no_options counting_balancer sample_data
      (sample_proxy, 0, empty_heap, sample_world)") (auto simp: sample_proxy_def sample_data_def sample_client_def o c(2))
  have "sim_in 9 w1 = [1, 2, 3]" by (simp add: sim_in_def c(3) sample_world_def)
  then have g: "got_on Upstream tr @ sim_in 9 w' = [1, 2, 3]" "sim_out 3 w' = put_on Upstream tr"
    using r(2) c(4) by (simp_all add: relayed_def)
  have "length (got_on Upstream tr) \<le> 3" using arg_cong [OF g(1), of length] by simp
  then have "\<forall>e \<in> set tr. fst e = Upstream \<longrightarrow> length (fst (snd e)) < 2 ^ 31"
    using chunk_bound [of _ tr Upstream] by fastforce
  then have "put_on Upstream tr = got_on Upstream tr"
    using r(2) pass_through_puts by (auto simp: relayed_def)
  with r(1) g show ?thesis by auto
qed

text \<open>C14: A handler that throws on the empty string makes the session spin for ever once both peers have
  closed their connections: every round reads the empty string, the exception skips the assignment
  that would end the loop, and \<open>ThreadHandler\<close> never returns.
\<close>

theorem throwing_handler_never_ends:
  assumes "posix_live os inp out fails" and "fd_ok client" and "fd_ok target"
    and "\<And>dir x. \<exists>e x'. handle_of ph dir [] 0 x = (Throw e, x')"
    and "inp client w = []" and "inp target w = []"
  shows "pump (proxy_round os ph client target) (x, w) = None"
proof (rule pump_diverges [where I = "\<lambda>(x, w). inp client w = [] \<and> inp target w = []"])
  fix s :: "'b \<times> 'a" assume "case s of (x, w) \<Rightarrow> inp client w = [] \<and> inp target w = []"
  then obtain x w where "s = (x, w)" "inp client w = []" "inp target w = []" by (cases s) auto
  with posix_live.ended_round [OF assms(1-4), of w x]
  show "\<exists>s'. proxy_round os ph client target s = Some (Inr (True, s')) \<and>
      (case s' of (x, w) \<Rightarrow> inp client w = [] \<and> inp target w = [])" by auto
qed (use assms(5,6) in simp)

definition grumpy :: "unit CProxyHandler" where
  "grumpy = \<lparr>HandleUpstreamData = (\<lambda>bs n x. if bs = [] then (Throw ''empty'', x) else (Ret bs, x)),
     HandleDownStreamData = (\<lambda>bs n x. if bs = [] then (Throw ''empty'', x) else (Ret bs, x))\<rparr>"

theorem throwing_handler_never_ends_witness:
  "pump (proxy_round sim grumpy 9 3) ((), boot) = None"
proof (rule throwing_handler_never_ends [OF sim.posix_live_axioms])
  show "\<exists>e x'. handle_of grumpy dir [] 0 x = (Throw e, x')" for dir x
    by (cases dir) (simp_all add: grumpy_def)
qed (simp_all add: fd_ok_def FD_SETSIZE_def sim_in_def boot_def)

text \<open>A session on a descriptor outside the \<open>fd_set\<close>, that is, one that is negative or not below 1024,
  writes outside the set in its first round, in both proxies.
\<close>

theorem descriptor_beyond_fd_set:
  assumes "\<not> fd_ok client \<or> \<not> fd_ok target"
  shows "pump (proxy_round os ph client target) s = Some (Inl OutOfBounds) \<and>
    pump (libuv_round os ph client target) s = Some (Inl OutOfBounds)"
proof -
  have "proxy_round os ph client target s = Some (Inl OutOfBounds)"
    by (simp add: proxy_round_def SocketSelect_outside [OF assms])
  from pump_fault [of "proxy_round os ph client target", OF this] show ?thesis by (simp add: rounds_agree)
qed

theorem descriptor_beyond_fd_set_witness:
  "pump (proxy_round sim pass_through 1024 3) (0, boot) = Some (Inl OutOfBounds)"
  using descriptor_beyond_fd_set [of 1024 3 sim pass_through "(0, boot)"]
  by (simp add: fd_ok_def FD_SETSIZE_def)

section \<open>Descriptors\<close>

text \<open>Serving a connection closes nothing. Every descriptor that was open when the task started is
  still open when it has ended, the client's included, whichever way it ended; and a session that was
  served leaves one more open, the one it connected to its target with.
\<close>

theorem sessions_close_nothing:
  assumes "proxy_env os opened create_hostent hp"
    and "Proxy_ThreadHandler os create_hostent hp bal d (this, x, h, w) = Some (Inr (r, this', x', h', w'))"
  shows "opened w \<subseteq> opened w' \<and>
    (m_handler this \<noteq> None \<and> r = Ret () \<longrightarrow> (\<exists>t. t \<notin> opened w \<and> opened w' = insert t (opened w)))"
  using proxy_env.session_opened [OF assms] by auto

theorem sessions_close_nothing_witness:
  "\<exists>this x' h' w' t. Proxy_ThreadHandler sim_full sim_hostent no_options counting_balancer sample_data
      (sample_proxy, 0, empty_heap, sample_world) = Some (Inr (Ret (), this, x', h', w')) \<and>
    k_open w' = {t, 9} \<and> t \<noteq> 9"
proof -
  obtain x' h' w' where r: "Proxy_ThreadHandler sim_full sim_hostent no_options counting_balancer sample_data
      (sample_proxy, 0, empty_heap, sample_world) =
        Some (Inr (Ret (), sample_proxy\<lparr>loadBalancer := Ptr 1\<rparr>, x', h', w'))"
    using sample_session by blast
  obtain t where "t \<notin> k_open sample_world" "k_open w' = insert t (k_open sample_world)"
    using sessions_close_nothing [OF sim_full.proxy_env_axioms r] by (auto simp: sample_proxy_def)
  then have "k_open w' = {t, 9} \<and> t \<noteq> 9" by (auto simp: sample_world_def)
  with r show ?thesis by blast
qed

end
