(* ===== verification/Setup_Theorems.thy ===== *)
theory Setup_Theorems
  imports Proxy_Theorems
begin

text \<open>Properties of how the servers are configured and started, and of what is missing in two of them.\<close>

text \<open>What \<open>Start\<close> gives to the load balancer and to the map of host names.\<close>

lemma services_loaded:
  "fold (load_service bal) services (lb, Map.empty) =
    (fold (addServer bal) services lb,
     (\<lambda>host. if host = [] then None else find (\<lambda>s. source_hostname s = host) (rev services)))"
proof -
  have "fold (load_service bal) services (lb, hosts) = (fold (addServer bal) services lb,
      (\<lambda>host. if host = [] then hosts [] else
         case find (\<lambda>s. source_hostname s = host) (rev services) of None \<Rightarrow> hosts host | Some s \<Rightarrow> Some s))"
    for hosts :: "string \<rightharpoonup> RESOLVED_SERVICE"
    by (induction services arbitrary: lb hosts)
      (auto simp: load_service_def find_append fun_eq_iff split: option.split)
  then show ?thesis by (simp add: fun_eq_iff split: option.split)
qed

lemma proxy_started:
  assumes "Proxy_Start os bal identifier this w = Inr (r, this', w')"
  shows "loadBalancer this' = Ptr (fold (addServer bal) (m_configValues this) (new_balancer bal (loadBalancerStrategy this)))"
    "hostname_map this' = Ptr (\<lambda>host. if host = [] then None
       else find (\<lambda>s. source_hostname s = host) (rev (m_configValues this)))"
    "m_handler this' = m_handler this"
  using assms
  by (auto simp: Proxy_Start_def GetConfigValues_def services_loaded Server_Open_def StartListeningThread_def
      Let_def fbind_eq_Inr_iff split: prod.splits if_splits)

text \<open>Starting a proxy loads its configuration. Whatever becomes of opening the socket, the new load
  balancer has been given every configured service, in order, and the host name map sends a host name
  to the last service configured with it; services without a host name are not in the map. The
  handler is unchanged.
\<close>

theorem proxy_start_loads_configuration:
  assumes "Proxy_Start os bal identifier this w = Inr (r, this', w')"
  shows "\<exists>hosts. loadBalancer this' =
        Ptr (fold (addServer bal) (m_configValues this) (new_balancer bal (loadBalancerStrategy this))) \<and>
      hostname_map this' = Ptr hosts \<and>
      (\<forall>host. hosts host = (if host = [] then None
         else find (\<lambda>s. source_hostname s = host) (rev (m_configValues this)))) \<and>
      m_handler this' = m_handler this"
  using proxy_started [OF assms] by simp

definition listing_balancer :: "(unit, string list) balancer" where
  "listing_balancer = \<lparr>new_balancer = (\<lambda>_. []), addServer = (\<lambda>s ips. ips @ [ipaddress s]),
     requestServer = (\<lambda>ips. (Throw ''empty'', ips))\<rparr>"

definition listed_services :: "RESOLVED_SERVICE list" where
  "listed_services = [\<lparr>ipaddress = ''10.0.0.1'', service_port = 9000, source_hostname = ''db''\<rparr>,
     \<lparr>ipaddress = ''10.0.0.2'', service_port = 9000, source_hostname = []\<rparr>,
     \<lparr>ipaddress = ''10.0.0.3'', service_port = 9000, source_hostname = ''db''\<rparr>]"

definition listing_proxy :: "(unit, nat, unit, string list) CProxySocket" where
  "listing_proxy = \<lparr>sock_fd = 4, refCounter = 0, m_ProtocolPort = 9000, max_connections = 128,
     info = \<lparr>node_info = [], node_mode = 0\<rparr>, socket_address = \<lparr>sin_port = 9000, sin_addr = 0\<rparr>,
     thread_routine = None, listener = None, m_handler = Some pass_through,
     m_configValues = listed_services, thread_routine_override = BuiltIn, loadBalancerStrategy = (),
     loadBalancer = Indeterminate, hostname_map = Indeterminate\<rparr>"

theorem proxy_start_loads_configuration_witness:
  "\<exists>this' hosts. Proxy_Start sim listing_balancer ''node'' listing_proxy boot = Inr (Ret True, this', boot) \<and>
     loadBalancer this' = Ptr [''10.0.0.1'', ''10.0.0.2'', ''10.0.0.3''] \<and> hostname_map this' = Ptr hosts \<and>
     map_option ipaddress (hosts ''db'') = Some ''10.0.0.3'' \<and> hosts [] = None"
proof -
  have "strcpy NODE_INFO_SIZE ''node'' = Inr ''node''" by (simp add: strcpy_def NODE_INFO_SIZE_def)
  moreover obtain lb hosts where "fold (load_service listing_balancer) (GetConfigValues listing_proxy)
      (new_balancer listing_balancer (), Map.empty) = (lb, hosts)" by fastforce
  ultimately obtain this' where r: "Proxy_Start sim listing_balancer ''node'' listing_proxy boot = Inr (Ret True, this', boot)"
    by (simp add: Proxy_Start_def Server_Open_def StartListeningThread_def sim_def Let_def)
  obtain hosts where h: "loadBalancer this' = Ptr (fold (addServer listing_balancer) listed_services [])"
    "hostname_map this' = Ptr hosts"
    "\<And>host. hosts host = (if host = [] then None
       else find (\<lambda>s. source_hostname s = host) (rev listed_services))"
    using proxy_start_loads_configuration [OF r] by (auto simp: listing_proxy_def listing_balancer_def)
  have "loadBalancer this' = Ptr [''10.0.0.1'', ''10.0.0.2'', ''10.0.0.3'']"
    by (simp add: h(1) listing_balancer_def listed_services_def)
  moreover have "map_option ipaddress (hosts ''db'') = Some ''10.0.0.3''" "hosts [] = None"
    by (simp_all add: h(3) listed_services_def)
  ultimately show ?thesis using r h(2) by blast
qed

text \<open>An API gateway that was opened without a pipeline cannot serve. Its \<open>Start\<close> does not create the
  load balancer that the inherited \<open>ThreadHandler\<close> asks for a server, so the first connection uses a
  pointer that was never set.
\<close>

theorem gateway_without_pipeline_faults:
  fixes gateway :: "('p, 'x, 'st, 'lb) CApiGatewaySocket"
  assumes "Gateway_new os limit port strategy h w = Inr (Ret gateway, h1, w1)"
    and "Gateway_Start os identifier (snd (SetHandler (Some ph) gateway)) w1 = Inr (Ret True, gateway', w2)"
  shows "thread_routine gateway' = Some BuiltIn \<and>
    Proxy_ThreadHandler os create_hostent hp bal d (CProxySocket.truncate gateway', x, h2, w3) =
      Some (Inl Uninitialised)"
proof -
  obtain q :: "('p, 'x, 'st, 'lb) CProxySocket outcome" and h0 w0 where q: "Proxy_new os limit port strategy h w = Inr (q, h0, w0)"
    using assms(1) by (auto simp: Gateway_new_def fbind_eq_Inr_iff)
  then obtain proxy where p: "q = Ret proxy"
    "gateway = CProxySocket.extend proxy (CApiGatewaySocket.fields Map.empty)"
    using assms(1) by (cases q) (auto simp: Gateway_new_def)
  obtain q1 :: "'p thread_function CServerSocket outcome" and h2 w2 where s: "Server_new os port limit BlockingSocket h w = Inr (q1, h2, w2)"
    using q by (auto simp: Proxy_new_def fbind_eq_Inr_iff)
  then obtain server where
    "proxy = CServerSocket.extend server (CProxySocket.fields None [] BuiltIn strategy Indeterminate Indeterminate)"
    using q p(1) by (cases q1) (auto simp: Proxy_new_def)
  with p(2) have "loadBalancer gateway = Indeterminate \<and> thread_routine_override gateway = BuiltIn"
    by (simp add: CProxySocket.extend_def CServerSocket.extend_def CProxySocket.fields_def)
  then have "loadBalancer gateway' = Indeterminate \<and> m_handler gateway' = Some ph \<and>
      thread_routine gateway' = Some BuiltIn"
    using assms(2)
    by (auto simp: Gateway_Start_def SetHandler_def Server_Open_def StartListeningThread_def Let_def
        fbind_eq_Inr_iff split: prod.splits if_splits)
  then show ?thesis
    by (simp add: Proxy_ThreadHandler_def GetHandler_def CProxySocket.truncate_def connect_target_def)
qed

theorem gateway_without_pipeline_faults_witness:
  "\<exists>gateway' :: (unit, nat, unit, nat) CApiGatewaySocket.
     thread_routine gateway' = Some BuiltIn \<and>
     Proxy_ThreadHandler sim sim_hostent no_options counting_balancer sample_data
       (CProxySocket.truncate gateway', 0, empty_heap, sample_world) = Some (Inl Uninitialised)"
proof -
  obtain gateway :: "(unit, nat, unit, nat) CApiGatewaySocket" and h1 w1 where
    g: "Gateway_new sim 128 9000 () empty_heap boot = Inr (Ret gateway, h1, w1)"
    by (simp add: Gateway_new_def Proxy_new_def Server_new_def Socket_new_def CreateSocket_def Start_def
        new_counter_def INVALID_SOCKET_def sim_def sim_open_def boot_def Let_def)
  have "strcpy NODE_INFO_SIZE ''node'' = Inr ''node''" by (simp add: strcpy_def NODE_INFO_SIZE_def)
  then obtain gateway' w2 where
    "Gateway_Start sim ''node'' (snd (SetHandler (Some pass_through) gateway)) w1 = Inr (Ret True, gateway', w2)"
    by (simp add: Gateway_Start_def Server_Open_def StartListeningThread_def sim_def Let_def)
  from gateway_without_pipeline_faults [OF g this] show ?thesis by blast
qed

text \<open>C39: The built-in routine of the libuv proxy never serves a connection. When libuv has accepted one and
  a handler is set, the routine asks the load balancer and connects to the target; if that fails, the
  exception leaves the callback, which nothing catches; if it succeeds, the routine uses the pointer to
  the client's socket, which \<open>on_new_connection\<close> never sets.
\<close>

theorem libuv_proxy_never_serves:
  assumes "0 \<le> status" and "uv_accept uv w = (0, w1)" and "uv_handler this = Some ph"
  shows "on_new_connection uv (Libuv_ThreadHandler os create_hostent hp bal) i status ((this, x, h), w) =
    (case connect_target os create_hostent bal (uv_balancer this) h w1 of
       Inl e \<Rightarrow> Some (Inl e)
     | Inr (Throw e, lb, h', w') \<Rightarrow> Some (Inr (Throw e, (this\<lparr>uv_balancer := lb\<rparr>, x, h'), w'))
     | Inr (Ret target, lb, h', w') \<Rightarrow> Some (Inl Uninitialised))"
  using assms
  by (simp add: on_new_connection_def LibuvServer_ClientThreadProc_def Libuv_ThreadHandler_def deref_def
      Let_def split: sum.split outcome.split)

definition sample_libuv :: "(unit, nat, unit, nat) LibuvProxySocket" where
  "sample_libuv = (LibuvProxy_new 128 9000 ())\<lparr>uv_handler := Some pass_through, uv_balancer := Ptr 0\<rparr>"

definition quiet_uv :: "kernel uv" where
  "quiet_uv = \<lparr>uv_bind = (\<lambda>a w. w), uv_listen = (\<lambda>n w. (0, w)), uv_accept = (\<lambda>w. (0, w)),
     uv_close_pair = (\<lambda>w. w)\<rparr>"

theorem libuv_proxy_never_serves_witness:
  "on_new_connection quiet_uv (Libuv_ThreadHandler sim_full sim_hostent no_options counting_balancer)
     \<lparr>node_info = [], node_mode = 1\<rparr> 0 ((sample_libuv, 0, empty_heap), sample_world) =
   Some (Inl Uninitialised)"
proof -
  have "uv_accept quiet_uv sample_world = (0, sample_world)" by (simp add: quiet_uv_def)
  moreover have "uv_handler sample_libuv = Some pass_through" "uv_balancer sample_libuv = Ptr 0"
    by (simp_all add: sample_libuv_def)
  ultimately show ?thesis
    using libuv_proxy_never_serves [of 0 quiet_uv sample_world sample_world sample_libuv pass_through
        sim_full sim_hostent no_options counting_balancer "\<lparr>node_info = [], node_mode = 1\<rparr>" 0 empty_heap]
      sample_connect by auto
qed

end
