(* ===== verification/Schedule.thy ===== *)
theory Schedule
  imports Prelude
begin

text \<open>
  Threads as tasks that take turns. A server is a listener and a list of tasks; a schedule is a list of
  turns, and what a turn does is a parameter here. A turn may fault, not return, or let an exception out
  of its thread, which ends the process. A schedule runs until one of these happens.
\<close>

datatype turn = Listener | Task nat

fun run_turns ::
    "(turn \<Rightarrow> 's \<Rightarrow> (fault + (unit outcome \<times> 's)) option) \<Rightarrow> turn list \<Rightarrow> 's \<Rightarrow>
     (fault + (unit outcome \<times> 's)) option" where
  "run_turns take_turn [] s = Some (Inr (Ret (), s))"
| "run_turns take_turn (t # ts) s =
     Option.bind (take_turn t s) (\<lambda>q.
       case q of Inl e \<Rightarrow> Some (Inl e)
       | Inr (r, s) \<Rightarrow> (case r of Throw e \<Rightarrow> Some (Inr (Throw e, s)) | Ret _ \<Rightarrow> run_turns take_turn ts s))"

lemma run_turns_append:
  "run_turns take_turn (ts @ us) s =
     Option.bind (run_turns take_turn ts s) (\<lambda>q.
       case q of Inl e \<Rightarrow> Some (Inl e)
       | Inr (r, s) \<Rightarrow> (case r of Throw e \<Rightarrow> Some (Inr (Throw e, s)) | Ret _ \<Rightarrow> run_turns take_turn us s))"
proof (induction ts arbitrary: s)
  case (Cons t ts)
  show ?case
    by (cases "take_turn t s") (auto simp: Cons.IH split: sum.split outcome.split)
qed simp

lemma run_turns_Cons_returns:
  assumes "run_turns take_turn (t # ts) s = Some (Inr (r, s'))"
  obtains q s1 where "take_turn t s = Some (Inr (q, s1))"
    "case q of Throw e \<Rightarrow> r = Throw e \<and> s' = s1 | Ret _ \<Rightarrow> run_turns take_turn ts s1 = Some (Inr (r, s'))"
proof -
  obtain y where y: "take_turn t s = Some y" using assms by (auto simp: bind_eq_Some_conv)
  then obtain q s1 where "y = Inr (q, s1)" using assms by (cases y) auto
  with assms y that [of q s1] show thesis by (cases q) auto
qed

lemma run_turns_invariant:
  assumes "run_turns take_turn ts s = Some (Inr (r, s'))" and "P s"
    and "\<And>t s r s'. P s \<Longrightarrow> take_turn t s = Some (Inr (r, s')) \<Longrightarrow> P s'"
  shows "P s'"
  using assms(1,2)
proof (induction ts arbitrary: s)
  case (Cons t ts)
  obtain q s1 where q: "take_turn t s = Some (Inr (q, s1))"
    "case q of Throw e \<Rightarrow> r = Throw e \<and> s' = s1 | Ret _ \<Rightarrow> run_turns take_turn ts s1 = Some (Inr (r, s'))"
    by (rule run_turns_Cons_returns [OF Cons.prems(1)])
  from assms(3) [OF Cons.prems(2) q(1)] Cons.IH q(2) show ?case by (cases q) auto
qed simp

text \<open>A relation between states that every turn keeps holds between the ends of a schedule.\<close>

lemma run_turns_relates:
  assumes "run_turns take_turn ts s = Some (Inr (r, s'))" and "I s" and "\<And>s. I s \<Longrightarrow> R s s"
    and "\<And>t s r s'. I s \<Longrightarrow> take_turn t s = Some (Inr (r, s')) \<Longrightarrow> I s' \<and> R s s'"
    and "\<And>s s1 s2. R s s1 \<Longrightarrow> R s1 s2 \<Longrightarrow> R s s2"
  shows "I s' \<and> R s s'"
  by (rule run_turns_invariant [OF assms(1), of "\<lambda>s'. I s' \<and> R s s'"]) (use assms(2-5) in blast)+

end
