(* ===== verification/Sessions.thy ===== *)
theory Sessions
  imports Proxy Schedule
begin

text \<open>
  One proxy at work: the listener thread of \<open>socket/CServerSocket.cpp\<close> and the tasks of the accepted
  connections (\<open>CProxySocket::ThreadHandler\<close>), interleaved. The tasks share the proxy object with its
  load balancer, the state of the handler, the heap and the system; the \<open>EXECUTION_CONTEXT\<close> is a local
  variable of each. A schedule is a list of turns. A turn of the listener is one round of its loop; the
  turns of a task are the part of \<open>ThreadHandler\<close> before its loop, then the construction of the
  \<open>SocketSelect\<close> and the two halves of each round. A turn is atomic.
\<close>

section \<open>Tasks\<close>

text \<open>Where the loop of a session is: before its \<open>select\<close>, or before one of its halves.\<close>

datatype position = AtSelect | AtUpstream "int set" | AtDownstream "int set" bool

text \<open>
  The local variables of a running \<open>ThreadHandler\<close>. The handler's methods work on the state that the
  handler object keeps for all sessions (\<open>'h\<close>) and on the session's own context (\<open>'c\<close>).
\<close>

record ('h, 'c) session =
  ss_handler :: "('h \<times> 'c) CProxyHandler"
  ss_client :: int
  ss_target :: int
  ss_context :: 'c
  ss_next :: position

text \<open>A task that was pushed, runs its loop, has ended its loop, or ended before it.\<close>

datatype ('h, 'c) task =
    Pushed CLIENT_DATA
  | Relaying "('h, 'c) session"
  | Served "('h, 'c) session"
  | Dropped CLIENT_DATA

text \<open>\<open>ThreadHandler\<close> up to its loop; \<open>None\<close> if it ends there.\<close>

definition session_start ::
    "'w os \<Rightarrow> 'w resolver \<Rightarrow> 'w helper \<Rightarrow> ('st, 'lb) balancer \<Rightarrow> 'c \<Rightarrow> CLIENT_DATA \<Rightarrow>
     ('p, 'h \<times> 'c, 'st, 'lb) CProxySocket \<Rightarrow> heap \<Rightarrow> 'w \<Rightarrow>
     fault + (('h, 'c) session option \<times> ('p, 'h \<times> 'c, 'st, 'lb) CProxySocket \<times> heap \<times> 'w)" where
  "session_start os create_hostent hp bal ctx clientData this h w =
     (case GetHandler this of None \<Rightarrow> Inr (None, this, h, w)
      | Some proxy_handler \<Rightarrow>
          fbind (connect_target os create_hostent bal (loadBalancer this) h w) (\<lambda>(r, lb, h, w).
            let this = this\<lparr>loadBalancer := lb\<rparr> in
            case r of Throw e \<Rightarrow> Inr (None, this, h, w)
            | Ret target_socket \<Rightarrow>
                fbind (deref (cd_client_socket clientData)) (\<lambda>client_socket.
                  Inr (Some \<lparr>ss_handler = proxy_handler, ss_client = sock_fd client_socket,
                             ss_target = sock_fd target_socket, ss_context = ctx, ss_next = AtSelect\<rparr>,
                       this, h, set_options hp (sock_fd client_socket) (sock_fd target_socket) w))))"

text \<open>One turn of the loop; it answers whether the loop goes on.\<close>

definition session_turn ::
    "'w os \<Rightarrow> ('h, 'c) session \<Rightarrow> 'h \<Rightarrow> 'w \<Rightarrow> (fault + (bool \<times> ('h, 'c) session \<times> 'h \<times> 'w)) option" where
  "session_turn os ss h w =
     (case ss_next ss of
        AtSelect \<Rightarrow>
          Some (fbind (SocketSelect_new os (ss_client ss) (Some (ss_target ss)) NonBlockingSocket w)
            (\<lambda>(fds, w). Inr (True, ss\<lparr>ss_next := AtUpstream fds\<rparr>, h, w)))
      | AtUpstream fds \<Rightarrow>
          map_option (\<lambda>q. fbind q (\<lambda>(still_connected, (h, c), w).
              Inr (True, ss\<lparr>ss_context := c, ss_next := AtDownstream fds still_connected\<rparr>, h, w)))
            (upstream_half os (ss_handler ss) (ss_client ss) (ss_target ss) fds ((h, ss_context ss), w))
      | AtDownstream fds still_connected \<Rightarrow>
          map_option (\<lambda>q. fbind q (\<lambda>(still_connected, (h, c), w).
              Inr (still_connected, ss\<lparr>ss_context := c, ss_next := AtSelect\<rparr>, h, w)))
            (downstream_half os (ss_handler ss) (ss_client ss) (ss_target ss) fds still_connected
               ((h, ss_context ss), w)))"

section \<open>The proxy at work\<close>

text \<open>What the code runs on: the system, its collaborators, the listener's node, a new context.\<close>

record ('c, 'st, 'lb, 'w) site =
  site_os :: "'w os"
  site_resolver :: "'w resolver"
  site_helper :: "'w helper"
  site_balancer :: "('st, 'lb) balancer"
  site_ip :: "sockaddr_in \<Rightarrow> string"
  site_info :: NODE_INFO
  site_context :: 'c

record ('p, 'h, 'c, 'st, 'lb, 'w) serving =
  sv_proxy :: "('p, 'h \<times> 'c, 'st, 'lb) CProxySocket"
  sv_tasks :: "('h, 'c) task list"
  sv_shared :: 'h
  sv_heap :: heap
  sv_world :: 'w

text \<open>An exception that leaves the listener's loop leaves its thread.\<close>

definition listener_turn ::
    "('c, 'st, 'lb, 'w) site \<Rightarrow> ('p, 'h, 'c, 'st, 'lb, 'w) serving \<Rightarrow>
     fault + (unit outcome \<times> ('p, 'h, 'c, 'st, 'lb, 'w) serving)" where
  "listener_turn E s =
     fbind (listen_round (site_os E) (site_ip E) (site_info E) (sv_proxy s) (sv_heap s) (sv_world s))
       (\<lambda>(r, h, w). let s = s\<lparr>sv_heap := h, sv_world := w\<rparr> in
          case r of Throw e \<Rightarrow> Inr (Throw e, s)
          | Ret d \<Rightarrow> Inr (Ret (), s\<lparr>sv_tasks := sv_tasks s @ [Pushed d]\<rparr>))"

definition start_turn ::
    "('c, 'st, 'lb, 'w) site \<Rightarrow> nat \<Rightarrow> CLIENT_DATA \<Rightarrow> ('p, 'h, 'c, 'st, 'lb, 'w) serving \<Rightarrow>
     fault + (('p, 'h, 'c, 'st, 'lb, 'w) serving)" where
  "start_turn E k d s =
     fbind (session_start (site_os E) (site_resolver E) (site_helper E) (site_balancer E) (site_context E) d
              (sv_proxy s) (sv_heap s) (sv_world s)) (\<lambda>(r, this, h, w).
       Inr (s\<lparr>sv_proxy := this, sv_heap := h, sv_world := w,
              sv_tasks := (sv_tasks s)[k := (case r of None \<Rightarrow> Dropped d | Some ss \<Rightarrow> Relaying ss)]\<rparr>))"

definition loop_turn ::
    "('c, 'st, 'lb, 'w) site \<Rightarrow> nat \<Rightarrow> ('h, 'c) session \<Rightarrow> ('p, 'h, 'c, 'st, 'lb, 'w) serving \<Rightarrow>
     (fault + (('p, 'h, 'c, 'st, 'lb, 'w) serving)) option" where
  "loop_turn E k ss s =
     map_option (\<lambda>q. fbind q (\<lambda>(goes_on, ss, h, w).
         Inr (s\<lparr>sv_shared := h, sv_world := w,
                sv_tasks := (sv_tasks s)[k := (if goes_on then Relaying ss else Served ss)]\<rparr>)))
       (session_turn (site_os E) ss (sv_shared s) (sv_world s))"

definition task_turn ::
    "('c, 'st, 'lb, 'w) site \<Rightarrow> nat \<Rightarrow> ('p, 'h, 'c, 'st, 'lb, 'w) serving \<Rightarrow>
     (fault + (('p, 'h, 'c, 'st, 'lb, 'w) serving)) option" where
  "task_turn E k s =
     (if length (sv_tasks s) \<le> k then Some (Inr s)
      else case sv_tasks s ! k of
        Pushed d \<Rightarrow> Some (start_turn E k d s)
      | Relaying ss \<Rightarrow> loop_turn E k ss s
      | Served ss \<Rightarrow> Some (Inr s)
      | Dropped d \<Rightarrow> Some (Inr s))"

fun take_turn ::
    "('c, 'st, 'lb, 'w) site \<Rightarrow> turn \<Rightarrow> ('p, 'h, 'c, 'st, 'lb, 'w) serving \<Rightarrow>
     (fault + (unit outcome \<times> ('p, 'h, 'c, 'st, 'lb, 'w) serving)) option" where
  "take_turn E Listener s = Some (listener_turn E s)"
| "take_turn E (Task k) s = map_option (\<lambda>q. fbind q (\<lambda>s. Inr (Ret (), s))) (task_turn E k s)"

definition serve ::
    "('c, 'st, 'lb, 'w) site \<Rightarrow> turn list \<Rightarrow> ('p, 'h, 'c, 'st, 'lb, 'w) serving \<Rightarrow>
     (fault + (unit outcome \<times> ('p, 'h, 'c, 'st, 'lb, 'w) serving)) option" where
  "serve E = run_turns (take_turn E)"

lemma serve_simps [simp]:
  "serve E [] s = Some (Inr (Ret (), s))"
  "serve E (t # ts) s =
     Option.bind (take_turn E t s) (\<lambda>q.
       case q of Inl e \<Rightarrow> Some (Inl e)
       | Inr (r, s) \<Rightarrow> (case r of Throw e \<Rightarrow> Some (Inr (Throw e, s)) | Ret _ \<Rightarrow> serve E ts s))"
  unfolding serve_def by (rule run_turns.simps)+

lemmas serve_append = run_turns_append [of "take_turn E" for E, folded serve_def]
lemmas serve_invariant = run_turns_invariant [of "take_turn E" for E, folded serve_def]
lemmas serve_relates = run_turns_relates [of "take_turn E" for E, folded serve_def]

definition started :: "('p, 'h \<times> 'c, 'st, 'lb) CProxySocket \<Rightarrow> 'h \<Rightarrow> heap \<Rightarrow> 'w \<Rightarrow> ('p, 'h, 'c, 'st, 'lb, 'w) serving" where
  "started this x h w = \<lparr>sv_proxy = this, sv_tasks = [], sv_shared = x, sv_heap = h, sv_world = w\<rparr>"

section \<open>Schedules\<close>

text \<open>The turns that neither fault nor hang.\<close>

lemma take_turn_cases [consumes 1, case_names listen idle start loop]:
  assumes "take_turn E t s = Some (Inr (r, s'))"
  obtains q h w where "t = Listener"
      "listen_round (site_os E) (site_ip E) (site_info E) (sv_proxy s) (sv_heap s) (sv_world s) = Inr (q, h, w)"
      "case q of Throw e \<Rightarrow> r = Throw e \<and> s' = s\<lparr>sv_heap := h, sv_world := w\<rparr>
       | Ret d \<Rightarrow> r = Ret () \<and> s' = s\<lparr>sv_heap := h, sv_world := w, sv_tasks := sv_tasks s @ [Pushed d]\<rparr>"
  | "r = Ret ()" "s' = s"
  | k d q this h w where "t = Task k" "k < length (sv_tasks s)" "sv_tasks s ! k = Pushed d" "r = Ret ()"
      "session_start (site_os E) (site_resolver E) (site_helper E) (site_balancer E) (site_context E) d
         (sv_proxy s) (sv_heap s) (sv_world s) = Inr (q, this, h, w)"
      "s' = s\<lparr>sv_proxy := this, sv_heap := h, sv_world := w,
              sv_tasks := (sv_tasks s)[k := (case q of None \<Rightarrow> Dropped d | Some ss \<Rightarrow> Relaying ss)]\<rparr>"
  | k ss b ss1 h w where "t = Task k" "k < length (sv_tasks s)" "sv_tasks s ! k = Relaying ss" "r = Ret ()"
      "session_turn (site_os E) ss (sv_shared s) (sv_world s) = Some (Inr (b, ss1, h, w))"
      "s' = s\<lparr>sv_shared := h, sv_world := w, sv_tasks := (sv_tasks s)[k := (if b then Relaying ss1 else Served ss1)]\<rparr>"
proof (cases t)
  case Listener
  with assms obtain q h w where
    "listen_round (site_os E) (site_ip E) (site_info E) (sv_proxy s) (sv_heap s) (sv_world s) = Inr (q, h, w)"
    by (auto simp: listener_turn_def fbind_eq_Inr_iff)
  with Listener assms that(1) show thesis by (cases q) (simp_all add: listener_turn_def)
next
  case (Task k)
  then obtain q where q: "task_turn E k s = Some (Inr q)" "r = Ret ()" "s' = q"
    using assms by (auto simp: fbind_eq_Inr_iff)
  show thesis
  proof (cases "length (sv_tasks s) \<le> k")
    case True
    then show thesis using q that(2) by (simp add: task_turn_def)
  next
    case False
    show thesis
    proof (cases "sv_tasks s ! k")
      case (Pushed d)
      with False q that(3) Task show thesis by (auto simp: task_turn_def start_turn_def fbind_eq_Inr_iff)
    next
      case (Relaying ss)
      with False q that(4) Task show thesis by (auto simp: task_turn_def loop_turn_def fbind_eq_Inr_iff)
    qed (use False q that(2) in \<open>simp_all add: task_turn_def\<close>)
  qed
qed

text \<open>How the part before the loop ends.\<close>

lemma session_start_cases [consumes 1, case_names no_handler refused connected]:
  assumes "session_start os create_hostent hp bal c d this h w = Inr (q, this', h', w')"
  obtains "GetHandler this = None" "q = None" "this' = this" "h' = h" "w' = w"
  | ph e lb where "GetHandler this = Some ph"
      "connect_target os create_hostent bal (loadBalancer this) h w = Inr (Throw e, lb, h', w')"
      "q = None" "this' = this\<lparr>loadBalancer := lb\<rparr>"
  | ph t lb w1 x where "GetHandler this = Some ph"
      "connect_target os create_hostent bal (loadBalancer this) h w = Inr (Ret t, lb, h', w1)"
      "cd_client_socket d = Ptr x" "this' = this\<lparr>loadBalancer := lb\<rparr>"
      "w' = set_options hp (sock_fd x) (sock_fd t) w1"
      "q = Some \<lparr>ss_handler = ph, ss_client = sock_fd x, ss_target = sock_fd t, ss_context = c, ss_next = AtSelect\<rparr>"
proof (cases "GetHandler this")
  case None
  then have "q = None" "this' = this" "h' = h" "w' = w" using assms by (simp_all add: session_start_def)
  with that(1) None show thesis by blast
next
  case (Some ph)
  obtain r lb h1 w1 where c: "connect_target os create_hostent bal (loadBalancer this) h w = Inr (r, lb, h1, w1)"
    using assms Some by (cases "connect_target os create_hostent bal (loadBalancer this) h w")
      (auto simp: session_start_def)
  show thesis
  proof (cases r)
    case (Throw e)
    then have "q = None" "this' = this\<lparr>loadBalancer := lb\<rparr>" "h' = h1" "w' = w1"
      using assms Some c by (simp_all add: session_start_def)
    with that(2) Some c Throw show thesis by blast
  next
    case (Ret t)
    then obtain x where x: "cd_client_socket d = Ptr x"
      using assms Some c by (cases "cd_client_socket d") (simp_all add: session_start_def deref_def Let_def)
    then have "this' = this\<lparr>loadBalancer := lb\<rparr>" "h' = h1" "w' = set_options hp (sock_fd x) (sock_fd t) w1"
      "q = Some \<lparr>ss_handler = ph, ss_client = sock_fd x, ss_target = sock_fd t, ss_context = c, ss_next = AtSelect\<rparr>"
      using assms Some c Ret by (simp_all add: session_start_def deref_def Let_def)
    with that(3) Some c Ret x show thesis by blast
  qed
qed

section \<open>A task that runs alone\<close>

text \<open>Three turns of a task are one round of its session.\<close>

lemma serve_task:
  "serve E (Task k # ts) s =
     Option.bind (task_turn E k s) (\<lambda>q. case q of Inl e \<Rightarrow> Some (Inl e) | Inr s \<Rightarrow> serve E ts s)"
  by (cases "task_turn E k s") (auto split: sum.split)

lemma task_loop:
  "k < length (sv_tasks s) \<Longrightarrow> sv_tasks s ! k = Relaying ss \<Longrightarrow> task_turn E k s = loop_turn E k ss s"
  by (simp add: task_turn_def)

definition round_done ::
    "nat \<Rightarrow> ('h, 'c) session \<Rightarrow> bool \<Rightarrow> 'h \<times> 'c \<Rightarrow> 'w \<Rightarrow> ('p, 'h, 'c, 'st, 'lb, 'w) serving \<Rightarrow>
     ('p, 'h, 'c, 'st, 'lb, 'w) serving" where
  "round_done k ss b x w s =
     (let ss = ss\<lparr>ss_context := snd x, ss_next := AtSelect\<rparr> in
      s\<lparr>sv_shared := fst x, sv_world := w,
        sv_tasks := (sv_tasks s)[k := (if b then Relaying ss else Served ss)]\<rparr>)"

lemma round_in_turns:
  assumes "k < length (sv_tasks s)" and "sv_tasks s ! k = Relaying ss" and "ss_next ss = AtSelect"
  shows "serve E [Task k, Task k, Task k] s =
    map_option (\<lambda>q. fbind q (\<lambda>(b, x, w). Inr (Ret (), round_done k ss b x w s)))
      (proxy_round (site_os E) (ss_handler ss) (ss_client ss) (ss_target ss) ((sv_shared s, ss_context ss), sv_world s))"
    (is "?lhs = ?rhs")
proof (cases "SocketSelect_new (site_os E) (ss_client ss) (Some (ss_target ss)) NonBlockingSocket (sv_world s)")
  case (Inl e)
  then show ?thesis
    using assms by (simp add: serve_task task_loop loop_turn_def session_turn_def proxy_round_def del: serve_simps(2))
next
  case (Inr fw)
  obtain fds w where sel: "SocketSelect_new (site_os E) (ss_client ss) (Some (ss_target ss)) NonBlockingSocket (sv_world s) = Inr (fds, w)"
    using Inr by (cases fw) simp
  let ?up = "upstream_half (site_os E) (ss_handler ss) (ss_client ss) (ss_target ss) fds ((sv_shared s, ss_context ss), w)"
  note turn = serve_task task_loop loop_turn_def session_turn_def proxy_round_def
  consider "?up = None" | e where "?up = Some (Inl e)"
    | b h c w1 where "?up = Some (Inr (b, (h, c), w1))"
    by (cases ?up) (metis sum.exhaust prod.exhaust)+
  then show ?thesis
  proof cases
    case 1
    then show ?thesis using assms sel by (simp add: turn del: serve_simps(2))
  next
    case 2
    then show ?thesis using assms sel by (simp add: turn del: serve_simps(2))
  next
    case 3
    let ?down = "downstream_half (site_os E) (ss_handler ss) (ss_client ss) (ss_target ss) fds b ((h, c), w1)"
    consider "?down = None" | e where "?down = Some (Inl e)"
      | b' h' c' w2 where "?down = Some (Inr (b', (h', c'), w2))"
      by (cases ?down) (metis sum.exhaust prod.exhaust)+
    then show ?thesis
      by cases (use assms sel 3 in \<open>simp_all add: turn round_done_def del: serve_simps(2)\<close>)
  qed
qed

lemma round_done_twice:
  "k < length (sv_tasks s) \<Longrightarrow>
   round_done k (ss\<lparr>ss_context := c, ss_next := AtSelect\<rparr>) b x w (round_done k ss True y v s) = round_done k ss b x w s"
  by (simp add: round_done_def Let_def)

lemma loop_in_turns:
  assumes "pump round x = Some q"
  shows "\<forall>(s :: ('p, 'h, 'c, 'st, 'lb, 'w) serving) ss. round = proxy_round (site_os E) (ss_handler ss) (ss_client ss) (ss_target ss) \<and>
      k < length (sv_tasks s) \<and> sv_tasks s ! k = Relaying ss \<and> ss_next ss = AtSelect \<and>
      x = ((sv_shared s, ss_context ss), sv_world s) \<longrightarrow>
    (\<exists>n. serve E (replicate n (Task k)) s =
      Some (fbind q (\<lambda>(x, w). Inr (Ret (), round_done k ss False x w s))))"
  using assms
proof (induct rule: pump.raw_induct [rotated, consumes 1, case_names loop])
  case (loop self round x q)
  show ?case
  proof (intro allI impI, elim conjE)
    fix s :: "('p, 'h, 'c, 'st, 'lb, 'w) serving" and ss
    assume rd: "round = proxy_round (site_os E) (ss_handler ss) (ss_client ss) (ss_target ss)"
      and k: "k < length (sv_tasks s)" "sv_tasks s ! k = Relaying ss" and n: "ss_next ss = AtSelect"
      and x: "x = ((sv_shared s, ss_context ss), sv_world s)"
    obtain y where y: "round x = Some y" using loop(2) by (auto simp: bind_eq_Some_conv)
    have three: "serve E (replicate 3 (Task k)) s =
        Some (fbind y (\<lambda>(b, x, w). Inr (Ret (), round_done k ss b x w s)))"
      using round_in_turns [OF k n, of E] y by (simp add: rd x numeral_3_eq_3 del: serve_simps)
    consider e where "y = Inl e" | h c w where "y = Inr (False, (h, c), w)" | h c w where "y = Inr (True, (h, c), w)"
      by (metis sum.exhaust prod.exhaust)
    then show "\<exists>n. serve E (replicate n (Task k)) s =
        Some (fbind q (\<lambda>(x, w). Inr (Ret (), round_done k ss False x w s)))"
    proof cases
      case 1
      then have "q = Inl e" using loop(2) y by simp
      with three 1 show ?thesis by (intro exI [of _ 3]) simp
    next
      case 2
      then have "q = Inr ((h, c), w)" using loop(2) y by simp
      with three 2 show ?thesis by (intro exI [of _ 3]) simp
    next
      case 3
      let ?ss = "ss\<lparr>ss_context := c, ss_next := AtSelect\<rparr>" and ?s = "round_done k ss True (h, c) w s"
      have "self round ((h, c), w) = Some q" using loop(2) y 3 by simp
      from loop(1) [OF this, rule_format, of ?ss ?s] obtain n where
        "serve E (replicate n (Task k)) ?s = Some (fbind q (\<lambda>(x, w). Inr (Ret (), round_done k ?ss False x w ?s)))"
        using k by (auto simp: rd round_done_def Let_def)
      then have "serve E (replicate 3 (Task k) @ replicate n (Task k)) s =
          Some (fbind q (\<lambda>(x, w). Inr (Ret (), round_done k ss False x w s)))"
        using three 3 k(1) by (simp add: serve_append round_done_twice)
      then show ?thesis by (intro exI [of _ "3 + n"]) (simp add: replicate_add)
    qed
  qed
qed

text \<open>A task that gets all the turns does what \<open>ThreadHandler\<close> does.\<close>

definition task_ended ::
    "CLIENT_DATA \<Rightarrow> 'c \<Rightarrow> ('h, 'c) task \<Rightarrow> bool" where
  "task_ended d c t = (case t of Dropped d' \<Rightarrow> d' = d | Served ss \<Rightarrow> ss_context ss = c | _ \<Rightarrow> False)"

lemma forget_outcome:
  "map_option (\<lambda>r. fbind r (\<lambda>(q, s). Inr s)) (map_option (\<lambda>q. fbind q (\<lambda>(x, w). Inr (r, a, x, b, w))) p) =
   map_option (\<lambda>q. fbind q (\<lambda>(x, w). Inr (a, x, b, w))) p"
  by (cases p; cases "the p") (auto split: prod.splits)

lemma handler_is_start_and_loop:
  "ClientThreadProc (Proxy_ThreadHandler os create_hostent hp bal) d (this, (x, c), h, w) =
     (case session_start os create_hostent hp bal c d this h w of
        Inl e \<Rightarrow> Some (Inl e)
      | Inr (ss, this, h, w) \<Rightarrow>
          (case ss of None \<Rightarrow> Some (Inr (this, (x, c), h, w))
           | Some ss \<Rightarrow> map_option (\<lambda>q. fbind q (\<lambda>(x, w). Inr (this, x, h, w)))
               (pump (proxy_round os (ss_handler ss) (ss_client ss) (ss_target ss)) ((x, c), w))))"
proof (cases "GetHandler this")
  case None
  then show ?thesis by (simp add: ClientThreadProc_def Proxy_ThreadHandler_def session_start_def)
next
  case (Some ph)
  note defs = ClientThreadProc_def Proxy_ThreadHandler_def session_start_def
  consider e where "connect_target os create_hostent bal (loadBalancer this) h w = Inl e"
    | e lb h1 w1 where "connect_target os create_hostent bal (loadBalancer this) h w = Inr (Throw e, lb, h1, w1)"
    | t lb h1 w1 where "connect_target os create_hostent bal (loadBalancer this) h w = Inr (Ret t, lb, h1, w1)"
    by (metis sum.exhaust prod.exhaust outcome.exhaust)
  then show ?thesis
  proof cases
    case 3
    show ?thesis
      by (cases "deref (cd_client_socket d)") (use Some 3 in \<open>simp_all add: defs Let_def forget_outcome\<close>)
  qed (use Some in \<open>simp_all add: defs\<close>)
qed

text \<open>\<open>in_turns q\<close>: finitely many turns of the task \<open>k\<close> alone have the outcome \<open>q\<close>.\<close>

definition in_turns ::
    "('c, 'st, 'lb, 'w) site \<Rightarrow> nat \<Rightarrow> CLIENT_DATA \<Rightarrow> ('p, 'h, 'c, 'st, 'lb, 'w) serving \<Rightarrow>
     fault + (('p, 'h \<times> 'c, 'st, 'lb) CProxySocket \<times> ('h \<times> 'c) \<times> heap \<times> 'w) \<Rightarrow> bool" where
  "in_turns E k d s q \<longleftrightarrow> (case q of
      Inl e \<Rightarrow> \<exists>n. serve E (replicate n (Task k)) s = Some (Inl e)
    | Inr (this, (x, c), h, w) \<Rightarrow> \<exists>n t. task_ended d c t \<and> serve E (replicate n (Task k)) s =
        Some (Inr (Ret (), s\<lparr>sv_proxy := this, sv_shared := x, sv_heap := h, sv_world := w,
          sv_tasks := (sv_tasks s)[k := t]\<rparr>)))"

lemma in_turns_fault: "serve E (replicate n (Task k)) s = Some (Inl e) \<Longrightarrow> in_turns E k d s (Inl e)"
  unfolding in_turns_def sum.case by (rule exI)

lemma in_turns_ends:
  "serve E (replicate n (Task k)) s = Some (Inr (Ret (), s\<lparr>sv_proxy := this, sv_shared := x, sv_heap := h,
     sv_world := w, sv_tasks := (sv_tasks s)[k := t]\<rparr>)) \<Longrightarrow> task_ended d c t \<Longrightarrow>
   in_turns E k d s (Inr (this, (x, c), h, w))"
  unfolding in_turns_def sum.case prod.case by (intro exI conjI)

lemma loop_in_turns_ends:
  assumes "k < length (sv_tasks s)" and "ss_next ss = AtSelect"
    and "pump (proxy_round (site_os E) (ss_handler ss) (ss_client ss) (ss_target ss))
        ((sv_shared s, ss_context ss), w) = Some p"
    and first: "\<And>ts. serve E (Task k # ts) s =
      serve E ts (s\<lparr>sv_proxy := this, sv_heap := h, sv_world := w, sv_tasks := (sv_tasks s)[k := Relaying ss]\<rparr>)"
  shows "in_turns E k d s (fbind p (\<lambda>(x, w). Inr (this, x, h, w)))"
proof -
  let ?s = "s\<lparr>sv_proxy := this, sv_heap := h, sv_world := w, sv_tasks := (sv_tasks s)[k := Relaying ss]\<rparr>"
  from loop_in_turns [OF assms(3), of E k, rule_format, of ss ?s] assms(1,2) obtain n where
    "serve E (replicate n (Task k)) ?s = Some (fbind p (\<lambda>(x, w). Inr (Ret (), round_done k ss False x w ?s)))"
    by auto
  then have n: "serve E (replicate (Suc n) (Task k)) s =
      Some (fbind p (\<lambda>(x, w). Inr (Ret (), round_done k ss False x w ?s)))"
    using first [of "replicate n (Task k)"] by (simp only: replicate.simps)
  show ?thesis
  proof (cases p)
    case (Inl e)
    with n show ?thesis by (simp only: fbind_Inl in_turns_fault)
  next
    case (Inr xw)
    obtain x c v where x: "xw = ((x, c), v)" by (metis prod.exhaust)
    let ?t = "Served (ss\<lparr>ss_context := c, ss_next := AtSelect\<rparr>)"
    have "serve E (replicate (Suc n) (Task k)) s = Some (Inr (Ret (), s\<lparr>sv_proxy := this, sv_shared := x,
        sv_heap := h, sv_world := v, sv_tasks := (sv_tasks s)[k := ?t]\<rparr>))"
      using n Inr x by (simp add: round_done_def Let_def del: serve_simps replicate.simps)
    from in_turns_ends [OF this, of d c] show ?thesis using Inr x by (simp add: task_ended_def)
  qed
qed

lemma handler_in_turns:
  assumes "k < length (sv_tasks s)" and "sv_tasks s ! k = Pushed d"
    and "ClientThreadProc (Proxy_ThreadHandler (site_os E) (site_resolver E) (site_helper E) (site_balancer E)) d
      (sv_proxy s, (sv_shared s, site_context E), sv_heap s, sv_world s) = Some q"
  shows "in_turns E k d s q"
proof -
  let ?start = "session_start (site_os E) (site_resolver E) (site_helper E) (site_balancer E) (site_context E) d
    (sv_proxy s) (sv_heap s) (sv_world s)"
  have one: "serve E (Task k # ts) s =
      (case start_turn E k d s of Inl e \<Rightarrow> Some (Inl e) | Inr s \<Rightarrow> serve E ts s)" for ts
    using assms(1,2) by (simp add: serve_task task_turn_def del: serve_simps)
  note q = assms(3) [unfolded handler_is_start_and_loop]
  consider e where "?start = Inl e" | this h w where "?start = Inr (None, this, h, w)"
    | ss this h w where "?start = Inr (Some ss, this, h, w)"
    by (metis sum.exhaust prod.exhaust option.exhaust)
  then show ?thesis
  proof cases
    case 1
    then have "serve E (replicate 1 (Task k)) s = Some (Inl (e))" using one [of "[]"] by (simp add: start_turn_def)
    from in_turns_fault [OF this] show ?thesis using q 1 by simp
  next
    case 2
    then have "serve E (replicate 1 (Task k)) s = Some (Inr (Ret (), s\<lparr>sv_proxy := this, sv_shared := sv_shared s,
        sv_heap := h, sv_world := w, sv_tasks := (sv_tasks s)[k := Dropped d]\<rparr>))"
      using one [of "[]"] by (simp add: start_turn_def)
    from in_turns_ends [OF this, of d "site_context E"] show ?thesis using q 2 by (simp add: task_ended_def)
  next
    case 3
    then have f: "ss_context ss = site_context E" "ss_next ss = AtSelect"
      by (auto elim: session_start_cases)
    obtain p where p: "pump (proxy_round (site_os E) (ss_handler ss) (ss_client ss) (ss_target ss))
        ((sv_shared s, ss_context ss), w) = Some p" "q = fbind p (\<lambda>(x, w). Inr (this, x, h, w))"
      using q 3 f(1) by auto
    show ?thesis
      unfolding p(2) by (rule loop_in_turns_ends [OF assms(1) f(2) p(1)]) (use one 3 in \<open>simp add: start_turn_def del: serve_simps\<close>)
  qed
qed

end
