(* ===== verification/Sessions_Env.thy ===== *)
theory Sessions_Env
  imports Sessions
begin

text \<open>
  What every schedule of a proxy's turns keeps: whose descriptors are whose, and what each session has
  exchanged on its own two.
\<close>

section \<open>Whose descriptors\<close>

definition socket_of :: "CLIENT_DATA \<Rightarrow> int list" where
  "socket_of d = (case cd_client_socket d of Ptr x \<Rightarrow> [sock_fd x] | _ \<Rightarrow> [])"

fun client_of :: "('h, 'c) task \<Rightarrow> int list" where
  "client_of (Pushed d) = socket_of d"
| "client_of (Dropped d) = socket_of d"
| "client_of (Relaying ss) = [ss_client ss]"
| "client_of (Served ss) = [ss_client ss]"

fun target_of :: "('h, 'c) task \<Rightarrow> int list" where
  "target_of (Relaying ss) = [ss_target ss]"
| "target_of (Served ss) = [ss_target ss]"
| "target_of _ = []"

definition fds_of :: "('h, 'c) task \<Rightarrow> int list" where
  "fds_of t = client_of t @ target_of t"

definition descriptors :: "('h, 'c) task list \<Rightarrow> int list" where
  "descriptors ts = concat (map fds_of ts)"

lemma fds_of_simps [simp]:
  "fds_of (Relaying ss) = [ss_client ss, ss_target ss]" "fds_of (Served ss) = [ss_client ss, ss_target ss]"
  "fds_of (Pushed d) = socket_of d" "fds_of (Dropped d) = socket_of d"
  by (simp_all add: fds_of_def)

lemma descriptors_snoc: "descriptors (ts @ [t]) = descriptors ts @ fds_of t"
  by (simp add: descriptors_def)

lemma descriptors_update:
  assumes "k < length ts" and "fds_of t = fds_of (ts ! k) @ zs"
  shows "mset (descriptors (ts[k := t])) = mset (descriptors ts @ zs)"
proof -
  have "descriptors ts = descriptors (take k ts @ ts ! k # drop (Suc k) ts)"
    by (simp only: id_take_nth_drop [OF assms(1), symmetric])
  then show ?thesis using assms by (simp add: descriptors_def upd_conv_take_nth_drop)
qed

lemma descriptors_same:
  "k < length ts \<Longrightarrow> fds_of t = fds_of (ts ! k) \<Longrightarrow> mset (descriptors (ts[k := t])) = mset (descriptors ts)"
  using descriptors_update [of k ts t "[]"] by simp

lemma task_descriptors: "k < length ts \<Longrightarrow> set (fds_of (ts ! k)) \<subseteq> set (descriptors ts)"
  using nth_mem by (fastforce simp: descriptors_def)

text \<open>Different tasks have no descriptor in common, and the two of a session differ.\<close>

lemma descriptors_apart:
  assumes "distinct (descriptors ts)" and "i < length ts" and "k < length ts" and "i \<noteq> k"
  shows "set (fds_of (ts ! i)) \<inter> set (fds_of (ts ! k)) = {}"
  using assms
proof (induction ts arbitrary: i k)
  case (Cons t ts)
  have "set (fds_of t) \<inter> set (descriptors ts) = {}" using Cons.prems(1) by (simp add: descriptors_def)
  with Cons task_descriptors show ?case
    by (cases i; cases k) (fastforce simp: descriptors_def)+
qed simp

lemma descriptors_of_one:
  "distinct (descriptors ts) \<Longrightarrow> k < length ts \<Longrightarrow> distinct (fds_of (ts ! k))"
  by (simp add: descriptors_def distinct_concat_iff)

text \<open>
  The descriptors of the tasks are distinct and, with those that were open at the start (\<open>B\<close>), all
  that are open.
\<close>

definition owned :: "('w \<Rightarrow> int set) \<Rightarrow> int set \<Rightarrow> ('h, 'c) task list \<Rightarrow> 'w \<Rightarrow> bool" where
  "owned opened B ts w \<longleftrightarrow> distinct (descriptors ts) \<and> set (descriptors ts) \<inter> B = {} \<and>
     opened w = set (descriptors ts) \<union> B \<and> (\<forall>s \<in> set (descriptors ts). 0 \<le> s)"

lemma owned_mset:
  "owned opened B ts w \<Longrightarrow> mset (descriptors ts') = mset (descriptors ts) \<Longrightarrow> opened w' = opened w \<Longrightarrow>
   owned opened B ts' w'"
  unfolding owned_def by (metis mset_eq_imp_distinct_iff mset_eq_setD)

lemma owned_new:
  assumes "owned opened B ts w" and "mset (descriptors ts') = mset (descriptors ts @ [s])"
    and "s \<notin> opened w" and "0 \<le> s" and "opened w' = insert s (opened w)"
  shows "owned opened B ts' w'"
proof -
  have "distinct (descriptors ts) \<and> set (descriptors ts) \<inter> B = {}" "s \<notin> set (descriptors ts)" "s \<notin> B"
    using assms(1,3) by (auto simp: owned_def)
  then have "distinct (descriptors ts @ [s])" "set (descriptors ts @ [s]) \<inter> B = {}" by auto
  moreover have "set (descriptors ts') = set (descriptors ts @ [s])" using assms(2) by (rule mset_eq_setD)
  ultimately show ?thesis
    using assms(1,4,5) mset_eq_imp_distinct_iff [OF assms(2)] by (auto simp: owned_def)
qed

text \<open>A session that is past a \<open>select\<close>: its descriptors are inside an \<open>fd_set\<close>.\<close>

fun in_service :: "('h, 'c) task \<Rightarrow> bool" where
  "in_service (Relaying ss) = (ss_next ss \<noteq> AtSelect)"
| "in_service (Served ss) = True"
| "in_service _ = False"

definition selectable :: "('h, 'c) task \<Rightarrow> bool" where
  "selectable t \<longleftrightarrow> (in_service t \<longrightarrow> (\<forall>s \<in> set (fds_of t). fd_ok s))"

lemma session_turn_keeps:
  assumes "session_turn os ss h w = Some (Inr (b, ss', h', w'))"
  shows "ss_client ss' = ss_client ss" "ss_target ss' = ss_target ss" "ss_handler ss' = ss_handler ss"
    "selectable (Relaying ss) \<Longrightarrow> selectable (if b then Relaying ss' else Served ss')"
proof -
  have keeps: "ss_client ss' = ss_client ss \<and> ss_target ss' = ss_target ss \<and> ss_handler ss' = ss_handler ss \<and>
      (selectable (Relaying ss) \<longrightarrow> selectable (if b then Relaying ss' else Served ss'))"
  proof (cases "ss_next ss")
    case AtSelect
    then obtain fds where "SocketSelect_new os (ss_client ss) (Some (ss_target ss)) NonBlockingSocket w = Inr (fds, w')"
      "b" "ss' = ss\<lparr>ss_next := AtUpstream fds\<rparr>"
      using assms by (auto simp: session_turn_def fbind_eq_Inr_iff)
    with SocketSelect_returns [OF this(1)] show ?thesis by (simp add: selectable_def)
  next
    case (AtUpstream fds)
    then show ?thesis using assms by (auto simp: session_turn_def fbind_eq_Inr_iff selectable_def)
  next
    case (AtDownstream fds st)
    then show ?thesis using assms by (auto simp: session_turn_def fbind_eq_Inr_iff selectable_def)
  qed
  then show "ss_client ss' = ss_client ss" "ss_target ss' = ss_target ss" "ss_handler ss' = ss_handler ss"
    "selectable (Relaying ss) \<Longrightarrow> selectable (if b then Relaying ss' else Served ss')" by blast+
qed

section \<open>Turns and the table of descriptors\<close>

context fd_table begin

lemma session_turn_opened:
  assumes "session_turn os ss h w = Some (Inr (b, ss', h', w'))"
  shows "opened w' = opened w"
proof (cases "ss_next ss")
  case AtSelect
  then obtain fds where "SocketSelect_new os (ss_client ss) (Some (ss_target ss)) NonBlockingSocket w = Inr (fds, w')"
    using assms by (auto simp: session_turn_def fbind_eq_Inr_iff)
  from SocketSelect_returns [OF this] show ?thesis using select_keeps by blast
next
  case (AtUpstream fds)
  then obtain b1 c where "upstream_half os (ss_handler ss) (ss_client ss) (ss_target ss) fds ((h, ss_context ss), w) =
      Some (Inr (b1, (h', c), w'))"
    using assms by (auto simp: session_turn_def fbind_eq_Inr_iff)
  from forward_opened [OF this [unfolded upstream_half_def]] show ?thesis by simp
next
  case (AtDownstream fds st)
  then obtain b1 c where "downstream_half os (ss_handler ss) (ss_client ss) (ss_target ss) fds st ((h, ss_context ss), w) =
      Some (Inr (b1, (h', c), w'))"
    using assms by (auto simp: session_turn_def fbind_eq_Inr_iff)
  from forward_opened [OF this [unfolded downstream_half_def]] show ?thesis by simp
qed

end

text \<open>A site whose system keeps a table of descriptors.\<close>

locale serving_env = proxy_env "site_os E" opened "site_resolver E" "site_helper E"
  for E :: "('c, 'st, 'lb, 'w) site" and opened
begin

lemma start_opened:
  assumes "session_start (site_os E) (site_resolver E) (site_helper E) (site_balancer E) c d this h w = Inr (q, this', h', w')"
  shows "case q of None \<Rightarrow> opened w' = opened w
    | Some ss \<Rightarrow> socket_of d = [ss_client ss] \<and> ss_next ss = AtSelect \<and>
        0 \<le> ss_target ss \<and> ss_target ss \<notin> opened w \<and> opened w' = insert (ss_target ss) (opened w)"
  using assms
proof (cases rule: session_start_cases)
  case no_handler
  then show ?thesis by simp
next
  case (refused ph e lb)
  then show ?thesis using target_opened [OF refused(2)] by simp
next
  case (connected ph t lb w1 x)
  show ?thesis
    using connected target_opened [OF connected(2)]
    by (simp add: set_options_def timeout_keeps alive_keeps socket_of_def)
qed

text \<open>Every turn keeps the ownership of descriptors.\<close>

lemma turn_owned:
  assumes "take_turn E t s = Some (Inr (r, s'))" and "owned opened B (sv_tasks s) (sv_world s)"
  shows "owned opened B (sv_tasks s') (sv_world s')"
  using assms(1)
proof (cases rule: take_turn_cases)
  case (listen q h w)
  show ?thesis
  proof (cases q)
    case (Throw e)
    then show ?thesis using listen listen_round_opened [OF listen(2)] assms(2) by (auto intro: owned_mset)
  next
    case (Ret d)
    then obtain c where c: "0 \<le> c" "c \<notin> opened (sv_world s)" "opened w = insert c (opened (sv_world s))"
      "socket_of d = [c]"
      using listen_round_opened [OF listen(2)] by (auto simp: socket_of_def)
    then have "mset (descriptors (sv_tasks s @ [Pushed d])) = mset (descriptors (sv_tasks s) @ [c])"
      by (simp only: descriptors_snoc fds_of_simps)
    from owned_new [OF assms(2) this c(2,1,3)] listen(3) Ret show ?thesis by simp
  qed
next
  case idle
  then show ?thesis using assms(2) by simp
next
  case (start k d q this h w)
  show ?thesis
  proof (cases q)
    case None
    then show ?thesis
      using start start_opened [OF start(5)] owned_mset [OF assms(2) descriptors_same [OF start(2)]] by simp
  next
    case (Some ss)
    then have o: "socket_of d = [ss_client ss]" "0 \<le> ss_target ss" "ss_target ss \<notin> opened (sv_world s)"
      "opened w = insert (ss_target ss) (opened (sv_world s))"
      using start_opened [OF start(5)] by auto
    have "mset (descriptors ((sv_tasks s)[k := Relaying ss])) = mset (descriptors (sv_tasks s) @ [ss_target ss])"
      using start(2,3) o(1) by (intro descriptors_update) simp_all
    from owned_new [OF assms(2) this o(3,2,4)] start(6) Some show ?thesis by simp
  qed
next
  case (loop k ss b ss1 h w)
  have "fds_of (if b then Relaying ss1 else Served ss1) = fds_of (sv_tasks s ! k)"
    using loop(3) session_turn_keeps [OF loop(5)] by simp
  from owned_mset [OF assms(2) descriptors_same [OF loop(2) this] session_turn_opened [OF loop(5)]] loop(6)
  show ?thesis by simp
qed

lemma run_owned:
  assumes "serve E ts (started this x h w) = Some (Inr (r, s))"
  shows "owned opened (opened w) (sv_tasks s) (sv_world s)"
proof (rule serve_invariant [OF assms, of "\<lambda>s. owned opened (opened w) (sv_tasks s) (sv_world s)"])
  show "owned opened (opened w) (sv_tasks (started this x h w)) (sv_world (started this x h w))"
    by (simp add: started_def owned_def descriptors_def)
qed (rule turn_owned)

end

section \<open>Descriptors run out\<close>

lemma turn_selectable:
  assumes "take_turn E t s = Some (Inr (r, s'))" and "\<forall>t \<in> set (sv_tasks s). selectable t"
  shows "\<forall>t \<in> set (sv_tasks s'). selectable t"
  using assms(1)
proof (cases rule: take_turn_cases)
  case (listen q h w)
  then show ?thesis using assms(2) by (cases q) (auto simp: selectable_def)
next
  case idle
  then show ?thesis using assms(2) by simp
next
  case (start k d q this h w)
  have "selectable (case q of None \<Rightarrow> Dropped d | Some ss \<Rightarrow> Relaying ss)"
    using start(5) by (cases rule: session_start_cases) (simp_all add: selectable_def)
  then show ?thesis using start(6) assms(2) set_update_subset_insert by fastforce
next
  case (loop k ss b ss1 h w)
  have "selectable (Relaying ss)" using assms(2) loop(2,3) nth_mem by fastforce
  from session_turn_keeps(4) [OF loop(5) this] loop(6) assms(2) set_update_subset_insert
  show ?thesis by fastforce
qed

lemma run_selectable:
  assumes "serve E ts (started this x h w) = Some (Inr (r, s))"
  shows "\<forall>t \<in> set (sv_tasks s). selectable t"
proof (rule serve_invariant [OF assms, of "\<lambda>s. \<forall>t \<in> set (sv_tasks s). selectable t"])
  show "\<forall>t \<in> set (sv_tasks (started this x h w)). selectable t" by (simp add: started_def)
qed (rule turn_selectable)

lemma descriptors_in_service:
  "length (descriptors (filter in_service ts)) = 2 * length (filter in_service ts)"
  "set (descriptors (filter in_service ts)) \<subseteq> set (descriptors ts)"
  "distinct (descriptors ts) \<Longrightarrow> distinct (descriptors (filter in_service ts))"
proof -
  have "in_service t \<Longrightarrow> length (fds_of t) = 2" for t :: "('a, 'b) task" by (cases t) simp_all
  then show "length (descriptors (filter in_service ts)) = 2 * length (filter in_service ts)"
    by (induction ts) (simp_all add: descriptors_def)
  show sub: "set (descriptors (filter in_service ts)) \<subseteq> set (descriptors ts)" for ts :: "('a, 'b) task list"
    by (auto simp: descriptors_def)
  show "distinct (descriptors ts) \<Longrightarrow> distinct (descriptors (filter in_service ts))"
  proof (induction ts)
    case (Cons t ts)
    with sub [of ts] show ?case by (auto simp: descriptors_def)
  qed simp
qed

lemma service_bound:
  assumes "owned opened B ts w" and "\<forall>t \<in> set ts. selectable t"
  shows "2 * length (filter in_service ts) + card (B \<inter> {0..<FD_SETSIZE}) \<le> nat FD_SETSIZE"
proof -
  let ?D = "descriptors (filter in_service ts)"
  have d: "distinct ?D" "set ?D \<inter> B = {}"
    using assms(1) descriptors_in_service(2,3) [of ts] by (auto simp: owned_def)
  have "set ?D \<subseteq> {0..<FD_SETSIZE}"
    using assms(2) by (auto simp: descriptors_def selectable_def fd_ok_def)
  then have "card (set ?D \<union> (B \<inter> {0..<FD_SETSIZE})) \<le> card {0..<FD_SETSIZE}"
    by (intro card_mono) auto
  moreover have "card (set ?D \<union> (B \<inter> {0..<FD_SETSIZE})) = card (set ?D) + card (B \<inter> {0..<FD_SETSIZE})"
    using d(2) by (intro card_Un_disjoint) auto
  ultimately show ?thesis using distinct_card [OF d(1)] descriptors_in_service(1) [of ts] by simp
qed

section \<open>The shared load balancer\<close>

fun begun :: "('h, 'c) task \<Rightarrow> bool" where
  "begun (Pushed d) = False"
| "begun _ = True"

definition requests :: "('h, 'c) task list \<Rightarrow> nat" where
  "requests ts = length (filter begun ts)"

lemma requests_update:
  assumes "k < length ts" and "begun t"
  shows "requests (ts[k := t]) = (if begun (ts ! k) then requests ts else Suc (requests ts))"
proof -
  have "requests ts = requests (take k ts @ ts ! k # drop (Suc k) ts)"
    by (simp only: id_take_nth_drop [OF assms(1), symmetric])
  then show ?thesis using assms by (simp add: requests_def upd_conv_take_nth_drop)
qed

definition asked :: "('st, 'lb) balancer \<Rightarrow> 'lb \<Rightarrow> ('p, 'h, 'c, 'st, 'lb, 'w) serving \<Rightarrow> bool" where
  "asked bal lb s \<longleftrightarrow> m_handler (sv_proxy s) \<noteq> None \<and>
     loadBalancer (sv_proxy s) = Ptr (((\<lambda>l. snd (requestServer bal l)) ^^ requests (sv_tasks s)) lb)"

lemma connect_asks:
  assumes "connect_target os create_hostent bal (Ptr l) h w = Inr (r, lb, h', w')"
  shows "lb = Ptr (snd (requestServer bal l))"
  using assms by (auto simp: connect_target_def fbind_eq_Inr_iff split: prod.splits outcome.splits)

lemma turn_asks:
  assumes "take_turn E t s = Some (Inr (r, s'))" and "asked (site_balancer E) lb s"
  shows "asked (site_balancer E) lb s'"
  using assms(1)
proof (cases rule: take_turn_cases)
  case (listen q h w)
  then show ?thesis using assms(2) by (cases q) (auto simp: asked_def requests_def)
next
  case idle
  then show ?thesis using assms(2) by simp
next
  case (start k d q this h w)
  let ?t = "case q of None \<Rightarrow> Dropped d | Some ss \<Rightarrow> Relaying ss"
  have "begun ?t" by (cases q) simp_all
  then have n: "requests ((sv_tasks s)[k := ?t]) = Suc (requests (sv_tasks s))"
    using requests_update [OF start(2)] start(3) by (cases q) simp_all
  have "m_handler this = m_handler (sv_proxy s) \<and>
      loadBalancer this = Ptr (((\<lambda>l. snd (requestServer (site_balancer E) l)) ^^ Suc (requests (sv_tasks s))) lb)"
    using start(5)
  proof (cases rule: session_start_cases)
    case no_handler
    then show ?thesis using assms(2) by (simp add: asked_def GetHandler_def)
  next
    case (refused ph e lb')
    then show ?thesis using assms(2) connect_asks by (fastforce simp: asked_def)
  next
    case (connected ph t lb' w1 x)
    then show ?thesis using assms(2) connect_asks by (fastforce simp: asked_def)
  qed
  then show ?thesis using start(6) n assms(2) by (simp add: asked_def)
next
  case (loop k ss b ss1 h w)
  have "requests ((sv_tasks s)[k := (if b then Relaying ss1 else Served ss1)]) = requests (sv_tasks s)"
    using requests_update [OF loop(2)] loop(3) by simp
  then show ?thesis using loop(6) assms(2) by (simp add: asked_def)
qed

lemma run_asked:
  assumes "serve E ts (started this x h w) = Some (Inr (r, s))" and "m_handler this \<noteq> None"
    and "loadBalancer this = Ptr lb"
  shows "asked (site_balancer E) lb s"
proof (rule serve_invariant [OF assms(1), of "asked (site_balancer E) lb"])
  show "asked (site_balancer E) lb (started this x h w)"
    using assms(2,3) by (simp add: started_def asked_def requests_def)
qed (rule turn_asks)

end
