(* ===== verification/Sessions_Streams.thy ===== *)
theory Sessions_Streams
  imports Sessions_Env
begin

text \<open>
  What the sessions of a proxy exchange, whatever the schedule: each reads and writes its own two
  streams only, and the handler has gone through all their chunks in the order in which they were
  taken.
\<close>

section \<open>Exchanges of all sessions\<close>

type_synonym shared_exchange = "nat \<times> exchange"

text \<open>
  \<open>explains_all\<close>: the exchanges are those of a handler whose own state went from \<open>x\<close> to \<open>x'\<close>, each
  session \<open>i\<close> having its context \<open>cs i\<close>.
\<close>

fun explains_all ::
    "('h \<times> 'c) CProxyHandler \<Rightarrow> shared_exchange list \<Rightarrow> 'h \<times> (nat \<Rightarrow> 'c) \<Rightarrow> 'h \<times> (nat \<Rightarrow> 'c) \<Rightarrow> bool" where
  "explains_all ph [] s s' \<longleftrightarrow> s' = s"
| "explains_all ph ((i, d, got, put) # tr) (x, cs) s' \<longleftrightarrow>
     (case handle_of ph d got (int (length got)) (x, cs i) of (r, (x1, c1)) \<Rightarrow>
        let ans = (case r of Ret ans \<Rightarrow> ans | Throw e \<Rightarrow> [])
        in put = take (length put) ans \<and> explains_all ph tr (x1, cs(i := c1)) s')"

definition of_session :: "nat \<Rightarrow> shared_exchange list \<Rightarrow> exchange list" where
  "of_session i tr = map snd (filter (\<lambda>e. fst e = i) tr)"

lemma of_session_simps [simp]:
  "of_session i [] = []" "of_session i (tr @ tr') = of_session i tr @ of_session i tr'"
  "of_session i (map (Pair k) es) = (if k = i then es else [])"
  by (simp_all add: of_session_def filter_map comp_def)

lemma explains_all_append:
  "explains_all ph (tr @ tr') s s' \<longleftrightarrow> (\<exists>s1. explains_all ph tr s s1 \<and> explains_all ph tr' s1 s')"
proof (induction tr arbitrary: s)
  case (Cons e tr)
  obtain i d got put x cs where "e = (i, d, got, put)" "s = (x, cs)" by (metis prod.exhaust)
  then show ?case by (auto simp: Cons.IH Let_def split: prod.splits)
qed simp

lemma explains_one:
  "explains False ph es (x, cs k) (x', c') \<Longrightarrow> explains_all ph (map (Pair k) es) (x, cs) (x', cs(k := c'))"
proof (induction es arbitrary: x cs)
  case (Cons e es)
  obtain d got put where e: "e = (d, got, put)" by (metis prod.exhaust)
  obtain r x1 c1 where h: "handle_of ph d got (int (length got)) (x, cs k) = (r, (x1, c1))" by (metis prod.exhaust)
  have "explains_all ph (map (Pair k) es) (x1, cs(k := c1)) (x', (cs(k := c1))(k := c'))"
    using Cons.prems by (intro Cons.IH) (simp add: e h Let_def)
  moreover have "put = take (length put) (case r of Ret ans \<Rightarrow> ans | Throw e \<Rightarrow> [])"
    using Cons.prems by (simp add: e h Let_def)
  ultimately show ?case by (simp only: e h list.map explains_all.simps prod.case Let_def fun_upd_upd)
qed (simp add: fun_upd_idem)

text \<open>A handler without a state of its own treats each session as if it were the only one.\<close>

lemma explains_alone:
  fixes ph :: "(unit \<times> 'c) CProxyHandler"
  assumes "explains_all ph tr s s'"
  shows "explains False ph (of_session i tr) ((), snd s i) ((), snd s' i)"
  using assms
proof (induction tr arbitrary: s)
  case (Cons e tr)
  obtain k d got put cs where e: "e = (k, d, got, put)" "s = ((), cs)" by (metis prod.exhaust old.unit.exhaust)
  obtain r c1 where h: "handle_of ph d got (int (length got)) ((), cs k) = (r, ((), c1))"
    by (metis prod.exhaust old.unit.exhaust)
  have a: "explains_all ph tr ((), cs(k := c1)) s'" and p: "put = take (length put) (case r of Ret ans \<Rightarrow> ans | Throw e \<Rightarrow> [])"
    using Cons.prems by (simp_all add: e h Let_def)
  from Cons.IH [OF a] p h show ?case by (cases "k = i") (simp_all add: e of_session_def Let_def)
qed simp

text \<open>What a trace tells about the streams of the task \<open>i\<close>.\<close>

definition told ::
    "(int \<Rightarrow> 'w \<Rightarrow> bytes) \<Rightarrow> (int \<Rightarrow> 'w \<Rightarrow> bytes) \<Rightarrow> nat \<Rightarrow> ('h, 'c) task \<Rightarrow> shared_exchange list \<Rightarrow> 'w \<Rightarrow> 'w \<Rightarrow> bool" where
  "told inp out i t tr w w' \<longleftrightarrow>
     (\<forall>c \<in> set (client_of t). inp c w = got_on Upstream (of_session i tr) @ inp c w' \<and>
        out c w' = out c w @ put_on Downstream (of_session i tr)) \<and>
     (\<forall>g \<in> set (target_of t). inp g w = got_on Downstream (of_session i tr) @ inp g w' \<and>
        out g w' = out g w @ put_on Upstream (of_session i tr))"

text \<open>A task keeps its descriptors, and may add that of its target.\<close>

definition extends :: "('h, 'c) task \<Rightarrow> ('h, 'c) task \<Rightarrow> bool" where
  "extends t t' \<longleftrightarrow> client_of t' = client_of t \<and> set (target_of t) \<subseteq> set (target_of t')"

lemma extends_refl: "extends t t"
  by (simp add: extends_def)

lemma extends_trans: "extends t t1 \<Longrightarrow> extends t1 t2 \<Longrightarrow> extends t t2"
  by (auto simp: extends_def)

lemma told_trans:
  "told inp out i t tr w w1 \<Longrightarrow> extends t t1 \<Longrightarrow> told inp out i t1 tr' w1 w2 \<Longrightarrow> told inp out i t (tr @ tr') w w2"
  by (auto simp: told_def extends_def)

text \<open>
  A session is \<open>closing\<close> once it knows that a peer has delivered nothing, and \<open>quota\<close> is how many more
  empty chunks it can read.
\<close>

definition empties :: "exchange list \<Rightarrow> nat" where
  "empties es = length (filter (\<lambda>e. fst (snd e) = []) es)"

lemma empties_simps [simp]: "empties [] = 0" "empties (es @ fs) = empties es + empties fs"
  "empties [(d, got, put)] = (if got = [] then 1 else 0)"
  by (simp_all add: empties_def)

lemma empties_pos: "0 < empties es \<longleftrightarrow> (\<exists>d put. (d, [], put) \<in> set es)"
  by (force simp: empties_def filter_empty_conv)

lemma exchanges_take: "length es \<le> length (got_on Upstream es) + length (got_on Downstream es) + empties es"
proof (induction es)
  case (Cons e es)
  obtain d got put where "e = (d, got, put)" by (metis prod.exhaust)
  with Cons show ?case by (cases d; cases got) (auto simp: empties_def got_on_def)
qed simp

fun closing :: "('h, 'c) task \<Rightarrow> bool" where
  "closing (Served ss) = True"
| "closing (Relaying ss) = (case ss_next ss of AtDownstream fds still_connected \<Rightarrow> \<not> still_connected | _ \<Rightarrow> False)"
| "closing _ = False"

fun quota :: "('h, 'c) task \<Rightarrow> nat" where
  "quota (Pushed d) = 2"
| "quota (Relaying ss) = (case ss_next ss of AtDownstream fds False \<Rightarrow> 1 | _ \<Rightarrow> 2)"
| "quota _ = 0"

text \<open>A session is \<open>ready\<close> if its \<open>select\<close> has reported the descriptor that its next half reads.\<close>

definition ready :: "('h, 'c) session \<Rightarrow> bool" where
  "ready ss \<longleftrightarrow> (case ss_next ss of AtSelect \<Rightarrow> False | AtUpstream fds \<Rightarrow> ss_client ss \<in> fds
     | AtDownstream fds still_connected \<Rightarrow> ss_target ss \<in> fds)"

definition answers_empty :: "'x CProxyHandler \<Rightarrow> bool" where
  "answers_empty ph \<longleftrightarrow> (\<forall>d x e. fst (handle_of ph d [] 0 x) \<noteq> Throw e)"

text \<open>How a schedule advances the task \<open>i\<close>.\<close>

definition advances ::
    "(int \<Rightarrow> 'w \<Rightarrow> bytes) \<Rightarrow> (int \<Rightarrow> 'w \<Rightarrow> bytes) \<Rightarrow> ('h \<times> 'c) CProxyHandler \<Rightarrow> nat \<Rightarrow> ('h, 'c) task \<Rightarrow> ('h, 'c) task \<Rightarrow>
     shared_exchange list \<Rightarrow> 'w \<Rightarrow> 'w \<Rightarrow> bool" where
  "advances inp out ph i t t' tr w w' \<longleftrightarrow> told inp out i t tr w w' \<and> extends t t' \<and>
     (closing t' \<longrightarrow> closing t \<or> 0 < empties (of_session i tr)) \<and>
     (answers_empty ph \<longrightarrow> empties (of_session i tr) + quota t' \<le> quota t)"

lemma advances_trans:
  "advances inp out ph i t t1 tr w w1 \<Longrightarrow> advances inp out ph i t1 t2 tr' w1 w2 \<Longrightarrow>
   advances inp out ph i t t2 (tr @ tr') w w2"
  by (auto simp: advances_def intro: told_trans extends_trans)

lemma advances_idle: "told inp out i t [] w w' \<Longrightarrow> advances inp out ph i t t [] w w'"
  by (simp add: advances_def extends_refl)

definition contexts :: "'c \<Rightarrow> ('h, 'c) task list \<Rightarrow> nat \<Rightarrow> 'c" where
  "contexts c ts i = (if i < length ts then
       (case ts ! i of Relaying ss \<Rightarrow> ss_context ss | Served ss \<Rightarrow> ss_context ss | _ \<Rightarrow> c) else c)"


definition handled_by :: "('h \<times> 'c) CProxyHandler \<Rightarrow> ('p, 'h, 'c, 'st, 'lb, 'w) serving \<Rightarrow> bool" where
  "handled_by ph s \<longleftrightarrow> m_handler (sv_proxy s) = Some ph \<and>
     (\<forall>ss. Relaying ss \<in> set (sv_tasks s) \<longrightarrow> ss_handler ss = ph)"

section \<open>One turn of a session\<close>

context posix_live begin

text \<open>
  Whatever the handler does: if a half returns, it has exchanged nothing or one chunk, on its two
  descriptors, and something if its source was reported.
\<close>

lemma half_told:
  assumes "forward os (handle_of ph d) (source_of c g d) (source_of g c d) fds b (x, w) = Some (Inr (b', x', w'))"
    and "c \<noteq> g"
  shows "\<exists>tr. relayed False ph incoming sent c g tr (x, w) (x', w') \<and>
    (\<forall>t. t \<noteq> c \<longrightarrow> t \<noteq> g \<longrightarrow> incoming t w' = incoming t w \<and> sent t w' = sent t w) \<and>
    (b' \<longrightarrow> b) \<and> (\<not> b' \<longrightarrow> \<not> b \<or> 0 < empties tr) \<and>
    (answers_empty ph \<longrightarrow> empties tr \<le> 1 \<and> (0 < empties tr \<longrightarrow> \<not> b')) \<and> (source_of c g d \<in> fds \<longrightarrow> tr \<noteq> [])"
proof (cases "Readable fds (source_of c g d)")
  case (Inl e)
  then show ?thesis using assms(1) by (simp add: forward_def)
next
  case (Inr readable)
  show ?thesis
  proof (cases readable)
    case False
    then have "(x', w') = (x, w)" "b' = b" using assms(1) Inr by (simp_all add: forward_def)
    moreover have "source_of c g d \<notin> fds" using Inr False by (simp add: Readable_def split: if_splits)
    ultimately show ?thesis using relayed_refl by (intro exI [of _ "[]"]) simp
  next
    case True
    obtain bs w1 where bs: "ReceiveBytes os (source_of c g d) w = Some (bs, w1)"
      "incoming (source_of c g d) w = bs @ incoming (source_of c g d) w1"
      "\<forall>t. sent t w1 = sent t w \<and> (t \<noteq> source_of c g d \<longrightarrow> incoming t w1 = incoming t w)"
      using receive_loop_spec [of READ_BUFFER "source_of c g d" "[]" w]
      by (auto simp: ReceiveBytes_def READ_BUFFER_def)
    obtain r x1 where r: "handle_of ph d bs (int (length bs)) x = (r, x1)" by fastforce
    show ?thesis
    proof (cases r)
      case (Throw e)
      then have "x' = x1" "w' = w1" "b' = b" using assms(1) Inr True bs(1) r by (simp_all add: forward_def)
      moreover have "bs \<noteq> []" if "answers_empty ph"
      proof
        assume "bs = []"
        then have "fst (handle_of ph d [] 0 x) = Throw e" using r Throw by simp
        with that show False by (simp add: answers_empty_def)
      qed
      ultimately show ?thesis
        using bs r Throw assms(2) by (intro exI [of _ "[(d, bs, [])]"], cases d) (auto simp: relayed_def)
    next
      case (Ret ans)
      obtain q where q: "SendBytes os (source_of g c d) ans (sint (word_of_nat (length ans) :: u32)) w1 = Inr q"
        "x' = x1" "w' = q" "b' = (if bs = [] then False else b)"
        using assms(1) Inr True bs(1) r Ret by (auto simp: forward_def fbind_eq_Inr_iff)
      obtain n y where "os_send os (source_of g c d) (take n ans) w1 = (y, w')"
        using q(1,3) by (auto simp: SendBytes_def split: if_splits) (metis prod.collapse)
      from send_accepts [OF this] obtain m where m: "sent (source_of g c d) w' = sent (source_of g c d) w1 @ take m ans"
        "\<forall>t. t \<noteq> source_of g c d \<longrightarrow> sent t w' = sent t w1" "\<forall>t. incoming t w' = incoming t w1"
        by (metis take_take)
      then show ?thesis
        using bs r Ret assms(2) q(2,4)
        by (intro exI [of _ "[(d, bs, take m ans)]"], cases d) (auto simp: relayed_def min_def)
    qed
  qed
qed

lemma session_turn_told:
  assumes "session_turn os ss h w = Some (Inr (b, ss', h', w'))" and "ss_client ss \<noteq> ss_target ss"
    and "t' = (if b then Relaying ss' else Served ss')"
  shows "\<exists>tr. relayed False (ss_handler ss) incoming sent (ss_client ss) (ss_target ss) tr
      ((h, ss_context ss), w) ((h', ss_context ss'), w') \<and>
    (\<forall>t. t \<noteq> ss_client ss \<longrightarrow> t \<noteq> ss_target ss \<longrightarrow> incoming t w' = incoming t w \<and> sent t w' = sent t w) \<and>
    (closing t' \<longrightarrow> closing (Relaying ss) \<or> 0 < empties tr) \<and>
    (answers_empty (ss_handler ss) \<longrightarrow> empties tr + quota t' \<le> quota (Relaying ss)) \<and> (ready ss \<longrightarrow> tr \<noteq> [])"
proof (cases "ss_next ss")
  case AtSelect
  then obtain fds where f: "SocketSelect_new os (ss_client ss) (Some (ss_target ss)) NonBlockingSocket w = Inr (fds, w')"
    "h' = h" "ss' = ss\<lparr>ss_next := AtUpstream fds\<rparr>" "b"
    using assms(1) by (auto simp: session_turn_def fbind_eq_Inr_iff)
  then have "incoming t w' = incoming t w \<and> sent t w' = sent t w" for t
    using SocketSelect_returns [OF f(1)] select_asks by blast
  then show ?thesis using f AtSelect assms(3) by (intro exI [of _ "[]"]) (simp add: relayed_def ready_def)
next
  case (AtUpstream fds)
  then obtain b1 c where f: "upstream_half os (ss_handler ss) (ss_client ss) (ss_target ss) fds ((h, ss_context ss), w) =
      Some (Inr (b1, (h', c), w'))" "ss' = ss\<lparr>ss_context := c, ss_next := AtDownstream fds b1\<rparr>" "b"
    using assms(1) by (auto simp: session_turn_def fbind_eq_Inr_iff)
  have "forward os (handle_of (ss_handler ss) Upstream) (source_of (ss_client ss) (ss_target ss) Upstream)
      (source_of (ss_target ss) (ss_client ss) Upstream) fds True ((h, ss_context ss), w) = Some (Inr (b1, (h', c), w'))"
    using f(1) by (simp add: upstream_half_def)
  from half_told [OF this assms(2)] obtain tr where tr: "relayed False (ss_handler ss) incoming sent (ss_client ss) (ss_target ss) tr
      ((h, ss_context ss), w) ((h', c), w')"
    "\<forall>t. t \<noteq> ss_client ss \<longrightarrow> t \<noteq> ss_target ss \<longrightarrow> incoming t w' = incoming t w \<and> sent t w' = sent t w"
    "\<not> b1 \<longrightarrow> \<not> True \<or> 0 < empties tr" "answers_empty (ss_handler ss) \<longrightarrow> empties tr \<le> 1 \<and> (0 < empties tr \<longrightarrow> \<not> b1)"
    "source_of (ss_client ss) (ss_target ss) Upstream \<in> fds \<longrightarrow> tr \<noteq> []"
    by (elim exE conjE) (rule that)
  have "closing t' \<longrightarrow> 0 < empties tr" "answers_empty (ss_handler ss) \<longrightarrow> empties tr + quota t' \<le> quota (Relaying ss)"
    using f(2,3) AtUpstream assms(3) tr(3,4) by (cases b1; simp)+
  with tr(1,2,5) f(2) AtUpstream show ?thesis by (intro exI [of _ tr]) (simp add: ready_def)
next
  case (AtDownstream fds st)
  then obtain c where f: "downstream_half os (ss_handler ss) (ss_client ss) (ss_target ss) fds st
      ((h, ss_context ss), w) = Some (Inr (b, (h', c), w'))" "ss' = ss\<lparr>ss_context := c, ss_next := AtSelect\<rparr>"
    using assms(1) by (auto simp: session_turn_def fbind_eq_Inr_iff)
  have "forward os (handle_of (ss_handler ss) Downstream) (source_of (ss_client ss) (ss_target ss) Downstream)
      (source_of (ss_target ss) (ss_client ss) Downstream) fds st ((h, ss_context ss), w) = Some (Inr (b, (h', c), w'))"
    using f(1) by (simp add: downstream_half_def)
  from half_told [OF this assms(2)] obtain tr where tr: "relayed False (ss_handler ss) incoming sent (ss_client ss) (ss_target ss) tr
      ((h, ss_context ss), w) ((h', c), w')"
    "\<forall>t. t \<noteq> ss_client ss \<longrightarrow> t \<noteq> ss_target ss \<longrightarrow> incoming t w' = incoming t w \<and> sent t w' = sent t w"
    "b \<longrightarrow> st" "\<not> b \<longrightarrow> \<not> st \<or> 0 < empties tr"
    "answers_empty (ss_handler ss) \<longrightarrow> empties tr \<le> 1 \<and> (0 < empties tr \<longrightarrow> \<not> b)"
    "source_of (ss_client ss) (ss_target ss) Downstream \<in> fds \<longrightarrow> tr \<noteq> []"
    by (elim exE conjE) (rule that)
  have t': "t' = (if b then Relaying ss' else Served ss')" "ss_next ss' = AtSelect" using f(2) assms(3) by simp_all
  have "closing t' \<longrightarrow> closing (Relaying ss) \<or> 0 < empties tr"
    using tr(4) by (cases b) (simp_all add: t' AtDownstream)
  moreover have "empties tr + quota t' \<le> quota (Relaying ss)" if "answers_empty (ss_handler ss)"
    using tr(3,5) that by (cases b; cases st) (simp_all add: t' AtDownstream)
  ultimately show ?thesis using tr(1,2,6) f(2) AtDownstream by (intro exI [of _ tr]) (simp add: ready_def)
qed

end

section \<open>Setting up leaves the open streams alone\<close>

text \<open>
  Accepting, creating, connecting, closing and looking up affect no stream of a descriptor that is
  open, except that of the descriptor that is connected or closed; nor do the options.
\<close>

locale serving_streams = serving_env E opened + posix_live "site_os E" incoming sent fails
  for E :: "('c, 'st, 'lb, 'w) site" and opened and incoming :: "int \<Rightarrow> 'w \<Rightarrow> bytes"
    and sent :: "int \<Rightarrow> 'w \<Rightarrow> bytes" and fails +
  assumes socket_quiet: "os_socket (site_os E) w = (s, w') \<Longrightarrow> t \<in> opened w \<Longrightarrow>
      incoming t w' = incoming t w \<and> sent t w' = sent t w"
    and accept_quiet: "os_accept (site_os E) l w = (s, w') \<Longrightarrow> t \<in> opened w \<Longrightarrow>
      incoming t w' = incoming t w \<and> sent t w' = sent t w"
    and connect_quiet: "os_connect (site_os E) s a w = (r, w') \<Longrightarrow> t \<noteq> s \<Longrightarrow>
      incoming t w' = incoming t w \<and> sent t w' = sent t w"
    and close_quiet: "os_close (site_os E) s w = (r, w') \<Longrightarrow> t \<noteq> s \<Longrightarrow>
      incoming t w' = incoming t w \<and> sent t w' = sent t w"
    and lookup_quiet: "os_gethostbyname (site_os E) n w = (hp, w') \<Longrightarrow>
      incoming t w' = incoming t w \<and> sent t w' = sent t w"
    and resolver_quiet: "site_resolver E n w = (q, w') \<Longrightarrow>
      incoming t w' = incoming t w \<and> sent t w' = sent t w"
    and options_quiet: "incoming t (SetReadTimeOut (site_helper E) s k w) = incoming t w"
      "sent t (SetReadTimeOut (site_helper E) s k w) = sent t w"
      "incoming t (SetKeepAlive (site_helper E) s k w) = incoming t w"
      "sent t (SetKeepAlive (site_helper E) s k w) = sent t w"
begin

lemma resolve_quiet:
  assumes "Resolve (site_os E) (site_resolver E) host this w = (r, this', w')"
  shows "incoming t w' = incoming t w \<and> sent t w' = sent t w"
proof (cases "isalpha (first_char host)")
  case True
  obtain hp w1 where "os_gethostbyname (site_os E) host w = (hp, w1)" by fastforce
  with lookup_quiet [OF this] True assms show ?thesis by (auto simp: Resolve_def Let_def split: if_splits)
next
  case False
  obtain q w1 where "site_resolver E host w = (q, w1)" by fastforce
  with resolver_quiet [OF this] False assms show ?thesis by (cases q) (auto simp: Resolve_def)
qed

lemma client_connect_quiet:
  assumes "Connect (site_os E) (site_resolver E) this w = Inr (r, this', w')" and "t \<noteq> sock_fd this"
  shows "incoming t w' = incoming t w \<and> sent t w' = sent t w"
proof -
  obtain q this1 w1 where g: "Resolve (site_os E) (site_resolver E) (m_ServerName this) this w = (q, this1, w1)"
    by (metis prod_cases3)
  have f: "sock_fd this1 = sock_fd this" using resolve_keeps [OF g] by simp
  have "w' = w1 \<or> (\<exists>a r. os_connect (site_os E) (sock_fd this1) a w1 = (r, w'))"
    using assms(1) by (auto simp: Connect_def g Let_def fbind_eq_Inr_iff
        split: outcome.splits option.splits prod.splits if_splits)
  then show ?thesis using resolve_quiet [OF g] connect_quiet assms(2) f by metis
qed

lemma new_client_quiet:
  assumes "Client_new (site_os E) (site_resolver E) name port h w = Inr (r, h', w')" and "t \<in> opened w"
  shows "incoming t w' = incoming t w \<and> sent t w' = sent t w"
proof -
  obtain s w1 where s: "os_socket (site_os E) w = (s, w1)" by fastforce
  note q1 = socket_quiet [OF s assms(2)]
  show ?thesis
  proof (cases "s = - 1")
    case True
    then have "w' = w1"
      using assms(1) s by (auto simp: Client_new_def Socket_new_def CreateSocket_def INVALID_SOCKET_def Let_def)
    then show ?thesis using q1 by simp
  next
    case False
    then have ts: "t \<noteq> s" using socket_opens [OF s] assms(2) by auto
    let ?h = "h\<lparr>nofSockets := nofSockets h + 1, counters := (counters h)(next_counter h \<mapsto> 1),
      next_counter := Suc (next_counter h)\<rparr>"
    have "Socket_new (site_os E) h w = (Ret \<lparr>sock_fd = s, refCounter = next_counter h\<rparr>, ?h, w1)"
      using False s by (simp add: Socket_new_def CreateSocket_def INVALID_SOCKET_def Start_def new_counter_def Let_def)
    then obtain n q this w2 where q: "Connect (site_os E) (site_resolver E)
        (Socket.extend \<lparr>sock_fd = s, refCounter = next_counter h\<rparr> (CClientSocket.fields port n None)) w1 = Inr (q, this, w2)"
      and fin: "(case q of Ret _ \<Rightarrow> Inr (Ret this, ?h, w2) | Throw e \<Rightarrow>
         fbind (Socket_dtor (site_os E) (Socket.truncate this) ?h w2) (\<lambda>(h, w). Inr (Throw e, h, w))) = Inr (r, h', w')"
      using assms by (auto simp: Client_new_def fbind_eq_Inr_iff)
    have k: "sock_fd this = s" using connect_keeps_open [OF q] by (simp add: Socket.extend_def)
    have q2: "incoming t w2 = incoming t w1 \<and> sent t w2 = sent t w1"
      using client_connect_quiet [OF q] ts by (simp add: Socket.extend_def)
    have "w' = w2 \<or> w' = Close (site_os E) s w2"
      using fin k by (cases q) (auto simp: fbind_eq_Inr_iff Socket_dtor_def Socket.truncate_def Let_def
          split: option.splits if_splits)
    moreover obtain x w3 where "os_close (site_os E) s w2 = (x, w3)" by fastforce
    ultimately show ?thesis using q1 q2 close_quiet [of s w2 x w3 t] ts by (auto simp: Close_def)
  qed
qed

lemma connect_target_quiet:
  assumes "connect_target (site_os E) (site_resolver E) bal lb h w = Inr (r, lb', h', w')" and "t \<in> opened w"
  shows "incoming t w' = incoming t w \<and> sent t w' = sent t w"
proof -
  obtain l where lb: "lb = Ptr l" using assms(1) by (cases lb) (auto simp: connect_target_def)
  obtain q l' where q: "requestServer bal l = (q, l')" by fastforce
  show ?thesis
  proof (cases q)
    case (Throw e)
    then show ?thesis using assms(1) lb q by (auto simp: connect_target_def)
  next
    case (Ret service)
    then obtain h1 where "Client_new (site_os E) (site_resolver E) (ipaddress service) (service_port service) h w =
        Inr (r, h1, w')"
      using assms(1) lb q by (auto simp: connect_target_def fbind_eq_Inr_iff)
    from new_client_quiet [OF this assms(2)] show ?thesis .
  qed
qed

lemma start_quiet:
  assumes "session_start (site_os E) (site_resolver E) (site_helper E) (site_balancer E) c d this h w =
      Inr (q, this', h', w')" and "t \<in> opened w"
  shows "incoming t w' = incoming t w \<and> sent t w' = sent t w"
  using assms(1)
proof (cases rule: session_start_cases)
  case (refused ph e lb)
  then show ?thesis using connect_target_quiet [OF refused(2) assms(2)] by simp
next
  case (connected ph g lb w1 x)
  then show ?thesis
    using connect_target_quiet [OF connected(2) assms(2)] by (simp add: set_options_def options_quiet)
qed simp

lemma listen_quiet:
  assumes "listen_round (site_os E) ip i this h w = Inr (q, h', w')" and "t \<in> opened w"
  shows "incoming t w' = incoming t w \<and> sent t w' = sent t w"
proof -
  obtain s w1 where s: "os_accept (site_os E) (sock_fd this) w = (s, w1)" by fastforce
  then have "w' = w1"
    using assms(1) by (auto simp: listen_round_def Accept_def Socket_adopt_def new_counter_def Let_def
        fbind_eq_Inr_iff split: if_splits)
  then show ?thesis using accept_quiet [OF s assms(2)] by simp
qed

section \<open>Every schedule\<close>

text \<open>A turn that takes nothing from the streams of the tasks.\<close>

lemma told_quiet:
  assumes "\<And>t. t \<in> opened w \<Longrightarrow> incoming t w' = incoming t w \<and> sent t w' = sent t w"
    and "owned opened B ts w" and "i < length ts"
  shows "told incoming sent i (ts ! i) [] w w'"
proof -
  have "set (fds_of (ts ! i)) \<subseteq> opened w"
    using task_descriptors [OF assms(3)] assms(2) by (auto simp: owned_def)
  then show ?thesis using assms(1) by (auto simp: told_def fds_of_def)
qed

text \<open>A turn of the loop of the session \<open>k\<close>: the other tasks are not concerned.\<close>

lemma others_told:
  assumes "owned opened B ts w" and "i < length ts" and "k < length ts" and "i \<noteq> k" and "ts ! k = Relaying ss"
    and "\<forall>t. t \<noteq> ss_client ss \<longrightarrow> t \<noteq> ss_target ss \<longrightarrow> incoming t w' = incoming t w \<and> sent t w' = sent t w"
  shows "told incoming sent i (ts ! i) (map (Pair k) es) w w'"
proof -
  have "set (fds_of (ts ! i)) \<inter> {ss_client ss, ss_target ss} = {}"
    using descriptors_apart [OF _ assms(2-4)] assms(1,5) by (simp add: owned_def)
  then have "incoming t w' = incoming t w \<and> sent t w' = sent t w" if "t \<in> set (fds_of (ts ! i))" for t
    using assms(6) that by blast
  then show ?thesis using assms(4) by (simp add: told_def fds_of_def)
qed

lemma loop_told:
  assumes "owned opened B (sv_tasks s) (sv_world s)" and k: "k < length (sv_tasks s)" "sv_tasks s ! k = Relaying ss"
    and "session_turn (site_os E) ss (sv_shared s) (sv_world s) = Some (Inr (b, ss1, h, w))"
    and ts: "ts' = (sv_tasks s)[k := (if b then Relaying ss1 else Served ss1)]"
  shows "\<exists>tr. explains_all (ss_handler ss) tr (sv_shared s, contexts c (sv_tasks s)) (h, contexts c ts') \<and>
    (\<forall>i < length (sv_tasks s). advances incoming sent (ss_handler ss) i (sv_tasks s ! i) (ts' ! i) tr (sv_world s) w)"
proof -
  have "ss_client ss \<noteq> ss_target ss"
    using descriptors_of_one [OF _ k(1)] assms(1) k(2) by (auto simp: owned_def)
  from session_turn_told [OF assms(4) this refl] obtain es where es:
    "relayed False (ss_handler ss) incoming sent (ss_client ss) (ss_target ss) es
      ((sv_shared s, ss_context ss), sv_world s) ((h, ss_context ss1), w)"
    "\<forall>t. t \<noteq> ss_client ss \<longrightarrow> t \<noteq> ss_target ss \<longrightarrow> incoming t w = incoming t (sv_world s) \<and> sent t w = sent t (sv_world s)"
    "closing (if b then Relaying ss1 else Served ss1) \<longrightarrow> closing (Relaying ss) \<or> 0 < empties es"
    "answers_empty (ss_handler ss) \<longrightarrow> empties es + quota (if b then Relaying ss1 else Served ss1) \<le> quota (Relaying ss)"
    by blast
  let ?cs = "contexts c (sv_tasks s)"
  have "?cs k = ss_context ss" using k by (simp add: contexts_def)
  moreover have "contexts c ts' = ?cs(k := ss_context ss1)"
    using k(1) ts by (auto simp: contexts_def fun_eq_iff nth_list_update)
  ultimately have "explains_all (ss_handler ss) (map (Pair k) es) (sv_shared s, ?cs) (h, contexts c ts')"
    using es(1) explains_one [of "ss_handler ss" es "sv_shared s" ?cs k h "ss_context ss1"] by (simp add: relayed_def)
  moreover have "advances incoming sent (ss_handler ss) i (sv_tasks s ! i) (ts' ! i) (map (Pair k) es) (sv_world s) w"
    if i: "i < length (sv_tasks s)" for i
  proof (cases "i = k")
    case True
    then have "ts' ! i = (if b then Relaying ss1 else Served ss1)" using k(1) ts by simp
    moreover have "extends (Relaying ss) (if b then Relaying ss1 else Served ss1)"
      using session_turn_keeps(1,2) [OF assms(4)] by (simp add: extends_def)
    ultimately show ?thesis
      using es(1,3,4) k(2) True by (auto simp: advances_def told_def relayed_def simp del: closing.simps quota.simps)
  next
    case False
    then show ?thesis
      using others_told [OF assms(1) i k(1) False k(2) es(2)] i ts by (simp add: advances_def extends_refl)
  qed
  ultimately show ?thesis by blast
qed

lemma contexts_start:
  assumes "k < length ts" and "ts ! k = Pushed d" and "case q of None \<Rightarrow> True | Some ss \<Rightarrow> ss_context ss = c"
  shows "contexts c (ts[k := (case q of None \<Rightarrow> Dropped d | Some ss \<Rightarrow> Relaying ss)]) = contexts c ts"
  using assms by (cases q) (auto simp: contexts_def fun_eq_iff nth_list_update)

lemma contexts_snoc: "contexts c (ts @ [Pushed d]) = contexts c ts"
  by (auto simp: contexts_def fun_eq_iff nth_append)

text \<open>One turn, and all turns of a schedule.\<close>

definition schedule_advances ::
    "('h \<times> 'c) CProxyHandler \<Rightarrow> ('p, 'h, 'c, 'st, 'lb, 'w) serving \<Rightarrow> ('p, 'h, 'c, 'st, 'lb, 'w) serving \<Rightarrow> bool" where
  "schedule_advances ph s s' \<longleftrightarrow> length (sv_tasks s) \<le> length (sv_tasks s') \<and>
     (\<exists>tr. explains_all ph tr (sv_shared s, contexts (site_context E) (sv_tasks s))
         (sv_shared s', contexts (site_context E) (sv_tasks s')) \<and>
       (\<forall>i < length (sv_tasks s). advances incoming sent ph i (sv_tasks s ! i) (sv_tasks s' ! i) tr (sv_world s) (sv_world s')))"

lemma schedule_advances_trans:
  assumes "schedule_advances ph s s1" and "schedule_advances ph s1 s2"
  shows "schedule_advances ph s s2"
proof -
  let ?c = "\<lambda>s. (sv_shared s, contexts (site_context E) (sv_tasks s))"
  obtain tr where tr: "explains_all ph tr (?c s) (?c s1)" "length (sv_tasks s) \<le> length (sv_tasks s1)"
    "\<And>i. i < length (sv_tasks s) \<Longrightarrow>
       advances incoming sent ph i (sv_tasks s ! i) (sv_tasks s1 ! i) tr (sv_world s) (sv_world s1)"
    using assms(1) unfolding schedule_advances_def by blast
  obtain tr' where tr': "explains_all ph tr' (?c s1) (?c s2)" "length (sv_tasks s1) \<le> length (sv_tasks s2)"
    "\<And>i. i < length (sv_tasks s1) \<Longrightarrow>
       advances incoming sent ph i (sv_tasks s1 ! i) (sv_tasks s2 ! i) tr' (sv_world s1) (sv_world s2)"
    using assms(2) unfolding schedule_advances_def by blast
  have "explains_all ph (tr @ tr') (?c s) (?c s2)"
    unfolding explains_all_append using tr(1) tr'(1) by blast
  moreover have "advances incoming sent ph i (sv_tasks s ! i) (sv_tasks s2 ! i) (tr @ tr') (sv_world s) (sv_world s2)"
    if i: "i < length (sv_tasks s)" for i
    by (rule advances_trans [OF tr(3) [OF i] tr'(3) [OF less_le_trans [OF i tr(2)]]])
  ultimately show ?thesis
    unfolding schedule_advances_def using le_trans [OF tr(2) tr'(2)] by blast
qed

lemma quiet_advances:
  assumes "owned opened B (sv_tasks s) (sv_world s)"
    and "\<And>t. t \<in> opened (sv_world s) \<Longrightarrow>
      incoming t (sv_world s') = incoming t (sv_world s) \<and> sent t (sv_world s') = sent t (sv_world s)"
    and "length (sv_tasks s) \<le> length (sv_tasks s')" and "sv_shared s' = sv_shared s"
    and "contexts (site_context E) (sv_tasks s') = contexts (site_context E) (sv_tasks s)"
    and "\<And>i. i < length (sv_tasks s) \<Longrightarrow> extends (sv_tasks s ! i) (sv_tasks s' ! i) \<and>
      (closing (sv_tasks s' ! i) \<longrightarrow> closing (sv_tasks s ! i)) \<and> quota (sv_tasks s' ! i) \<le> quota (sv_tasks s ! i)"
  shows "schedule_advances ph s s'"
  unfolding schedule_advances_def
  using assms(3-6) told_quiet [OF assms(2,1)] by (auto simp: advances_def intro!: exI [of _ "[]"])

lemma turn_advances:
  assumes "take_turn E t s = Some (Inr (r, s'))" and "owned opened B (sv_tasks s) (sv_world s)" and "handled_by ph s"
  shows "handled_by ph s' \<and> schedule_advances ph s s'"
  using assms(1)
proof (cases rule: take_turn_cases)
  case (listen q h w)
  have "schedule_advances ph s s'"
    by (rule quiet_advances [OF assms(2)])
      (use listen(3) listen_quiet [OF listen(2)] in \<open>auto simp: extends_refl nth_append contexts_snoc split: outcome.splits\<close>)
  then show ?thesis using listen(3) assms(3) by (cases q) (auto simp: handled_by_def)
next
  case idle
  have "schedule_advances ph s s" by (rule quiet_advances [OF assms(2)]) (simp_all add: extends_refl)
  then show ?thesis using idle assms(3) by simp
next
  case (start k d q this h w)
  let ?ts = "(sv_tasks s)[k := (case q of None \<Rightarrow> Dropped d | Some ss \<Rightarrow> Relaying ss)]"
  have q: "m_handler this = Some ph \<and> (case q of None \<Rightarrow> True
      | Some ss \<Rightarrow> ss_handler ss = ph \<and> ss_context ss = site_context E \<and> socket_of d = [ss_client ss] \<and> ss_next ss = AtSelect)"
    using start(5) by (cases rule: session_start_cases)
      (use assms(3) in \<open>auto simp: handled_by_def GetHandler_def socket_of_def\<close>)
  have c: "contexts (site_context E) ?ts = contexts (site_context E) (sv_tasks s)"
    using start(2,3) q by (intro contexts_start) (auto split: option.splits)
  have "ss_handler ss = ph" if "Relaying ss \<in> set ?ts" for ss
    using set_update_subset_insert [of "sv_tasks s" k] that q assms(3)
    by (fastforce simp: handled_by_def split: option.splits)
  moreover have "schedule_advances ph s s'"
    by (rule quiet_advances [OF assms(2)])
      (use start(2,3,6) start_quiet [OF start(5)] q c in \<open>auto simp: nth_list_update extends_def split: option.splits\<close>)
  ultimately show ?thesis using start(6) q by (auto simp: handled_by_def)
next
  case (loop k ss b ss1 h w)
  let ?ts = "(sv_tasks s)[k := (if b then Relaying ss1 else Served ss1)]"
  have ph: "ss_handler ss = ph" using assms(3) loop(2,3) nth_mem by (fastforce simp: handled_by_def)
  have "ss_handler x = ph" if "Relaying x \<in> set ?ts" for x
    using set_update_subset_insert [of "sv_tasks s" k] that session_turn_keeps(3) [OF loop(5)] ph assms(3)
    by (fastforce simp: handled_by_def split: if_splits)
  then show ?thesis
    using loop_told [OF assms(2) loop(2,3,5) refl, of "site_context E"] loop(6) ph assms(3)
    by (auto simp: handled_by_def schedule_advances_def)
qed

lemma schedule_told:
  assumes "serve E us s = Some (Inr (r, s'))" and "owned opened B (sv_tasks s) (sv_world s)" and "handled_by ph s"
  shows "schedule_advances ph s s'"
proof -
  let ?I = "\<lambda>s. handled_by ph s \<and> owned opened B (sv_tasks s) (sv_world s)"
  have "?I s' \<and> schedule_advances ph s s'"
  proof (rule serve_relates [OF assms(1), of ?I "schedule_advances ph"])
    show "schedule_advances ph s s" if "?I s" for s
      by (rule quiet_advances [of B]) (use that in \<open>simp_all add: extends_refl\<close>)
  qed (use assms(2,3) turn_advances turn_owned schedule_advances_trans in blast)+
  then show ?thesis by blast
qed

lemma run_handled:
  fixes this :: "('p, 'h \<times> 'c, 'st, 'lb) CProxySocket"
  assumes "serve E ts (started this x h w) = Some (Inr (r, s))" and "m_handler this = Some ph"
  shows "handled_by ph s"
proof -
  have "owned opened (opened w) (sv_tasks s) (sv_world s) \<and> handled_by ph s"
  proof (rule serve_invariant [OF assms(1), of "\<lambda>s. owned opened (opened w) (sv_tasks s) (sv_world s) \<and> handled_by ph s"])
    show "owned opened (opened w) (sv_tasks (started this x h w)) (sv_world (started this x h w)) \<and>
        handled_by ph (started this x h w)"
      using assms(2) by (simp add: started_def owned_def descriptors_def handled_by_def)
  next
    fix t and s s' :: "('p, 'h, 'c, 'st, 'lb, 'w) serving" and r
    assume "owned opened (opened w) (sv_tasks s) (sv_world s) \<and> handled_by ph s" "take_turn E t s = Some (Inr (r, s'))"
    then show "owned opened (opened w) (sv_tasks s') (sv_world s') \<and> handled_by ph s'"
      using turn_owned turn_advances by blast
  qed
  then show ?thesis by blast
qed

text \<open>From any state that a started proxy reaches.\<close>

lemma reachable_told:
  assumes "m_handler this = Some ph" and "serve E ts (started this x h w) = Some (Inr (Ret (), s))"
    and "serve E us s = Some (Inr (r, s'))"
  shows "\<exists>tr. explains_all ph tr (sv_shared s, contexts (site_context E) (sv_tasks s))
         (sv_shared s', contexts (site_context E) (sv_tasks s')) \<and>
       (\<forall>i < length (sv_tasks s). i < length (sv_tasks s') \<and>
         advances incoming sent ph i (sv_tasks s ! i) (sv_tasks s' ! i) tr (sv_world s) (sv_world s'))"
  using schedule_told [OF assms(3) run_owned [OF assms(2)] run_handled [OF assms(2,1)]] less_le_trans
  unfolding schedule_advances_def by blast

end

end
