(* ===== verification/Sessions_Pace.thy ===== *)
theory Sessions_Pace
  imports Sessions_Streams
begin

text \<open>
  How many turns a session can take, whatever the schedule: every turn is paid for by an exchange or by
  a \<open>select\<close> that reported nothing. The potential of a session (\<open>dues\<close>) is what its streams and its
  quota of empty chunks still pay for, and where its loop stands.
\<close>

section \<open>Turns without an exchange\<close>

text \<open>The turns of the task \<open>k\<close> whose \<open>select\<close> has reported no descriptor.\<close>

fun waits :: "('h, 'c) task \<Rightarrow> bool" where
  "waits (Relaying ss) = (ss_next ss = AtUpstream {})"
| "waits _ = False"

fun idle_selects ::
    "('c, 'st, 'lb, 'w) site \<Rightarrow> nat \<Rightarrow> turn list \<Rightarrow> ('p, 'h, 'c, 'st, 'lb, 'w) serving \<Rightarrow> nat" where
  "idle_selects E k [] s = 0"
| "idle_selects E k (t # ts) s =
     (case take_turn E t s of Some (Inr (Ret _, s1)) \<Rightarrow>
        (if t = Task k \<and> k < length (sv_tasks s1) \<and> waits (sv_tasks s1 ! k) then 1 else 0) + idle_selects E k ts s1
      | _ \<Rightarrow> 0)"

text \<open>Where \<open>select\<close> always reports something, no turn is idle.\<close>

lemma session_turn_waits:
  assumes "session_turn os ss h w = Some (Inr (b, ss1, h1, w1))" and "waits (if b then Relaying ss1 else Served ss1)"
  shows "\<exists>m r. os_select os m {ss_client ss, ss_target ss} (Some 1) w = ((r, {}), w1)"
proof (cases "ss_next ss")
  case AtSelect
  then obtain fds where "SocketSelect_new os (ss_client ss) (Some (ss_target ss)) NonBlockingSocket w = Inr (fds, w1)"
    "ss1 = ss\<lparr>ss_next := AtUpstream fds\<rparr>" "b"
    using assms(1) by (auto simp: session_turn_def fbind_eq_Inr_iff)
  with assms(2) SocketSelect_returns show ?thesis by fastforce
qed (use assms in \<open>auto simp: session_turn_def fbind_eq_Inr_iff split: if_splits\<close>)

lemma never_idle:
  assumes "\<And>m fds w r w'. fds \<noteq> {} \<Longrightarrow> os_select (site_os E) m fds (Some 1) w \<noteq> ((r, {}), w')"
  shows "idle_selects E k us s = 0"
proof (induction us arbitrary: s)
  case (Cons t us)
  have "\<not> waits (sv_tasks s1 ! k)"
    if "t = Task k" "k < length (sv_tasks s1)" "take_turn E t s = Some (Inr (r, s1))" for r s1
  proof (cases "k < length (sv_tasks s)")
    case False
    then show ?thesis using that by (auto simp: task_turn_def)
  next
    case True
    show ?thesis
    proof (cases "sv_tasks s ! k")
      case (Pushed d)
      with True that(1,3) obtain q this h w where start: "session_start (site_os E) (site_resolver E) (site_helper E)
          (site_balancer E) (site_context E) d (sv_proxy s) (sv_heap s) (sv_world s) = Inr (q, this, h, w)"
        and s1: "sv_tasks s1 ! k = (case q of None \<Rightarrow> Dropped d | Some ss \<Rightarrow> Relaying ss)"
        by (auto simp: task_turn_def start_turn_def fbind_eq_Inr_iff)
      from start show ?thesis by (cases rule: session_start_cases) (simp_all add: s1)
    next
      case (Relaying ss)
      with True that(1,3) obtain b ss1 h w where turn: "session_turn (site_os E) ss (sv_shared s) (sv_world s) = Some (Inr (b, ss1, h, w))"
        and s1: "sv_tasks s1 ! k = (if b then Relaying ss1 else Served ss1)"
        by (auto simp: task_turn_def loop_turn_def fbind_eq_Inr_iff)
      show ?thesis using session_turn_waits [OF turn] assms [of "{ss_client ss, ss_target ss}"] unfolding s1 by blast
    qed (use True that in \<open>auto simp: task_turn_def\<close>)
  qed
  with Cons.IH show ?case by (auto split: option.splits sum.splits outcome.splits simp del: waits.simps)
qed simp

text \<open>A \<open>select\<close> reports some of the descriptors it was asked for.\<close>

definition asks_its_own :: "('h, 'c) task \<Rightarrow> bool" where
  "asks_its_own t \<longleftrightarrow> (case t of Relaying ss \<Rightarrow>
       (case ss_next ss of AtSelect \<Rightarrow> True | AtUpstream fds \<Rightarrow> fds \<subseteq> {ss_client ss, ss_target ss}
        | AtDownstream fds still_connected \<Rightarrow> fds \<subseteq> {ss_client ss, ss_target ss})
     | _ \<Rightarrow> True)"

lemma asks_its_own_simps [simp]:
  "asks_its_own (Pushed d)" "asks_its_own (Served ss)" "asks_its_own (Dropped d)"
  by (simp_all add: asks_its_own_def)

section \<open>The potential\<close>

text \<open>How many turns the position of the loop allows before the next exchange or idle \<open>select\<close>, at most.\<close>

fun beats :: "('h, 'c) task \<Rightarrow> nat" where
  "beats (Relaying ss) =
     (case ss_next ss of AtSelect \<Rightarrow> 2 | AtUpstream fds \<Rightarrow> if fds = {} then 4 else 1
      | AtDownstream fds still_connected \<Rightarrow> if ss_target ss \<in> fds then 0 else 3)"
| "beats _ = 0"

lemma beats_le: "beats t \<le> 4"
  by (cases t) (auto split: position.split)

definition stock :: "(int \<Rightarrow> 'w \<Rightarrow> bytes) \<Rightarrow> ('h, 'c) task \<Rightarrow> 'w \<Rightarrow> nat" where
  "stock inp t w = sum_list (map (\<lambda>d. length (inp d w)) (fds_of t)) + quota t"

definition dues :: "(int \<Rightarrow> 'w \<Rightarrow> bytes) \<Rightarrow> ('h, 'c) task \<Rightarrow> 'w \<Rightarrow> nat" where
  "dues inp t w = 3 * stock inp t w + beats t"

locale selecting_streams = serving_streams E opened incoming sent fails
  for E :: "('c, 'st, 'lb, 'w) site" and opened and incoming :: "int \<Rightarrow> 'w \<Rightarrow> bytes"
    and sent :: "int \<Rightarrow> 'w \<Rightarrow> bytes" and fails +
  assumes select_subset: "os_select (site_os E) m fds tv w = ((r, fds'), w') \<Longrightarrow> fds' \<subseteq> fds"
begin

lemma session_turn_reports_asked:
  assumes "session_turn (site_os E) ss h w = Some (Inr (b, ss1, h1, w1))" and "asks_its_own (Relaying ss)"
  shows "asks_its_own (if b then Relaying ss1 else Served ss1)"
proof (cases "ss_next ss")
  case AtSelect
  then obtain fds where f: "SocketSelect_new (site_os E) (ss_client ss) (Some (ss_target ss)) NonBlockingSocket w = Inr (fds, w1)"
    "ss1 = ss\<lparr>ss_next := AtUpstream fds\<rparr>" "b"
    using assms(1) by (auto simp: session_turn_def fbind_eq_Inr_iff)
  obtain r where "os_select (site_os E) (max (ss_client ss) (ss_target ss) + 1) {ss_client ss, ss_target ss} (Some 1) w = ((r, fds), w1)"
    using SocketSelect_returns [OF f(1)] by blast
  from select_subset [OF this] f show ?thesis by (simp add: asks_its_own_def)
qed (use assms in \<open>auto simp: session_turn_def fbind_eq_Inr_iff asks_its_own_def split: if_splits\<close>)

lemma turn_reports_asked:
  assumes "take_turn E t s = Some (Inr (r, s'))" and "\<forall>t \<in> set (sv_tasks s). asks_its_own t"
  shows "\<forall>t \<in> set (sv_tasks s'). asks_its_own t"
  using assms(1)
proof (cases rule: take_turn_cases)
  case (listen q h w)
  then show ?thesis using assms(2) by (cases q) auto
next
  case (start k d q this h w)
  have "asks_its_own (case q of None \<Rightarrow> Dropped d | Some ss \<Rightarrow> Relaying ss)"
    using start(5) by (cases rule: session_start_cases) (simp_all add: asks_its_own_def)
  then show ?thesis using assms(2) start(6) set_update_subset_insert by fastforce
next
  case (loop k ss b ss1 h w)
  have "asks_its_own (Relaying ss)" using assms(2) loop(2,3) nth_mem by fastforce
  from session_turn_reports_asked [OF loop(5) this] show ?thesis
    using assms(2) loop(6) set_update_subset_insert by fastforce
qed (use assms(2) in simp)

text \<open>A turn of the session itself lowers its dues, unless it waits.\<close>

lemma own_turn_pays:
  assumes "session_turn (site_os E) ss h w = Some (Inr (b, ss1, h1, w1))" and "ss_client ss \<noteq> ss_target ss"
    and "asks_its_own (Relaying ss)" and "answers_empty (ss_handler ss)"
    and t1: "t1 = (if b then Relaying ss1 else Served ss1)"
  shows "1 + dues incoming t1 w1 \<le> dues incoming (Relaying ss) w + (if waits t1 then 3 else 0)"
proof -
  from session_turn_told [OF assms(1,2) t1] obtain tr where tr:
    "relayed False (ss_handler ss) incoming sent (ss_client ss) (ss_target ss) tr ((h, ss_context ss), w) ((h1, ss_context ss1), w1)"
    "answers_empty (ss_handler ss) \<longrightarrow> empties tr + quota t1 \<le> quota (Relaying ss)" "ready ss \<longrightarrow> tr \<noteq> []"
    by (elim exE conjE) (rule that)
  have fds: "fds_of t1 = [ss_client ss, ss_target ss]" using session_turn_keeps(1,2) [OF assms(1)] t1 by simp
  have "length tr + stock incoming t1 w1 \<le> stock incoming (Relaying ss) w"
    using tr(1,2) assms(4) exchanges_take [of tr] by (simp add: stock_def fds relayed_def del: quota.simps)
  moreover have "1 + beats t1 \<le> beats (Relaying ss) + 3 * length tr + (if waits t1 then 3 else 0)"
  proof (cases "ss_next ss")
    case AtSelect
    then show ?thesis using assms(1) by (auto simp: session_turn_def fbind_eq_Inr_iff t1)
  next
    case (AtUpstream fds)
    have "ss_client ss \<in> fds \<longrightarrow> 1 \<le> length tr" using tr(3) AtUpstream by (auto simp: ready_def Suc_le_eq)
    moreover have "fds = {} \<or> ss_client ss \<in> fds \<or> ss_target ss \<in> fds"
      using assms(3) AtUpstream by (auto simp: asks_its_own_def)
    ultimately show ?thesis using assms(1) AtUpstream by (auto simp: session_turn_def fbind_eq_Inr_iff t1)
  next
    case (AtDownstream fds st)
    have "ss_target ss \<in> fds \<longrightarrow> 1 \<le> length tr" using tr(3) AtDownstream by (auto simp: ready_def Suc_le_eq)
    then show ?thesis using assms(1) AtDownstream by (auto simp: session_turn_def fbind_eq_Inr_iff t1)
  qed
  ultimately show ?thesis by (simp add: dues_def del: beats.simps waits.simps)
qed

text \<open>The turns of the others leave the task alone and its streams no longer than they were.\<close>

lemma told_stock: "told incoming out k t tr w w' \<Longrightarrow> stock incoming t w' \<le> stock incoming t w"
  unfolding told_def stock_def fds_of_def map_append sum_list_append
  by (intro add_mono sum_list_mono) auto

lemma other_turn:
  assumes "take_turn E t s = Some (Inr (r, s'))" and "t \<noteq> Task k" and "k < length (sv_tasks s)"
  shows "k < length (sv_tasks s') \<and> sv_tasks s' ! k = sv_tasks s ! k"
  using assms(1)
proof (cases rule: take_turn_cases)
  case (listen q h w)
  then show ?thesis using assms(3) by (cases q) (simp_all add: nth_append)
qed (use assms(2,3) in auto)

lemma served_stays:
  fixes s :: "('p, 'h, 'c, 'st, 'lb, 'w) serving"
  assumes "serve E ts s = Some (Inr (r, s'))" and "k < length (sv_tasks s)" and "sv_tasks s ! k = Served ss"
  shows "sv_tasks s' ! k = Served ss"
proof -
  have "k < length (sv_tasks s') \<and> sv_tasks s' ! k = Served ss"
  proof (rule serve_invariant [OF assms(1), of "\<lambda>s. k < length (sv_tasks s) \<and> sv_tasks s ! k = Served ss"])
    fix t and s s' :: "('p, 'h, 'c, 'st, 'lb, 'w) serving" and r
    assume "k < length (sv_tasks s) \<and> sv_tasks s ! k = Served ss" "take_turn E t s = Some (Inr (r, s'))"
    then show "k < length (sv_tasks s') \<and> sv_tasks s' ! k = Served ss"
      using other_turn [of t s r s' k] by (cases "t = Task k") (auto simp: task_turn_def)
  qed (use assms in simp)
  then show ?thesis by simp
qed

lemma serve_Cons_ends:
  assumes "serve E (t # ts) s = Some (Inr (Ret (), s'))"
  obtains s1 where "take_turn E t s = Some (Inr (Ret (), s1))" "serve E ts s1 = Some (Inr (Ret (), s'))"
proof -
  obtain q s1 where q: "take_turn E t s = Some (Inr (q, s1))" "case q of Throw e \<Rightarrow> Ret () = Throw e \<and> s' = s1
      | Ret _ \<Rightarrow> serve E ts s1 = Some (Inr (Ret (), s'))"
    unfolding serve_def by (rule run_turns_Cons_returns [OF assms [unfolded serve_def]])
  with that show thesis by (cases q) simp_all
qed

definition serving_well :: "('h \<times> 'c) CProxyHandler \<Rightarrow> int set \<Rightarrow> ('p, 'h, 'c, 'st, 'lb, 'w) serving \<Rightarrow> bool" where
  "serving_well ph B s \<longleftrightarrow> owned opened B (sv_tasks s) (sv_world s) \<and> handled_by ph s \<and>
     (\<forall>t \<in> set (sv_tasks s). asks_its_own t)"

lemma turn_serves_well:
  "take_turn E t s = Some (Inr (r, s')) \<Longrightarrow> serving_well ph B s \<Longrightarrow> serving_well ph B s'"
  using turn_reports_asked [of t s r s'] turn_owned [of t s r s' B] turn_advances [of t s r s' B ph]
  by (auto simp: serving_well_def)

lemma run_serves_well:
  fixes this :: "('p, 'h \<times> 'c, 'st, 'lb) CProxySocket"
  assumes "serve E ts (started this x h w) = Some (Inr (r, s))" and "m_handler this = Some ph"
  shows "serving_well ph (opened w) s"
proof (rule serve_invariant [OF assms(1), of "serving_well ph (opened w)"])
  show "serving_well ph (opened w) (started this x h w)"
    using assms(2) by (simp add: started_def serving_well_def owned_def descriptors_def handled_by_def)
qed (rule turn_serves_well)

lemma turn_pays:
  assumes "take_turn E t s = Some (Inr (r, s'))" and "serving_well ph B s" and "answers_empty ph"
    and "k < length (sv_tasks s)" and "sv_tasks s ! k = Relaying ss"
  shows "k < length (sv_tasks s') \<and> (\<exists>ss'. sv_tasks s' ! k \<in> {Relaying ss', Served ss'}) \<and>
    (if t = Task k then 1 else 0) + dues incoming (sv_tasks s' ! k) (sv_world s') \<le>
      dues incoming (Relaying ss) (sv_world s) + (if t = Task k \<and> waits (sv_tasks s' ! k) then 3 else 0)"
proof (cases "t = Task k")
  case False
  note same = other_turn [OF assms(1) False assms(4)]
  obtain tr where "advances incoming sent ph k (sv_tasks s ! k) (sv_tasks s' ! k) tr (sv_world s) (sv_world s')"
    using turn_advances [OF assms(1)] assms(2,4) unfolding serving_well_def schedule_advances_def by blast
  then have "stock incoming (Relaying ss) (sv_world s') \<le> stock incoming (Relaying ss) (sv_world s)"
    using told_stock [of sent k "Relaying ss" tr] assms(5) by (simp add: advances_def)
  then show ?thesis using same assms(5) False by (simp add: dues_def)
next
  case True
  then obtain b ss1 h w where turn: "session_turn (site_os E) ss (sv_shared s) (sv_world s) = Some (Inr (b, ss1, h, w))"
    "s' = s\<lparr>sv_shared := h, sv_world := w, sv_tasks := (sv_tasks s)[k := (if b then Relaying ss1 else Served ss1)]\<rparr>"
    using assms(1,4,5) by (auto simp: task_turn_def loop_turn_def fbind_eq_Inr_iff)
  have "ss_client ss \<noteq> ss_target ss" "asks_its_own (Relaying ss)" "answers_empty (ss_handler ss)"
    using assms(2-5) descriptors_of_one [OF _ assms(4)] nth_mem [OF assms(4)]
    by (auto simp: serving_well_def owned_def handled_by_def)
  from own_turn_pays [OF turn(1) this refl] show ?thesis
    using turn(2) assms(4) True by (auto simp del: waits.simps)
qed

text \<open>A schedule after which the session is still running has given it no more turns than are paid for.\<close>

lemma turns_are_paid:
  assumes "serve E us s = Some (Inr (Ret (), s'))" and "serving_well ph B s" and "answers_empty ph"
    and "k < length (sv_tasks s)" and "sv_tasks s ! k = Relaying ss"
  shows "(\<exists>ss'. sv_tasks s' ! k = Served ss') \<or>
    (\<exists>ss'. sv_tasks s' ! k = Relaying ss' \<and>
      count_list us (Task k) + dues incoming (Relaying ss') (sv_world s') \<le>
        dues incoming (Relaying ss) (sv_world s) + 3 * idle_selects E k us s)"
  using assms(1,2,4,5)
proof (induction us arbitrary: s ss)
  case (Cons t us)
  obtain s1 where t: "take_turn E t s = Some (Inr (Ret (), s1))" "serve E us s1 = Some (Inr (Ret (), s'))"
    by (rule serve_Cons_ends [OF Cons.prems(1)])
  note pays = turn_pays [OF t(1) Cons.prems(2) assms(3) Cons.prems(3,4)]
  obtain ss1 where ss1: "sv_tasks s1 ! k = Relaying ss1 \<or> sv_tasks s1 ! k = Served ss1" using pays by blast
  show ?case
  proof (cases "sv_tasks s1 ! k = Served ss1")
    case True
    then show ?thesis using served_stays [OF t(2)] pays by blast
  next
    case False
    with ss1 have r: "sv_tasks s1 ! k = Relaying ss1" by simp
    have k: "k < length (sv_tasks s1)" using pays by blast
    have idle: "idle_selects E k (t # us) s = (if t = Task k \<and> waits (sv_tasks s1 ! k) then 1 else 0) + idle_selects E k us s1"
      using t(1) k by (simp del: waits.simps)
    from Cons.IH [OF t(2) turn_serves_well [OF t(1) Cons.prems(2)] k r] show ?thesis
    proof (elim disjE exE conjE)
      fix ss'
      assume s': "sv_tasks s' ! k = Relaying ss'" and "count_list us (Task k) + dues incoming (Relaying ss') (sv_world s') \<le>
          dues incoming (Relaying ss1) (sv_world s1) + 3 * idle_selects E k us s1"
      then have "count_list (t # us) (Task k) + dues incoming (Relaying ss') (sv_world s') \<le>
          dues incoming (Relaying ss) (sv_world s) + 3 * idle_selects E k (t # us) s"
        using pays unfolding idle r by (cases "t = Task k") (simp_all del: waits.simps split: if_splits)
      with s' show ?thesis by blast
    qed blast
  qed
qed simp

end

end
