(* ===== verification/Sessions_Progress.thy ===== *)
theory Sessions_Progress
  imports Sessions_Pace Proxy_Session
begin

text \<open>
  A session that is given turns in a row: no turn blocks or faults, none touches another task, and after
  them the session has ended or its turns were paid for (\<open>turns_are_paid\<close>).
\<close>

section \<open>Turns return\<close>

lemma session_turn_returns:
  assumes "relay_session os inp out fails complete ph (ss_client ss) (ss_target ss)" and "ss_handler ss = ph"
  shows "\<exists>b ss1 h1 w1. session_turn os ss h w = Some (Inr (b, ss1, h1, w1))"
proof (cases "ss_next ss")
  case AtSelect
  obtain r fds w1 where "os_select os (max (ss_client ss) (ss_target ss) + 1) {ss_client ss, ss_target ss} (Some 1) w =
      ((r, fds), w1)" by (metis prod.exhaust)
  then show ?thesis
    using AtSelect relay_session.distinct(2,3) [OF assms(1)] by (auto simp: session_turn_def SocketSelect_two)
next
  case (AtUpstream fds)
  obtain b h1 c w1 where "upstream_half os ph (ss_client ss) (ss_target ss) fds ((h, ss_context ss), w) =
      Some (Inr (b, (h1, c), w1))"
    using relay_session.half_returns [OF assms(1), of Upstream fds True "(h, ss_context ss)" w]
    by (auto simp: upstream_half_def)
  then show ?thesis using AtUpstream assms(2) by (auto simp: session_turn_def)
next
  case (AtDownstream fds st)
  obtain b h1 c w1 where "downstream_half os ph (ss_client ss) (ss_target ss) fds st ((h, ss_context ss), w) =
      Some (Inr (b, (h1, c), w1))"
    using relay_session.half_returns [OF assms(1), of Downstream fds st "(h, ss_context ss)" w]
    by (auto simp: downstream_half_def)
  then show ?thesis using AtDownstream assms(2) by (auto simp: session_turn_def)
qed

lemma served_idles:
  "k < length (sv_tasks s) \<Longrightarrow> sv_tasks s ! k = Served ss \<Longrightarrow> serve E (replicate n (Task k)) s = Some (Inr (Ret (), s))"
  by (induction n) (simp_all add: task_turn_def)

text \<open>What the turns of one session leave: all but its own task, the handler and the system is untouched.\<close>

definition runs_on ::
    "('c, 'st, 'lb, 'w) site \<Rightarrow> nat \<Rightarrow> nat \<Rightarrow> ('h, 'c) session \<Rightarrow> ('p, 'h, 'c, 'st, 'lb, 'w) serving \<Rightarrow>
     ('h, 'c) task \<Rightarrow> ('p, 'h, 'c, 'st, 'lb, 'w) serving \<Rightarrow> bool" where
  "runs_on E n k ss s t s' \<longleftrightarrow> serve E (replicate n (Task k)) s = Some (Inr (Ret (), s')) \<and>
     (\<exists>x w. s' = s\<lparr>sv_shared := x, sv_world := w, sv_tasks := (sv_tasks s)[k := t]\<rparr>) \<and>
     (\<exists>ss'. t \<in> {Relaying ss', Served ss'} \<and> ss_client ss' = ss_client ss \<and> ss_target ss' = ss_target ss)"

lemma session_runs_on:
  assumes "relay_session (site_os E) inp out fails complete ph c g"
    and "k < length (sv_tasks s)" and "sv_tasks s ! k = Relaying ss"
    and "ss_handler ss = ph" and "ss_client ss = c" and "ss_target ss = g"
  shows "\<exists>t s'. runs_on E n k ss s t s'"
  using assms(2-)
proof (induction n arbitrary: s ss)
  case 0
  have "(sv_tasks s)[k := Relaying ss] = sv_tasks s" using 0(1,2) by (metis list_update_id)
  then have "runs_on E 0 k ss s (Relaying ss) s"
    by (auto simp: runs_on_def intro!: exI [of _ "sv_shared s"] exI [of _ "sv_world s"])
  then show ?case by blast
next
  case (Suc n)
  obtain b ss1 x w where turn: "session_turn (site_os E) ss (sv_shared s) (sv_world s) = Some (Inr (b, ss1, x, w))"
    using session_turn_returns [of "site_os E" inp out fails complete ph ss] assms(1) Suc.prems(3-5) by blast
  let ?t = "if b then Relaying ss1 else Served ss1"
  let ?s = "s\<lparr>sv_shared := x, sv_world := w, sv_tasks := (sv_tasks s)[k := ?t]\<rparr>"
  note keeps = session_turn_keeps(1-3) [OF turn]
  have first: "serve E (replicate (Suc n) (Task k)) s = serve E (replicate n (Task k)) ?s"
    using turn Suc.prems(1,2) by (simp add: serve_task task_loop loop_turn_def del: serve_simps(2))
  have k: "k < length (sv_tasks ?s)" "sv_tasks ?s ! k = ?t" using Suc.prems(1) by simp_all
  show ?case
  proof (cases b)
    case False
    have "runs_on E (Suc n) k ss s (Served ss1) ?s"
      unfolding runs_on_def first using served_idles [OF k(1), of ss1 E n] k(2) False keeps
      by (auto intro!: exI [of _ x] exI [of _ w])
    then show ?thesis by blast
  next
    case True
    from Suc.IH [of ?s ss1] k Suc.prems(3-5) keeps True obtain t s' where "runs_on E n k ss1 ?s t s'" by auto
    then obtain y v where "serve E (replicate n (Task k)) ?s = Some (Inr (Ret (), s'))"
      "s' = ?s\<lparr>sv_shared := y, sv_world := v, sv_tasks := (sv_tasks ?s)[k := t]\<rparr>"
      "\<exists>ss'. t \<in> {Relaying ss', Served ss'} \<and> ss_client ss' = ss_client ss1 \<and> ss_target ss' = ss_target ss1"
      unfolding runs_on_def by blast
    then have "runs_on E (Suc n) k ss s t s'"
      unfolding runs_on_def first using keeps by (auto intro!: exI [of _ y] exI [of _ v])
    then show ?thesis by blast
  qed
qed

section \<open>And are paid for\<close>

lemma quota_le: "quota t \<le> 2"
  by (cases t) (auto split: position.split bool.split)

lemma dues_le:
  "dues inp (Relaying ss) w \<le> 3 * (length (inp (ss_client ss) w) + length (inp (ss_target ss) w) + 2) + 4"
  using beats_le [of "Relaying ss"] quota_le [of "Relaying ss"]
  by (simp add: dues_def stock_def del: beats.simps quota.simps)

lemma replicate_turns: "count_list (replicate n (Task k)) (Task k) = n"
  by (induction n) simp_all

text \<open>The number of turns that a session can be given at most before it ends.\<close>

definition turns_due ::
    "('c, 'st, 'lb, 'w) site \<Rightarrow> (int \<Rightarrow> 'w \<Rightarrow> bytes) \<Rightarrow> nat \<Rightarrow> ('h, 'c) session \<Rightarrow> turn list \<Rightarrow>
     ('p, 'h, 'c, 'st, 'lb, 'w) serving \<Rightarrow> nat" where
  "turns_due E inp k ss us s =
     3 * (length (inp (ss_client ss) (sv_world s)) + length (inp (ss_target ss) (sv_world s)) + 2 +
       idle_selects E k us s) + 4"

lemma ended_or_due:
  assumes "selecting_streams E opened inp out fails" and "m_handler this = Some ph"
    and "serve E ts (started this x h w) = Some (Inr (Ret (), s))" and "serve E us s = Some (Inr (Ret (), s'))"
    and "k < length (sv_tasks s)" and "sv_tasks s ! k = Relaying ss"
    and "\<And>d x e. fst (handle_of ph d [] 0 x) \<noteq> Throw e"
  shows "(\<exists>ss'. sv_tasks s' ! k = Served ss') \<or> count_list us (Task k) \<le> turns_due E inp k ss us s"
proof -
  have "answers_empty ph" using assms(7) by (simp add: answers_empty_def)
  from selecting_streams.turns_are_paid [OF assms(1,4) selecting_streams.run_serves_well [OF assms(1,3,2)]
      this assms(5,6)] dues_le [of inp ss "sv_world s"]
  show ?thesis by (auto simp: turns_due_def)
qed

lemma runs_on_or_due:
  assumes "selecting_streams E opened inp out fails"
    and "relay_session (site_os E) inp out fails complete ph (ss_client ss) (ss_target ss)"
    and "m_handler this = Some ph" and "serve E ts (started this x h w) = Some (Inr (Ret (), s))"
    and "k < length (sv_tasks s)" and "sv_tasks s ! k = Relaying ss"
  shows "\<exists>t s'. runs_on E n k ss s t s' \<and>
    ((\<exists>ss'. t = Served ss') \<or> n \<le> turns_due E inp k ss (replicate n (Task k)) s)"
proof -
  have "handled_by ph s"
    using selecting_streams.run_serves_well [OF assms(1,4,3)] assms(1) by (simp add: selecting_streams.serving_well_def)
  then have "ss_handler ss = ph" using nth_mem [OF assms(5)] assms(6) by (simp add: handled_by_def)
  from session_runs_on [OF assms(2,5,6) this refl refl] obtain t s' where r: "runs_on E n k ss s t s'" by blast
  then have "serve E (replicate n (Task k)) s = Some (Inr (Ret (), s'))" "sv_tasks s' ! k = t"
    using assms(5) by (auto simp: runs_on_def)
  with ended_or_due [OF assms(1,3,4) this(1) assms(5,6) relay_session.answers_empty [OF assms(2)]] r
  show ?thesis unfolding replicate_turns by blast
qed

end
