(* ===== verification/Sessions_Theorems.thy ===== *)
theory Sessions_Theorems
  imports Sessions_Progress Proxy_Theorems
begin

text \<open>Properties of a proxy that serves many connections at once, under every schedule of its turns.\<close>

section \<open>A concrete proxy at work\<close>

text \<open>A handler that passes every chunk on, and counts the calls of each session in its context.\<close>

definition pass_counting :: "('h \<times> nat) handling" where
  "pass_counting bs n x = (if length bs < 2 ^ 31 then Ret bs else Throw ''too long'', fst x, snd x + 1)"

definition session_pass :: "('h \<times> nat) CProxyHandler" where
  "session_pass = \<lparr>HandleUpstreamData = pass_counting, HandleDownStreamData = pass_counting\<rparr>"

lemma handle_session_pass: "handle_of session_pass d = pass_counting"
  by (cases d) (simp_all add: session_pass_def)

definition sim_site :: "(nat, unit, nat, kernel) site" where
  "sim_site = \<lparr>site_os = sim_full, site_resolver = sim_hostent, site_helper = no_options,
     site_balancer = counting_balancer, site_ip = (\<lambda>a. ''0.0.0.0''),
     site_info = \<lparr>node_info = [], node_mode = 1\<rparr>, site_context = 0\<rparr>"

interpretation sim_site: serving_streams sim_site k_open sim_in sim_out sim_fails
proof (intro serving_streams.intro serving_env.intro)
  show "proxy_env (site_os sim_site) k_open (site_resolver sim_site) (site_helper sim_site)"
    using sim_full.proxy_env_axioms by (simp add: sim_site_def)
  show "posix_live (site_os sim_site) sim_in sim_out sim_fails"
    using sim_full.posix_live_axioms by (simp add: sim_site_def)
  show "serving_streams_axioms sim_site k_open sim_in sim_out"
    by unfold_locales
      (auto simp: sim_site_def sim_full_def sim_def sim_open_def sim_hostent_def no_options_def sim_in_def sim_out_def
        log_def sent_on_append split: list.splits if_splits)
qed

interpretation sim_paced: selecting_streams sim_site k_open sim_in sim_out sim_fails
  by unfold_locales (simp add: sim_site_def sim_full_def sim_def)

lemma sim_site_never_idle: "idle_selects sim_site k us s = 0"
  by (rule never_idle) (simp add: sim_site_def sim_full_def sim_def)

interpretation sim_pass: relay_session sim_full sim_in sim_out sim_fails True "session_pass :: ('h \<times> nat) CProxyHandler" 9 3
  by unfold_locales (auto simp: sim_full_def sim_def fd_ok_def FD_SETSIZE_def handle_session_pass pass_counting_def split: if_splits)

definition pass_proxy :: "(unit, 'h \<times> nat, unit, nat) CProxySocket" where
  "pass_proxy = \<lparr>sock_fd = 4, refCounter = 0, m_ProtocolPort = 9000, max_connections = 128,
     info = \<lparr>node_info = [], node_mode = 0\<rparr>, socket_address = \<lparr>sin_port = 9000, sin_addr = 0\<rparr>,
     thread_routine = None, listener = None, m_handler = Some session_pass, m_configValues = [sample_service],
     thread_routine_override = BuiltIn, loadBalancerStrategy = (), loadBalancer = Ptr 0,
     hostname_map = Indeterminate\<rparr>"

text \<open>Two clients wait, one of which has sent something.\<close>

definition two_clients :: kernel where
  "two_clients = boot\<lparr>k_in := (\<lambda>s. if s = 9 then [[1, 2], [3]] else []), k_accept := [9, 11]\<rparr>"

definition pass_start :: "'h \<Rightarrow> (unit, 'h, nat, unit, nat, kernel) serving" where
  "pass_start x = started pass_proxy x empty_heap two_clients"

lemmas site_eval = started_def listener_turn_def task_turn_def start_turn_def session_start_def connect_target_def
  counting_balancer_def sample_service_def pass_proxy_def GetHandler_def sim_site_def two_clients_def pass_start_def
  listen_round_def Accept_def Socket_adopt_def Client_new_def Socket_new_def CreateSocket_def sim_full_def sim_def
  sim_open_def log_def Start_def new_counter_def INVALID_SOCKET_def strcpy_def SERVER_NAME_SIZE_def
  REMOTE_ADDR_SIZE_def Connect_def Resolve_def isalpha_def sim_hostent_def c_free_def Socket.extend_def
  CClientSocket.fields_def deref_def set_options_def no_options_def boot_def empty_heap_def Let_def

lemma two_sessions:
  "\<exists>s a b. serve sim_site [Listener, Listener, Task 0, Task 1] (pass_start x) = Some (Inr (Ret (), s)) \<and>
     sv_tasks s = [Relaying a, Relaying b] \<and>
     (ss_client a, ss_target a, ss_client b, ss_target b) = (9, 3, 11, 4) \<and>
     ss_handler a = session_pass \<and> ss_context a = 0 \<and> ss_next a = AtSelect \<and> ss_next b = AtSelect \<and>
     k_in (sv_world s) = k_in two_clients \<and> sv_shared s = x \<and> loadBalancer (sv_proxy s) = Ptr 2"
  by (simp add: site_eval)

section \<open>Descriptors\<close>

text \<open>C13: No two sessions of a proxy ever share a descriptor. Under every schedule of the listener and the
  tasks, the descriptors of the accepted connections and of the targets are pairwise distinct, none of
  them was open when the proxy started, and together with those that were they are exactly the open
  descriptors: nothing a session opened is ever closed, ended sessions included.
\<close>

theorem sessions_own_their_descriptors:
  assumes "serving_env E opened" and "serve E ts (started this x h w) = Some (Inr (r, s))"
  shows "distinct (descriptors (sv_tasks s)) \<and> set (descriptors (sv_tasks s)) \<inter> opened w = {} \<and>
    opened (sv_world s) = set (descriptors (sv_tasks s)) \<union> opened w"
  using serving_env.run_owned [OF assms] by (simp add: owned_def)

theorem sessions_own_their_descriptors_witness:
  "\<exists>s. serve sim_site [Listener, Listener, Task 0, Task 1] (pass_start ()) = Some (Inr (Ret (), s)) \<and>
     k_open (sv_world s) = {9, 3, 11, 4}"
proof -
  obtain s and a b :: "(unit, nat) session" where s:
    "serve sim_site [Listener, Listener, Task 0, Task 1] (pass_start ()) = Some (Inr (Ret (), s))"
    "sv_tasks s = [Relaying a, Relaying b]" "(ss_client a, ss_target a, ss_client b, ss_target b) = (9, 3, 11, 4)"
    using two_sessions [of "()"] by metis
  from sessions_own_their_descriptors [OF sim_site.serving_env_axioms s(1) [unfolded pass_start_def]] s
  show ?thesis by (auto simp: descriptors_def two_clients_def boot_def)
qed

text \<open>C20: A proxy serves at most 512 connections in its life. Every session that has passed its first
  \<open>select\<close> occupies two descriptors below \<open>FD_SETSIZE\<close>, for ever, since none is closed; so under every
  schedule that stays within defined behaviour, twice the number of these sessions, with the descriptors
  below \<open>FD_SETSIZE\<close> that were open before, is at most 1024. Once they are used up, the next session
  leaves its \<open>fd_set\<close>.
\<close>

theorem proxy_serves_at_most_512_connections:
  assumes "serving_env E opened" and "serve E ts (started this x h w) = Some (Inr (r, s))"
  shows "2 * length (filter in_service (sv_tasks s)) + card (opened w \<inter> {0..<1024}) \<le> 1024"
  using service_bound [OF serving_env.run_owned [OF assms] run_selectable [OF assms(2)]]
  by (simp add: FD_SETSIZE_def)

theorem proxy_serves_at_most_512_connections_witness:
  "\<exists>s. serve sim_site [Listener, Listener, Task 0, Task 1, Task 0, Task 1] (pass_start ()) = Some (Inr (Ret (), s)) \<and>
     length (filter in_service (sv_tasks s)) = 2 \<and> 2 * 2 + card (k_open two_clients \<inter> {0..<1024}) \<le> (1024 :: nat)"
proof -
  obtain s where s: "serve sim_site [Listener, Listener, Task 0, Task 1, Task 0, Task 1] (pass_start ()) = Some (Inr (Ret (), s))"
    "length (filter in_service (sv_tasks s)) = 2"
    by (simp add: site_eval loop_turn_def session_turn_def SocketSelect_two fd_ok_def FD_SETSIZE_def)
  from proxy_serves_at_most_512_connections [OF sim_site.serving_env_axioms s(1) [unfolded pass_start_def]] s
  show ?thesis by auto
qed

section \<open>Exchanges\<close>

text \<open>C5: Sessions do not disturb each other, whatever the schedule. From any reachable state, every further
  schedule has a trace of exchanges, each of one session, such that the handler, with one state for all
  sessions and a context for each, has gone through exactly these chunks in this order, and for every
  task, running, ended or still waiting to start: what its own exchanges read came off the streams of
  its own two descriptors, nothing lost, and what they put was sent on them. A task keeps its descriptors.
\<close>

theorem sessions_exchange_on_their_own_streams:
  assumes "serving_streams E opened inp out fails" and "m_handler this = Some ph"
    and "serve E ts (started this x h w) = Some (Inr (Ret (), s))" and "serve E us s = Some (Inr (r, s'))"
  shows "\<exists>tr. explains_all ph tr (sv_shared s, contexts (site_context E) (sv_tasks s))
        (sv_shared s', contexts (site_context E) (sv_tasks s')) \<and>
      (\<forall>i < length (sv_tasks s). extends (sv_tasks s ! i) (sv_tasks s' ! i) \<and>
        told inp out i (sv_tasks s ! i) tr (sv_world s) (sv_world s'))"
  using serving_streams.reachable_told [OF assms] unfolding advances_def by blast

text \<open>One of the two sessions runs to its end.\<close>

lemma pass_handler: "m_handler (pass_proxy :: (unit, 'h \<times> nat, unit, nat) CProxySocket) = Some session_pass"
  by (simp add: pass_proxy_def)

lemma pass_relays:
  "relay_session (site_os sim_site) sim_in sim_out sim_fails True (session_pass :: ('h \<times> nat) CProxyHandler) 9 3"
  using sim_pass.relay_session_axioms by (simp add: sim_site_def)

lemma first_session_ends:
  assumes "serve sim_site ts (pass_start x) = Some (Inr (Ret (), s))"
    and "sv_tasks s = [Relaying a, Relaying b]" and "ss_client a = 9" "ss_target a = 3"
  shows "\<exists>n s' a'. serve sim_site (replicate n (Task 0)) s = Some (Inr (Ret (), s')) \<and> sv_tasks s' = [Served a', Relaying b]"
proof -
  have rs: "relay_session (site_os sim_site) sim_in sim_out sim_fails True session_pass (ss_client a) (ss_target a)"
    unfolding assms(3,4) by (rule pass_relays)
  have k: "0 < length (sv_tasks s)" "sv_tasks s ! 0 = Relaying a" using assms(2) by simp_all
  let ?n = "Suc (turns_due sim_site sim_in 0 a [] s)"
  have "turns_due sim_site sim_in 0 a us s < ?n" for us
    by (simp add: turns_due_def sim_site_never_idle)
  with runs_on_or_due [OF sim_paced.selecting_streams_axioms rs pass_handler assms(1) [unfolded pass_start_def] k, of ?n]
  obtain a' s' where "runs_on sim_site ?n 0 a s (Served a') s'" by (metis not_less)
  then show ?thesis
    using assms(2) unfolding runs_on_def by (intro exI [of _ ?n] exI [of _ s'] exI [of _ a']) auto
qed

theorem sessions_exchange_on_their_own_streams_witness:
  "\<exists>s us s' a tr. serve sim_site [Listener, Listener, Task 0, Task 1] (pass_start ()) = Some (Inr (Ret (), s)) \<and>
     serve sim_site us s = Some (Inr (Ret (), s')) \<and> Served a \<in> set (sv_tasks s') \<and>
     [1, 2, 3] = got_on Upstream (of_session 0 tr) @ sim_in 9 (sv_world s') \<and>
     [] = got_on Upstream (of_session 1 tr) @ sim_in 11 (sv_world s')"
proof -
  obtain s and a b :: "(unit, nat) session" where s:
    "serve sim_site [Listener, Listener, Task 0, Task 1] (pass_start ()) = Some (Inr (Ret (), s))"
    "sv_tasks s = [Relaying a, Relaying b]" "ss_client a = 9" "ss_target a = 3" "ss_client b = 11"
    "ss_handler a = session_pass" "ss_next a = AtSelect" "k_in (sv_world s) = k_in two_clients"
    using two_sessions [of "()"] by (metis prod.inject)
  obtain n s' a' where s': "serve sim_site (replicate n (Task 0)) s = Some (Inr (Ret (), s'))"
    "sv_tasks s' = [Served a', Relaying b]" using first_session_ends [OF s(1-4)] by blast
  have "m_handler (pass_proxy :: (unit, unit \<times> nat, unit, nat) CProxySocket) = Some session_pass"
    by (simp add: pass_proxy_def)
  from sessions_exchange_on_their_own_streams [OF sim_site.serving_streams_axioms this s(1) [unfolded pass_start_def] s'(1)]
  obtain tr where t: "\<And>i. i < length (sv_tasks s) \<Longrightarrow> told sim_in sim_out i (sv_tasks s ! i) tr (sv_world s) (sv_world s')"
    by blast
  have "sim_in 9 (sv_world s) = [1, 2, 3]" "sim_in 11 (sv_world s) = []"
    by (simp_all add: sim_in_def s(8) two_clients_def)
  then have "[1, 2, 3] = got_on Upstream (of_session 0 tr) @ sim_in 9 (sv_world s')"
    "[] = got_on Upstream (of_session 1 tr) @ sim_in 11 (sv_world s')"
    using t [of 0] t [of 1] s(2,3,5) by (simp_all add: told_def)
  with s(1) s' show ?thesis by (metis list.set_intros(1))
qed

text \<open>C6: A session among others is a session. If the handler keeps no state of its own, only that in the
  session's context, then a session that runs interleaved with any others, under any schedule, relays as
  it would alone: between any two moments it is the same session on the same two descriptors, its
  exchanges are those of the handler on its own context, and its descriptors' streams are those of the
  sequential session (\<open>relayed\<close>). If it has ended, one of its peers has delivered the empty string.
\<close>

theorem concurrent_session_is_a_session:
  fixes ph :: "(unit \<times> 'c) CProxyHandler"
  assumes "serving_streams E opened inp out fails" and "m_handler this = Some ph"
    and "serve E ts (started this x h w) = Some (Inr (Ret (), s))" and "serve E us s = Some (Inr (r, s'))"
    and "k < length (sv_tasks s)" and "sv_tasks s ! k = Relaying ss"
  shows "\<exists>ss' tr. sv_tasks s' ! k \<in> {Relaying ss', Served ss'} \<and>
      ss_client ss' = ss_client ss \<and> ss_target ss' = ss_target ss \<and>
      relayed False ph inp out (ss_client ss) (ss_target ss) tr
        (((), ss_context ss), sv_world s) (((), ss_context ss'), sv_world s') \<and>
      (sv_tasks s' ! k = Served ss' \<and> ss_next ss = AtSelect \<longrightarrow> (\<exists>d put. (d, [], put) \<in> set tr))"
proof -
  obtain tr where tr: "explains_all ph tr (sv_shared s, contexts (site_context E) (sv_tasks s))
        (sv_shared s', contexts (site_context E) (sv_tasks s'))" "k < length (sv_tasks s')"
    "advances inp out ph k (sv_tasks s ! k) (sv_tasks s' ! k) tr (sv_world s) (sv_world s')"
    using serving_streams.reachable_told [OF assms(1-4)] assms(5) by blast
  obtain ss' where ss': "sv_tasks s' ! k \<in> {Relaying ss', Served ss'}" "ss_client ss' = ss_client ss"
    "ss_target ss' = ss_target ss"
    using tr(3) assms(6) by (cases "sv_tasks s' ! k") (auto simp: advances_def extends_def)
  have c: "contexts (site_context E) (sv_tasks s) k = ss_context ss"
    "contexts (site_context E) (sv_tasks s') k = ss_context ss'"
    using ss'(1) assms(5,6) tr(2) by (auto simp: contexts_def)
  have "explains False ph (of_session k tr) ((), ss_context ss) ((), ss_context ss')"
    using explains_alone [OF tr(1), of k] c by simp
  then have "relayed False ph inp out (ss_client ss) (ss_target ss) (of_session k tr)
        (((), ss_context ss), sv_world s) (((), ss_context ss'), sv_world s')"
    using tr(3) assms(6) by (simp add: relayed_def told_def advances_def)
  moreover have "0 < empties (of_session k tr)" if "sv_tasks s' ! k = Served ss'" "ss_next ss = AtSelect"
    using tr(3) that assms(6) by (simp add: advances_def)
  ultimately show ?thesis using ss' unfolding empties_pos by blast
qed

theorem concurrent_session_is_a_session_witness:
  "\<exists>s us s' a tr. serve sim_site [Listener, Listener, Task 0, Task 1] (pass_start ()) = Some (Inr (Ret (), s)) \<and>
     serve sim_site us s = Some (Inr (Ret (), s')) \<and> sv_tasks s' ! 0 = Served a \<and>
     relayed False session_pass sim_in sim_out 9 3 tr (((), 0), sv_world s) (((), ss_context a), sv_world s')"
proof -
  obtain s and a b :: "(unit, nat) session" where s:
    "serve sim_site [Listener, Listener, Task 0, Task 1] (pass_start ()) = Some (Inr (Ret (), s))"
    "sv_tasks s = [Relaying a, Relaying b]" "ss_client a = 9" "ss_target a = 3" "ss_context a = 0"
    "ss_handler a = session_pass" "ss_next a = AtSelect"
    using two_sessions [of "()"] by (metis prod.inject)
  obtain n s' a' where s': "serve sim_site (replicate n (Task 0)) s = Some (Inr (Ret (), s'))"
    "sv_tasks s' = [Served a', Relaying b]" using first_session_ends [OF s(1-4)] by blast
  have "m_handler (pass_proxy :: (unit, unit \<times> nat, unit, nat) CProxySocket) = Some session_pass"
    by (simp add: pass_proxy_def)
  from concurrent_session_is_a_session [OF sim_site.serving_streams_axioms this s(1) [unfolded pass_start_def] s'(1),
      of 0 a] s(2-5) s'(2) obtain tr where
    "relayed False session_pass sim_in sim_out 9 3 tr (((), 0), sv_world s) (((), ss_context a'), sv_world s')"
    by auto
  with s(1) s' show ?thesis by (metis nth_Cons_0)
qed

text \<open>C21: A session does not exchange for ever, whatever the other sessions do. If the handler answers the empty
  string without an exception, then under every schedule the exchanges of a session number at most the
  bytes that are to come on its two streams and two more: every exchange but two takes something, and
  once the session has read an empty string from both peers it makes no other.
\<close>

theorem session_exchanges_are_bounded:
  assumes "serving_streams E opened inp out fails" and "m_handler this = Some ph"
    and "serve E ts (started this x h w) = Some (Inr (Ret (), s))" and "serve E us s = Some (Inr (r, s'))"
    and "k < length (sv_tasks s)" and "sv_tasks s ! k = Relaying ss"
    and "\<And>d x e. fst (handle_of ph d [] 0 x) \<noteq> Throw e"
  shows "\<exists>tr. explains_all ph tr (sv_shared s, contexts (site_context E) (sv_tasks s))
        (sv_shared s', contexts (site_context E) (sv_tasks s')) \<and>
      length (of_session k tr) \<le>
        length (inp (ss_client ss) (sv_world s)) + length (inp (ss_target ss) (sv_world s)) + 2"
proof -
  obtain tr where tr: "explains_all ph tr (sv_shared s, contexts (site_context E) (sv_tasks s))
        (sv_shared s', contexts (site_context E) (sv_tasks s'))"
    "advances inp out ph k (sv_tasks s ! k) (sv_tasks s' ! k) tr (sv_world s) (sv_world s')"
    using serving_streams.reachable_told [OF assms(1-4)] assms(5) by blast
  have "answers_empty ph" using assms(7) by (simp add: answers_empty_def)
  then have "empties (of_session k tr) \<le> 2"
    using tr(2) assms(6) by (cases "ss_next ss") (auto simp: advances_def split: bool.splits)
  moreover have "length (got_on Upstream (of_session k tr)) \<le> length (inp (ss_client ss) (sv_world s))"
    "length (got_on Downstream (of_session k tr)) \<le> length (inp (ss_target ss) (sv_world s))"
    using tr(2) assms(6) by (simp_all add: advances_def told_def)
  ultimately have "length (of_session k tr) \<le>
        length (inp (ss_client ss) (sv_world s)) + length (inp (ss_target ss) (sv_world s)) + 2"
    using exchanges_take [of "of_session k tr"] by linarith
  with tr(1) show ?thesis by blast
qed

theorem session_exchanges_are_bounded_witness:
  "\<exists>s us s' a tr. serve sim_site [Listener, Listener, Task 0, Task 1] (pass_start ()) = Some (Inr (Ret (), s)) \<and>
     serve sim_site us s = Some (Inr (Ret (), s')) \<and> sv_tasks s' ! 0 = Served a \<and> length (of_session 0 tr) \<le> 5 \<and>
     explains_all session_pass tr (sv_shared s, contexts 0 (sv_tasks s)) (sv_shared s', contexts 0 (sv_tasks s'))"
proof -
  obtain s and a b :: "(unit, nat) session" where s:
    "serve sim_site [Listener, Listener, Task 0, Task 1] (pass_start ()) = Some (Inr (Ret (), s))"
    "sv_tasks s = [Relaying a, Relaying b]" "ss_client a = 9" "ss_target a = 3"
    "ss_handler a = session_pass" "ss_next a = AtSelect" "k_in (sv_world s) = k_in two_clients"
    using two_sessions [of "()"] by (metis prod.inject)
  obtain n s' a' where s': "serve sim_site (replicate n (Task 0)) s = Some (Inr (Ret (), s'))"
    "sv_tasks s' = [Served a', Relaying b]" using first_session_ends [OF s(1-4)] by blast
  have ph: "m_handler (pass_proxy :: (unit, unit \<times> nat, unit, nat) CProxySocket) = Some session_pass"
    by (simp add: pass_proxy_def)
  have i: "sim_in 9 (sv_world s) = [1, 2, 3]" "sim_in 3 (sv_world s) = []"
    by (simp_all add: sim_in_def s(7) two_clients_def)
  have e: "fst (handle_of session_pass d [] 0 y) \<noteq> Throw e" for d e and y :: "unit \<times> nat"
    by (simp add: handle_session_pass pass_counting_def)
  have k: "0 < length (sv_tasks s)" "sv_tasks s ! 0 = Relaying a" using s(2) by simp_all
  from session_exchanges_are_bounded [OF sim_site.serving_streams_axioms ph s(1) [unfolded pass_start_def] s'(1) k e]
  obtain tr where "length (of_session 0 tr) \<le> 5"
    "explains_all session_pass tr (sv_shared s, contexts 0 (sv_tasks s)) (sv_shared s', contexts 0 (sv_tasks s'))"
    using i s(3,4) by (auto simp: eval_nat_numeral sim_site_def)
  with s(1) s' show ?thesis by (metis nth_Cons_0)
qed

text \<open>C9: No session is ever stuck but on its peers. From any reachable state, wherever the loop of a session
  stands and whatever the other tasks have done, a session that is given any number of turns in a row
  takes them without a fault, an exception or blocking; they touch no other task and neither the proxy
  nor the heap; and afterwards the session has ended, or it has had no more turns than three for every
  byte that was to come on its two streams, for two empty strings, and for every one of its own
  \<open>select\<close>s that reported none of its descriptors, and four more. The conditions are those of a session:
  the handler never throws on the empty string and its answers are shorter than \<open>2 ^ 31\<close> bytes, the two
  descriptors are below \<open>FD_SETSIZE\<close>, \<open>recv\<close> fails only finitely often on a descriptor, and the calls on
  one descriptor leave the streams of the others alone. Peers that stay silent for ever can keep it for
  ever: each further \<open>select\<close> that reports nothing allows three more turns.
\<close>

theorem sessions_wait_only_for_their_peers:
  assumes "selecting_streams E opened inp out fails"
    and "relay_session (site_os E) inp out fails complete ph (ss_client ss) (ss_target ss)"
    and "m_handler this = Some ph" and "serve E ts (started this x h w) = Some (Inr (Ret (), s))"
    and "k < length (sv_tasks s)" and "sv_tasks s ! k = Relaying ss"
  shows "\<exists>t y v ss'. serve E (replicate n (Task k)) s =
      Some (Inr (Ret (), s\<lparr>sv_shared := y, sv_world := v, sv_tasks := (sv_tasks s)[k := t]\<rparr>)) \<and>
    t \<in> {Relaying ss', Served ss'} \<and> ss_client ss' = ss_client ss \<and> ss_target ss' = ss_target ss \<and>
    (t = Served ss' \<or>
      n \<le> 3 * (length (inp (ss_client ss) (sv_world s)) + length (inp (ss_target ss) (sv_world s)) + 2 +
        idle_selects E k (replicate n (Task k)) s) + 4)"
  using runs_on_or_due [OF assms, of n] unfolding runs_on_def turns_due_def by fastforce

theorem sessions_wait_only_for_their_peers_witness:
  "\<exists>s s' a b a'. serve sim_site [Listener, Listener, Task 0, Task 1, Task 0] (pass_start ()) = Some (Inr (Ret (), s)) \<and>
     sv_tasks s = [Relaying a, Relaying b] \<and> ss_next a = AtUpstream {9, 3} \<and>
     serve sim_site (replicate 20 (Task 0)) s = Some (Inr (Ret (), s')) \<and> sv_tasks s' = [Served a', Relaying b]"
proof -
  obtain s and a b :: "(unit, nat) session" where s:
    "serve sim_site [Listener, Listener, Task 0, Task 1, Task 0] (pass_start ()) = Some (Inr (Ret (), s))"
    "sv_tasks s = [Relaying a, Relaying b]" "ss_client a = 9" "ss_target a = 3" "ss_next a = AtUpstream {9, 3}"
    "k_in (sv_world s) = k_in two_clients"
    by (simp add: site_eval loop_turn_def session_turn_def SocketSelect_two fd_ok_def FD_SETSIZE_def)
  have rs: "relay_session (site_os sim_site) sim_in sim_out sim_fails True session_pass (ss_client a) (ss_target a)"
    unfolding s(3,4) by (rule pass_relays)
  have k: "0 < length (sv_tasks s)" "sv_tasks s ! 0 = Relaying a" using s(2) by simp_all
  have "length (sim_in 9 (sv_world s)) = 3" "length (sim_in 3 (sv_world s)) = 0"
    by (simp_all add: sim_in_def s(6) two_clients_def)
  with sessions_wait_only_for_their_peers [OF sim_paced.selecting_streams_axioms rs pass_handler
      s(1) [unfolded pass_start_def] k, of 20]
  obtain y v a' where "serve sim_site (replicate 20 (Task 0)) s =
      Some (Inr (Ret (), s\<lparr>sv_shared := y, sv_world := v, sv_tasks := [Served a', Relaying b]\<rparr>))" (is "_ = Some (Inr (Ret (), ?s))")
    unfolding s(3,4) sim_site_never_idle by (auto simp: s(2) simp del: replicate.simps serve_simps)
  moreover have "sv_tasks ?s = [Served a', Relaying b]" by simp
  ultimately show ?thesis using s(1,2,5) by blast
qed

text \<open>C10: Every session that gets turns ends, unless it waits for its peers. If the handler answers the empty
  string without an exception, then under every schedule that stays within defined behaviour each turn of
  a session either goes towards an exchange or follows a \<open>select\<close> that reported nothing: a session that
  has been given more than three turns for every byte that was to come on its two streams, for two empty
  strings, and for every idle \<open>select\<close> of its own, and four more, has ended. The other sessions cannot
  delay it, however many turns they take. (\<open>recv\<close> is assumed to fail only finitely often on a descriptor,
  and the calls on one descriptor to leave the streams of the others alone.)
\<close>

theorem session_ends_unless_it_waits:
  assumes "selecting_streams E opened inp out fails" and "m_handler this = Some ph"
    and "serve E ts (started this x h w) = Some (Inr (Ret (), s))" and "serve E us s = Some (Inr (Ret (), s'))"
    and "k < length (sv_tasks s)" and "sv_tasks s ! k = Relaying ss"
    and "\<And>d x e. fst (handle_of ph d [] 0 x) \<noteq> Throw e"
    and "3 * (length (inp (ss_client ss) (sv_world s)) + length (inp (ss_target ss) (sv_world s)) + 2 +
      idle_selects E k us s) + 4 < count_list us (Task k)"
  shows "\<exists>ss'. sv_tasks s' ! k = Served ss'"
  using ended_or_due [OF assms(1-7)] assms(8) by (auto simp: turns_due_def)

theorem session_ends_unless_it_waits_witness:
  "\<exists>s n s' a. serve sim_site [Listener, Listener, Task 0, Task 1] (pass_start ()) = Some (Inr (Ret (), s)) \<and>
     serve sim_site (replicate n (Task 0)) s = Some (Inr (Ret (), s')) \<and> 19 < n \<and> sv_tasks s' ! 0 = Served a"
proof -
  obtain s and a b :: "(unit, nat) session" where s:
    "serve sim_site [Listener, Listener, Task 0, Task 1] (pass_start ()) = Some (Inr (Ret (), s))"
    "sv_tasks s = [Relaying a, Relaying b]" "ss_client a = 9" "ss_target a = 3"
    "ss_handler a = session_pass" "ss_next a = AtSelect" "k_in (sv_world s) = k_in two_clients"
    using two_sessions [of "()"] by (metis prod.inject)
  obtain n s' a' where s': "serve sim_site (replicate n (Task 0)) s = Some (Inr (Ret (), s'))"
    "sv_tasks s' = [Served a', Relaying b]" using first_session_ends [OF s(1-4)] by blast
  have "serve sim_site (replicate m (Task 0)) s' = Some (Inr (Ret (), s'))" for m
    using s'(2) by (induction m) (simp_all add: task_turn_def)
  then have n: "serve sim_site (replicate (n + 20) (Task 0)) s = Some (Inr (Ret (), s'))"
    using s'(1) by (simp add: replicate_add serve_append del: replicate.simps serve_simps)
  have ph: "m_handler (pass_proxy :: (unit, unit \<times> nat, unit, nat) CProxySocket) = Some session_pass"
    by (simp add: pass_proxy_def)
  have i: "length (sim_in 9 (sv_world s)) = 3" "length (sim_in 3 (sv_world s)) = 0"
    by (simp_all add: sim_in_def s(7) two_clients_def)
  have e: "fst (handle_of session_pass d [] 0 y) \<noteq> Throw e" for d e and y :: "unit \<times> nat"
    by (simp add: handle_session_pass pass_counting_def)
  have k: "0 < length (sv_tasks s)" "sv_tasks s ! 0 = Relaying a" using s(2) by simp_all
  have c: "count_list (replicate m (Task 0)) (Task 0) = m" for m by (induction m) simp_all
  have "3 * (length (sim_in (ss_client a) (sv_world s)) + length (sim_in (ss_target a) (sv_world s)) + 2 +
      idle_selects sim_site 0 (replicate (n + 20) (Task 0)) s) + 4 < count_list (replicate (n + 20) (Task 0)) (Task 0)"
    unfolding i s(3,4) sim_site_never_idle c by simp
  from session_ends_unless_it_waits [OF sim_paced.selecting_streams_axioms ph s(1) [unfolded pass_start_def] n k e this]
  obtain ss' where "sv_tasks s' ! 0 = Served ss'" by blast
  moreover have "19 < n + 20" by simp
  ultimately show ?thesis using s(1) n by blast
qed

section \<open>The shared load balancer and the order of tasks\<close>

text \<open>The load balancer is asked exactly once for every task that has begun, whatever the schedule and
  whether or not the connection to the target succeeded: its state is the one it was started with after
  that many requests, one after the other.
\<close>

theorem balancer_is_asked_once_per_task:
  assumes "serve E ts (started this x h w) = Some (Inr (r, s))" and "m_handler this \<noteq> None"
    and "loadBalancer this = Ptr lb"
  shows "loadBalancer (sv_proxy s) =
    Ptr (((\<lambda>l. snd (requestServer (site_balancer E) l)) ^^ length (filter begun (sv_tasks s))) lb)"
  using run_asked [OF assms] by (simp add: asked_def requests_def)

theorem balancer_is_asked_once_per_task_witness:
  "\<exists>s. serve sim_site [Listener, Listener, Task 0, Task 1] (pass_start ()) = Some (Inr (Ret (), s)) \<and>
     loadBalancer (sv_proxy s) = Ptr (((\<lambda>l. snd (requestServer counting_balancer l)) ^^ 2) 0)"
proof -
  obtain s and a b :: "(unit, nat) session" where s:
    "serve sim_site [Listener, Listener, Task 0, Task 1] (pass_start ()) = Some (Inr (Ret (), s))"
    "sv_tasks s = [Relaying a, Relaying b]"
    using two_sessions [of "()"] by metis
  have "site_balancer sim_site = counting_balancer" by (simp add: sim_site_def)
  with balancer_is_asked_once_per_task [OF s(1) [unfolded pass_start_def], of 0] s show ?thesis
    by (simp add: pass_proxy_def numeral_2_eq_2)
qed

text \<open>C15: The schedules include the sequential ones. A task that gets the turns alone does what the task of
  the thread pool does when it runs by itself: after finitely many turns it has the same fault, or the
  proxy object, the handler's state, the session's context, the heap and the system are those that
  \<open>ClientThreadProc\<close> leaves, the task has ended, and the other tasks are as before.
\<close>

theorem lone_task_is_the_thread_routine:
  assumes "k < length (sv_tasks s)" and "sv_tasks s ! k = Pushed d"
    and "ClientThreadProc (Proxy_ThreadHandler (site_os E) (site_resolver E) (site_helper E) (site_balancer E)) d
      (sv_proxy s, (sv_shared s, site_context E), sv_heap s, sv_world s) = Some q"
  shows "case q of
      Inl e \<Rightarrow> \<exists>n. serve E (replicate n (Task k)) s = Some (Inl e)
    | Inr (this, (x, c), h, w) \<Rightarrow> \<exists>n t. task_ended d c t \<and> serve E (replicate n (Task k)) s =
        Some (Inr (Ret (), s\<lparr>sv_proxy := this, sv_shared := x, sv_heap := h, sv_world := w,
          sv_tasks := (sv_tasks s)[k := t]\<rparr>))"
  using handler_in_turns [OF assms] unfolding in_turns_def .

theorem lone_task_is_the_thread_routine_witness:
  "\<exists>n s. serve sim_site (replicate n (Task 0)) ((pass_start ())\<lparr>sv_tasks := [Pushed sample_data], sv_world := sample_world\<rparr>) =
      Some (Inr (Ret (), s)) \<and> (\<exists>t. sv_tasks s = [t] \<and> begun t)"
proof -
  let ?s = "(pass_start ())\<lparr>sv_tasks := [Pushed sample_data], sv_world := sample_world\<rparr>"
  obtain target h' w1 where c: "connect_target sim_full sim_hostent counting_balancer (Ptr 0) empty_heap sample_world =
     Inr (Ret target, Ptr 1, h', w1)" "sock_fd target = 3"
    using sample_connect by blast
  obtain y where "pump (proxy_round sim_full session_pass 9 3) (((), 0), w1) = Some (Inr y)"
    using sim_pass.busy_session sim_never_idle sim_pass.distinct by blast
  moreover obtain u n w' where "y = ((u, n), w')" by (metis prod.exhaust)
  ultimately have run: "ClientThreadProc (Proxy_ThreadHandler (site_os sim_site) (site_resolver sim_site)
      (site_helper sim_site) (site_balancer sim_site)) sample_data
      (sv_proxy ?s, (sv_shared ?s, site_context sim_site), sv_heap ?s, sv_world ?s) =
      Some (Inr (pass_proxy\<lparr>loadBalancer := Ptr 1\<rparr>, (u, n), h', w'))"
    using c by (simp add: ClientThreadProc_def Proxy_ThreadHandler_def GetHandler_def deref_def set_options_def
        no_options_def pass_start_def started_def pass_proxy_def sim_site_def sample_data_def sample_client_def)
  have k: "0 < length (sv_tasks ?s)" "sv_tasks ?s ! 0 = Pushed sample_data" by simp_all
  from lone_task_is_the_thread_routine [OF k run] obtain m t where t: "task_ended sample_data n t"
    "serve sim_site (replicate m (Task 0)) ?s = Some (Inr (Ret (), ?s\<lparr>sv_proxy := pass_proxy\<lparr>loadBalancer := Ptr 1\<rparr>,
       sv_shared := u, sv_heap := h', sv_world := w', sv_tasks := (sv_tasks ?s)[0 := t]\<rparr>))" (is "_ = Some (Inr (Ret (), ?r))")
    unfolding sum.case prod.case by blast
  have "sv_tasks ?r = [t]" by simp
  moreover have "begun t" using t(1) by (cases t) (simp_all add: task_ended_def)
  ultimately show ?thesis using t(2) by blast
qed

end
