(* ===== verification/Protocol.thy ===== *)
theory Protocol
  imports Proxy
begin

text \<open>
  Servers that answer a protocol themselves: \<open>CProtocolSocket\<close> (\<open>interface/CProtocolSocket.h\<close>, \<open>.cpp\<close>),
  the canned answer of \<open>BaseProtocolHandler\<close> and the registry of \<open>CHttpProtocolHandler\<close>
  (\<open>protocol-handlers/\<close>).
\<close>

section \<open>The protocol server\<close>

type_synonym 'x answering = "bytes \<Rightarrow> u64 \<Rightarrow> 'x \<Rightarrow> bytes outcome \<times> 'x"

record ('p, 'x) CProtocolSocket = "'p thread_function CServerSocket" +
  proto_handler :: "'x answering option"
  proto_routine :: "'p thread_function"

definition Protocol_new ::
    "'w os \<Rightarrow> int \<Rightarrow> int \<Rightarrow> heap \<Rightarrow> 'w \<Rightarrow>
     fault + (('p, 'x) CProtocolSocket outcome \<times> heap \<times> 'w)" where
  "Protocol_new os limit port h w =
     fbind (Server_new os port limit BlockingSocket h w) (\<lambda>(r, h, w).
       case r of Throw e \<Rightarrow> Inr (Throw e, h, w)
       | Ret server \<Rightarrow> Inr (Ret (CServerSocket.extend server (CProtocolSocket.fields None BuiltIn)), h, w))"

definition Protocol_SetHandler ::
    "'x answering option \<Rightarrow> ('p, 'x) CProtocolSocket \<Rightarrow> bool \<times> ('p, 'x) CProtocolSocket" where
  "Protocol_SetHandler handler this = (handler \<noteq> None, this\<lparr>proto_handler := handler\<rparr>)"

definition Protocol_SetPipeline ::
    "'p option \<Rightarrow> ('p, 'x) CProtocolSocket \<Rightarrow> bool \<times> ('p, 'x) CProtocolSocket" where
  "Protocol_SetPipeline test_func this =
     (case test_func of None \<Rightarrow> (False, this)
      | Some f \<Rightarrow> (True, this\<lparr>proto_routine := Pipeline f\<rparr>))"

definition Protocol_Start ::
    "'w os \<Rightarrow> ('p, 'x) CProtocolSocket \<Rightarrow> 'w \<Rightarrow>
     fault + (bool outcome \<times> ('p, 'x) CProtocolSocket \<times> 'w)" where
  "Protocol_Start os this w = Server_Open os ''<str>'' (proto_routine this) this w"

text \<open>
  A \<open>std::string\<close> made of a pointer into an array ends at the first NUL; without one the constructor
  reads beyond the array.
\<close>

definition string_of_array :: "bytes \<Rightarrow> fault + bytes" where
  "string_of_array buf = (if 0 \<in> set buf then Inr (c_prefix buf) else Inl OutOfBounds)"

definition PROTOCOL_BUFFER :: nat where "PROTOCOL_BUFFER = 32000"

text \<open>
  One round of \<open>CProtocolSocket::ThreadHandler\<close>. The handler is given the buffer as a string, and the
  number of bytes read. Its exceptions leave the function; the first component of the state is how
  the function was left.
\<close>

definition protocol_round ::
    "'w os \<Rightarrow> 'w helper \<Rightarrow> 'x answering \<Rightarrow> int \<Rightarrow> Socket slot \<Rightarrow> unit outcome \<times> 'x \<times> 'w \<Rightarrow>
     (fault + (bool \<times> unit outcome \<times> 'x \<times> 'w)) option" where
  "protocol_round os hp handler port client_socket = (\<lambda>(_, x, w).
     case ReadSocketBuffer hp port PROTOCOL_BUFFER w of (got, w) \<Rightarrow>
       case got of None \<Rightarrow> Some (Inr (False, Ret (), x, w))
       | Some bs \<Rightarrow>
         (case string_of_array (bs @ replicate (PROTOCOL_BUFFER - length bs) 0) of
            Inl e \<Rightarrow> Some (Inl e)
          | Inr request \<Rightarrow>
            (case handler request (word_of_nat (length bs)) x of (r, x) \<Rightarrow>
               case r of Throw e \<Rightarrow> Some (Inr (False, Throw e, x, w))
               | Ret response \<Rightarrow>
                   Some (fbind (deref client_socket) (\<lambda>client.
                         fbind (SendBytes os (sock_fd client) response
                                  (sint (word_of_nat (length response) :: u32)) w) (\<lambda>w.
                     Inr (True, Ret (), x, w)))))))"

definition Protocol_ThreadHandler ::
    "'w os \<Rightarrow> 'w helper \<Rightarrow> (('p, 'x) CProtocolSocket \<times> 'x \<times> 'w) routine" where
  "Protocol_ThreadHandler os hp clientData = (\<lambda>(this, x, w).
     case proto_handler this of None \<Rightarrow> Some (Inr (Ret (), this, x, w))
     | Some handler \<Rightarrow>
       (case client_port clientData of None \<Rightarrow> Some (Inl Uninitialised)
        | Some port \<Rightarrow>
          map_option (\<lambda>q. fbind q (\<lambda>(r, x, w). Inr (r, this, x, w)))
            (pump (protocol_round os hp handler port (cd_client_socket clientData)) (Ret (), x, w))))"

section \<open>The answers of the base handler\<close>

definition ascii :: "string \<Rightarrow> bytes" where
  "ascii s = map (of_char :: char \<Rightarrow> u8) s"

definition CRLF :: string where "CRLF = [CHR 0x0D, CHR 0x0A]"

definition canned_response :: bytes where
  "canned_response = ascii (''HTTP/1.1 200 OK'' @ CRLF @ ''Content-Type: text/plain'' @ CRLF @
     ''Content-Length: 12'' @ CRLF @ CRLF @ ''Hello World!'')"

text \<open>
  The response is copied, without its terminating NUL, into an allocated block of exactly its length,
  and returned as the string that starts there.
\<close>

definition Base_HandleData :: "bytes \<Rightarrow> u64 \<Rightarrow> 'x \<Rightarrow> fault + (bytes \<times> 'x)" where
  "Base_HandleData request_string buffer_length x =
     (let response_length = length (c_prefix canned_response);
          block = take response_length canned_response
      in fbind (string_of_array block) (\<lambda>s. Inr (s, x)))"

section \<open>The registry of HTTP request handlers\<close>

definition map_insert :: "'k \<Rightarrow> 'v \<Rightarrow> ('k \<rightharpoonup> 'v) \<Rightarrow> ('k \<rightharpoonup> 'v)" where
  "map_insert k v mp = (case mp k of None \<Rightarrow> mp(k \<mapsto> v) | Some _ \<Rightarrow> mp)"

type_synonym ('uri, 'm, 'h) registry = "'uri \<rightharpoonup> 'm \<rightharpoonup> 'h"

definition register_uri ::
    "'uri \<Rightarrow> 'm \<Rightarrow> 'h \<Rightarrow> ('uri, 'm, 'h) registry \<Rightarrow> ('uri, 'm, 'h) registry" where
  "register_uri uri meth callback handlers =
     (let inner = (case handlers uri of None \<Rightarrow> Map.empty | Some inner \<Rightarrow> inner)
      in handlers(uri \<mapsto> map_insert meth callback inner))"

definition register_path ::
    "(string \<Rightarrow> 'uri) \<Rightarrow> string \<Rightarrow> 'm \<Rightarrow> 'h \<Rightarrow> ('uri, 'm, 'h) registry \<Rightarrow> ('uri, 'm, 'h) registry" where
  "register_path uri_of path meth callback handlers = register_uri (uri_of path) meth callback handlers"

section \<open>The reference of a protocol session\<close>

text \<open>
  What a session should answer to a sequence of chunks: one reply per chunk, to its text up to the
  first NUL, until the handler throws.
\<close>

fun replies :: "'x answering \<Rightarrow> bytes list \<Rightarrow> 'x \<Rightarrow> unit outcome \<times> bytes list \<times> 'x" where
  "replies handler [] x = (Ret (), [], x)"
| "replies handler (b # bs) x =
     (case handler (c_prefix b) (word_of_nat (length b)) x of (r, x) \<Rightarrow>
        case r of Throw e \<Rightarrow> (Throw e, [], x)
        | Ret response \<Rightarrow> (case replies handler bs x of (q, rs, x) \<Rightarrow> (q, response # rs, x)))"

definition short_answers :: "'x answering \<Rightarrow> bool" where
  "short_answers handler \<longleftrightarrow> (\<forall>req n x ans x'. handler req n x = (Ret ans, x') \<longrightarrow> length ans < 2 ^ 31)"

lemma string_of_chunk:
  assumes "length b < n" shows "string_of_array (b @ replicate (n - length b) 0) = Inr (c_prefix b)"
proof -
  have "takeWhile (\<lambda>c. c \<noteq> 0) (b @ replicate (n - length b) 0) = takeWhile (\<lambda>c. c \<noteq> (0::u8)) b"
    using assms by (cases "n - length b") (simp_all add: takeWhile_tail)
  with assms show ?thesis by (simp add: string_of_array_def c_prefix_def)
qed

text \<open>
  \<open>chunks s w\<close> are the chunks that \<open>ReadSocketBuffer\<close> will deliver on \<open>s\<close>; when there are none left
  it answers \<open>false\<close>. If \<open>complete\<close>, the kernel always accepts the whole of what is sent.
\<close>

locale protocol_env = posix +
  fixes complete :: bool and hp :: "'a helper" and chunks :: "int \<Rightarrow> 'a \<Rightarrow> bytes list"
  assumes read_chunk: "ReadSocketBuffer hp s n w = (got, w') \<Longrightarrow>
      got = (case chunks s w of [] \<Rightarrow> None | b # _ \<Rightarrow> Some b) \<and> chunks s w' = tl (chunks s w) \<and>
      sent t w' = sent t w"
    and send_complete: "complete \<Longrightarrow> os_send os t bs w = (r, w') \<Longrightarrow> r = int (length bs)"
    and send_keeps_chunks: "os_send os t bs w = (r, w') \<Longrightarrow> chunks s w' = chunks s w"
begin

lemma session_replies:
  assumes "short_answers handler"
    and "\<forall>b \<in> set (chunks port w). length b < PROTOCOL_BUFFER"
    and "replies handler (chunks port w) x = (q, rs, x')"
  shows "\<exists>w' puts. pump (protocol_round os hp handler port (Ptr c)) (r0, x, w) = Some (Inr (q, x', w')) \<and>
    sent (sock_fd c) w' = sent (sock_fd c) w @ concat puts \<and> list_all2 (\<lambda>p r. p = take (length p) r) puts rs \<and>
    (complete \<longrightarrow> puts = rs)"
  using assms(2,3)
proof (induction "chunks port w" arbitrary: r0 x w q rs)
  case Nil
  obtain got w1 where g: "ReadSocketBuffer hp port PROTOCOL_BUFFER w = (got, w1)" by fastforce
  from read_chunk [OF g] Nil(1)[symmetric] have "got = None" "sent (sock_fd c) w1 = sent (sock_fd c) w" by auto
  then have "protocol_round os hp handler port (Ptr c) (r0, x, w) = Some (Inr (False, Ret (), x, w1))"
    using g by (simp add: protocol_round_def)
  from pump_step [of "protocol_round os hp handler port (Ptr c)", OF this] \<open>sent (sock_fd c) w1 = _\<close> Nil show ?case
    by (auto intro!: exI [of _ "[]"])
next
  case (Cons b bs)
  note ch = Cons.hyps(2) [symmetric]
  obtain got w1 where g: "ReadSocketBuffer hp port PROTOCOL_BUFFER w = (got, w1)" by fastforce
  have w1: "got = Some b" "chunks port w1 = bs" "sent (sock_fd c) w1 = sent (sock_fd c) w"
    using read_chunk [OF g] ch by auto
  have len: "length b < PROTOCOL_BUFFER" using Cons.prems(1) ch by simp
  obtain r x1 where h: "handler (c_prefix b) (word_of_nat (length b)) x = (r, x1)" by fastforce
  show ?case
  proof (cases r)
    case (Throw e)
    then have "protocol_round os hp handler port (Ptr c) (r0, x, w) = Some (Inr (False, Throw e, x1, w1))"
      using g w1(1) h string_of_chunk [OF len] by (simp add: protocol_round_def)
    from pump_step [of "protocol_round os hp handler port (Ptr c)", OF this] show ?thesis
      using Cons.prems(2) ch h Throw w1(3) by (auto intro!: exI [of _ "[]"])
  next
    case (Ret ans)
    obtain k w2 where k: "os_send os (sock_fd c) ans w1 = (k, w2)" by fastforce
    have s2: "sent (sock_fd c) w2 = sent (sock_fd c) w1 @ take (nat k) ans" "chunks port w2 = bs"
      using send_accepts [OF k] send_keeps_chunks [OF k] w1(2) by auto
    have "length ans < 2 ^ 31" using assms(1) h Ret unfolding short_answers_def by blast
    from sint_of_nat_32 [OF this] have "protocol_round os hp handler port (Ptr c) (r0, x, w) = Some (Inr (True, Ret (), x1, w2))"
      using g w1(1) h string_of_chunk [OF len] Ret k by (simp add: protocol_round_def SendBytes_def deref_def)
    note step = pump_step [of "protocol_round os hp handler port (Ptr c)", OF this]
    obtain rs1 where rs: "replies handler bs x1 = (q, rs1, x')" "rs = ans # rs1"
      using Cons.prems(2) ch h Ret by (auto split: prod.splits)
    have "\<forall>b \<in> set (chunks port w2). length b < PROTOCOL_BUFFER" using Cons.prems(1) ch s2(2) by auto
    from Cons.hyps(1) [of w2, OF s2(2) [symmetric] this] rs(1) s2(2) obtain w' puts where
      "pump (protocol_round os hp handler port (Ptr c)) (Ret (), x1, w2) = Some (Inr (q, x', w'))"
      "sent (sock_fd c) w' = sent (sock_fd c) w2 @ concat puts" "list_all2 (\<lambda>p r. p = take (length p) r) puts rs1"
      "complete \<longrightarrow> puts = rs1" by blast
    moreover have "complete \<longrightarrow> take (nat k) ans = ans" using send_complete [OF _ k] by auto
    ultimately show ?thesis
      using step s2(1) w1(3) rs(2)
      by (intro exI [of _ w'] exI [of _ "take (nat k) ans # puts"]) (simp add: min_def)
  qed
qed

end

text \<open>The concrete system: \<open>ReadSocketBuffer\<close> delivers one segment at a time.\<close>

definition segments :: "kernel helper" where
  "segments = no_options\<lparr>ReadSocketBuffer := (\<lambda>s n w. case k_in w s of [] \<Rightarrow> (None, w)
     | b # bs \<Rightarrow> (Some b, w\<lparr>k_in := (k_in w)(s := bs)\<rparr>))\<rparr>"

interpretation sim_full: protocol_env sim_full sim_in sim_out True segments "\<lambda>s w. k_in w s"
  by unfold_locales (auto simp: segments_def sim_full_def sim_out_def log_def split: list.splits)

end
