(* ===== verification/Protocol_Sessions.thy ===== *)
theory Protocol_Sessions
  imports Protocol Schedule
begin

text \<open>
  A protocol server at work: the listener of \<open>socket/CServerSocket.cpp\<close> and the tasks of the accepted
  connections (\<open>CProtocolSocket::ThreadHandler\<close>), interleaved. The tasks share the server object, the
  state of the handler and the system; the \<open>EXECUTION_CONTEXT\<close> and the buffer are local variables of each.
  A turn of a task is the part of \<open>ThreadHandler\<close> before its loop, or one round of the loop.
\<close>

section \<open>Tasks\<close>

record ('h, 'c) protocol_session =
  ps_handler :: "('h \<times> 'c) answering"
  ps_port :: int
  ps_client :: "Socket slot"
  ps_context :: 'c

text \<open>A task that was pushed, answers, has left its loop, or found no handler.\<close>

datatype ('h, 'c) protocol_task =
    Waiting CLIENT_DATA
  | Answering "('h, 'c) protocol_session"
  | Left "unit outcome" "('h, 'c) protocol_session"
  | Unanswered CLIENT_DATA

definition protocol_start ::
    "'c \<Rightarrow> CLIENT_DATA \<Rightarrow> ('p, 'h \<times> 'c) CProtocolSocket \<Rightarrow> fault + ('h, 'c) protocol_task" where
  "protocol_start ctx clientData this =
     (case proto_handler this of None \<Rightarrow> Inr (Unanswered clientData)
      | Some handler \<Rightarrow>
          (case client_port clientData of None \<Rightarrow> Inl Uninitialised
           | Some port \<Rightarrow> Inr (Answering \<lparr>ps_handler = handler, ps_port = port,
               ps_client = cd_client_socket clientData, ps_context = ctx\<rparr>)))"

text \<open>One round; an exception of the handler leaves the task, and \<open>ClientThreadProc\<close> catches it.\<close>

definition protocol_loop_turn ::
    "'w os \<Rightarrow> 'w helper \<Rightarrow> ('h, 'c) protocol_session \<Rightarrow> 'h \<Rightarrow> 'w \<Rightarrow>
     (fault + (('h, 'c) protocol_task \<times> 'h \<times> 'w)) option" where
  "protocol_loop_turn os hp ps h w =
     map_option (\<lambda>q. fbind q (\<lambda>(goes_on, r, (h, c), w).
         let ps = ps\<lparr>ps_context := c\<rparr> in Inr (if goes_on then Answering ps else Left r ps, h, w)))
       (protocol_round os hp (ps_handler ps) (ps_port ps) (ps_client ps) (Ret (), (h, ps_context ps), w))"

section \<open>The server at work\<close>

record ('c, 'w) protocol_site =
  pt_os :: "'w os"
  pt_helper :: "'w helper"
  pt_ip :: "sockaddr_in \<Rightarrow> string"
  pt_info :: NODE_INFO
  pt_context :: 'c

record ('p, 'h, 'c, 'w) protocol_serving =
  pv_server :: "('p, 'h \<times> 'c) CProtocolSocket"
  pv_tasks :: "('h, 'c) protocol_task list"
  pv_shared :: 'h
  pv_heap :: heap
  pv_world :: 'w

definition protocol_task_turn ::
    "('c, 'w) protocol_site \<Rightarrow> nat \<Rightarrow> ('p, 'h, 'c, 'w) protocol_serving \<Rightarrow>
     (fault + ('p, 'h, 'c, 'w) protocol_serving) option" where
  "protocol_task_turn E k s =
     (if length (pv_tasks s) \<le> k then Some (Inr s)
      else case pv_tasks s ! k of
        Waiting d \<Rightarrow>
          Some (fbind (protocol_start (pt_context E) d (pv_server s)) (\<lambda>t.
            Inr (s\<lparr>pv_tasks := (pv_tasks s)[k := t]\<rparr>)))
      | Answering ps \<Rightarrow>
          map_option (\<lambda>q. fbind q (\<lambda>(t, h, w).
              Inr (s\<lparr>pv_tasks := (pv_tasks s)[k := t], pv_shared := h, pv_world := w\<rparr>)))
            (protocol_loop_turn (pt_os E) (pt_helper E) ps (pv_shared s) (pv_world s))
      | Left r ps \<Rightarrow> Some (Inr s)
      | Unanswered d \<Rightarrow> Some (Inr s))"

fun protocol_turn ::
    "('c, 'w) protocol_site \<Rightarrow> turn \<Rightarrow> ('p, 'h, 'c, 'w) protocol_serving \<Rightarrow>
     (fault + (unit outcome \<times> ('p, 'h, 'c, 'w) protocol_serving)) option" where
  "protocol_turn E Listener s =
     Some (fbind (listen_round (pt_os E) (pt_ip E) (pt_info E) (pv_server s) (pv_heap s) (pv_world s)) (\<lambda>(r, h, w).
       let s = s\<lparr>pv_heap := h, pv_world := w\<rparr> in
       case r of Throw e \<Rightarrow> Inr (Throw e, s)
       | Ret d \<Rightarrow> Inr (Ret (), s\<lparr>pv_tasks := pv_tasks s @ [Waiting d]\<rparr>)))"
| "protocol_turn E (Task k) s = map_option (\<lambda>q. fbind q (\<lambda>s. Inr (Ret (), s))) (protocol_task_turn E k s)"

definition answer_all ::
    "('c, 'w) protocol_site \<Rightarrow> turn list \<Rightarrow> ('p, 'h, 'c, 'w) protocol_serving \<Rightarrow>
     (fault + (unit outcome \<times> ('p, 'h, 'c, 'w) protocol_serving)) option" where
  "answer_all E = run_turns (protocol_turn E)"

definition protocol_started ::
    "('p, 'h \<times> 'c) CProtocolSocket \<Rightarrow> 'h \<Rightarrow> heap \<Rightarrow> 'w \<Rightarrow> ('p, 'h, 'c, 'w) protocol_serving" where
  "protocol_started this x h w = \<lparr>pv_server = this, pv_tasks = [], pv_shared = x, pv_heap = h, pv_world = w\<rparr>"

lemmas answer_all_relates = run_turns_relates [of "protocol_turn E" for E, folded answer_all_def]
lemmas answer_all_invariant = run_turns_invariant [of "protocol_turn E" for E, folded answer_all_def]

text \<open>The turns that neither fault nor hang.\<close>

lemma protocol_turn_cases [consumes 1, case_names listen idle start loop]:
  assumes "protocol_turn E t s = Some (Inr (r, s'))"
  obtains q h w where "t = Listener"
      "listen_round (pt_os E) (pt_ip E) (pt_info E) (pv_server s) (pv_heap s) (pv_world s) = Inr (q, h, w)"
      "case q of Throw e \<Rightarrow> r = Throw e \<and> s' = s\<lparr>pv_heap := h, pv_world := w\<rparr>
       | Ret d \<Rightarrow> r = Ret () \<and> s' = s\<lparr>pv_heap := h, pv_world := w, pv_tasks := pv_tasks s @ [Waiting d]\<rparr>"
  | "r = Ret ()" "s' = s"
  | k d t where "k < length (pv_tasks s)" "pv_tasks s ! k = Waiting d" "r = Ret ()"
      "protocol_start (pt_context E) d (pv_server s) = Inr t" "s' = s\<lparr>pv_tasks := (pv_tasks s)[k := t]\<rparr>"
  | k ps t h w where "k < length (pv_tasks s)" "pv_tasks s ! k = Answering ps" "r = Ret ()"
      "protocol_loop_turn (pt_os E) (pt_helper E) ps (pv_shared s) (pv_world s) = Some (Inr (t, h, w))"
      "s' = s\<lparr>pv_tasks := (pv_tasks s)[k := t], pv_shared := h, pv_world := w\<rparr>"
proof (cases t)
  case Listener
  with assms obtain q h w where
    "listen_round (pt_os E) (pt_ip E) (pt_info E) (pv_server s) (pv_heap s) (pv_world s) = Inr (q, h, w)"
    by (auto simp: fbind_eq_Inr_iff)
  with Listener assms that(1) show thesis by (cases q) simp_all
next
  case (Task k)
  then obtain q where q: "protocol_task_turn E k s = Some (Inr q)" "r = Ret ()" "s' = q"
    using assms by (auto simp: fbind_eq_Inr_iff)
  show thesis
  proof (cases "length (pv_tasks s) \<le> k")
    case True
    then show thesis using q that(2) by (simp add: protocol_task_turn_def)
  next
    case False
    show thesis
    proof (cases "pv_tasks s ! k")
      case (Waiting d)
      with False q(1) obtain t' where "protocol_start (pt_context E) d (pv_server s) = Inr t'"
        "q = s\<lparr>pv_tasks := (pv_tasks s)[k := t']\<rparr>"
        by (auto simp: protocol_task_turn_def fbind_eq_Inr_iff)
      with False q(2,3) Waiting that(3) [of k d t'] show thesis by simp
    next
      case (Answering ps)
      with False q(1) obtain t' h w where
        "protocol_loop_turn (pt_os E) (pt_helper E) ps (pv_shared s) (pv_world s) = Some (Inr (t', h, w))"
        "q = s\<lparr>pv_tasks := (pv_tasks s)[k := t'], pv_shared := h, pv_world := w\<rparr>"
        by (auto simp: protocol_task_turn_def fbind_eq_Inr_iff)
      with False q(2,3) Answering that(4) [of k ps t' h w] show thesis by simp
    qed (use False q that(2) in \<open>simp_all add: protocol_task_turn_def\<close>)
  qed
qed

section \<open>A task that runs alone\<close>

definition protocol_left ::
    "nat \<Rightarrow> ('h, 'c) protocol_session \<Rightarrow> unit outcome \<Rightarrow> 'h \<times> 'c \<Rightarrow> 'w \<Rightarrow> ('p, 'h, 'c, 'w) protocol_serving \<Rightarrow>
     ('p, 'h, 'c, 'w) protocol_serving" where
  "protocol_left k ps r x w s = s\<lparr>pv_shared := fst x, pv_world := w,
     pv_tasks := (pv_tasks s)[k := Left r (ps\<lparr>ps_context := snd x\<rparr>)]\<rparr>"

lemma answer_all_task:
  "answer_all E (Task k # ts) s =
     Option.bind (protocol_task_turn E k s) (\<lambda>q. case q of Inl e \<Rightarrow> Some (Inl e) | Inr s \<Rightarrow> answer_all E ts s)"
  unfolding answer_all_def by (cases "protocol_task_turn E k s") (auto split: sum.split)

lemma answer_all_Nil: "answer_all E [] s = Some (Inr (Ret (), s))"
  by (simp add: answer_all_def)

lemma protocol_loop_in_turns:
  assumes "pump round x = Some q"
  shows "\<forall>(s :: ('p, 'h, 'c, 'w) protocol_serving) ps.
      round = protocol_round (pt_os E) (pt_helper E) (ps_handler ps) (ps_port ps) (ps_client ps) \<and>
      k < length (pv_tasks s) \<and> pv_tasks s ! k = Answering ps \<and>
      snd x = ((pv_shared s, ps_context ps), pv_world s) \<longrightarrow>
    (\<exists>n. answer_all E (replicate n (Task k)) s =
      Some (fbind q (\<lambda>(r, x, w). Inr (Ret (), protocol_left k ps r x w s))))"
  using assms
proof (induct rule: pump.raw_induct [rotated, consumes 1, case_names loop])
  case (loop self round x q)
  show ?case
  proof (intro allI impI, elim conjE)
    fix s :: "('p, 'h, 'c, 'w) protocol_serving" and ps
    assume rd: "round = protocol_round (pt_os E) (pt_helper E) (ps_handler ps) (ps_port ps) (ps_client ps)"
      and k: "k < length (pv_tasks s)" "pv_tasks s ! k = Answering ps"
      and x: "snd x = ((pv_shared s, ps_context ps), pv_world s)"
    obtain y where y: "round x = Some y" using loop(2) by (auto simp: bind_eq_Some_conv)
    have "round x = round (Ret (), (pv_shared s, ps_context ps), pv_world s)"
      using x by (cases x) (simp add: rd protocol_round_def)
    then have turn: "protocol_task_turn E k s = Some (fbind y (\<lambda>(b, r, (h, c), w).
        Inr (s\<lparr>pv_tasks := (pv_tasks s)[k := (if b then Answering (ps\<lparr>ps_context := c\<rparr>) else Left r (ps\<lparr>ps_context := c\<rparr>))],
          pv_shared := h, pv_world := w\<rparr>)))"
      using y k by (cases y) (auto simp: protocol_task_turn_def protocol_loop_turn_def rd Let_def split: prod.split)
    consider e where "y = Inl e" | r h c w where "y = Inr (False, r, (h, c), w)" | r h c w where "y = Inr (True, r, (h, c), w)"
      by (metis sum.exhaust prod.exhaust)
    then show "\<exists>n. answer_all E (replicate n (Task k)) s =
        Some (fbind q (\<lambda>(r, x, w). Inr (Ret (), protocol_left k ps r x w s)))"
    proof cases
      case 1
      then have "q = Inl e" using loop(2) y by simp
      with turn 1 show ?thesis by (intro exI [of _ 1]) (simp add: answer_all_task)
    next
      case 2
      then have "q = Inr (r, (h, c), w)" using loop(2) y by simp
      with turn 2 show ?thesis
        by (intro exI [of _ 1]) (simp add: answer_all_task answer_all_Nil protocol_left_def)
    next
      case 3
      let ?ps = "ps\<lparr>ps_context := c\<rparr>" and ?s = "s\<lparr>pv_tasks := (pv_tasks s)[k := Answering (ps\<lparr>ps_context := c\<rparr>)],
          pv_shared := h, pv_world := w\<rparr>"
      have "self round (r, (h, c), w) = Some q" using loop(2) y 3 by simp
      from loop(1) [OF this, rule_format, of ?ps ?s] obtain n where
        "answer_all E (replicate n (Task k)) ?s = Some (fbind q (\<lambda>(r, x, w). Inr (Ret (), protocol_left k ?ps r x w ?s)))"
        using k by (auto simp: rd)
      moreover have "protocol_left k ?ps r x w ?s = protocol_left k ps r x w s" for r x w
        using k(1) by (simp add: protocol_left_def)
      ultimately show ?thesis using turn 3 by (intro exI [of _ "Suc n"]) (simp add: answer_all_task)
    qed
  qed
qed

text \<open>A task that gets all the turns does what \<open>ThreadHandler\<close> does.\<close>

definition protocol_task_done :: "'c \<Rightarrow> unit outcome \<Rightarrow> ('h \<times> 'c) \<Rightarrow> ('h, 'c) protocol_task \<Rightarrow> bool" where
  "protocol_task_done c r x t \<longleftrightarrow> (case t of Unanswered d \<Rightarrow> r = Ret () \<and> snd x = c
     | Left r' ps \<Rightarrow> r' = r \<and> ps_context ps = snd x | _ \<Rightarrow> False)"

definition protocol_in_turns ::
    "('c, 'w) protocol_site \<Rightarrow> nat \<Rightarrow> ('p, 'h, 'c, 'w) protocol_serving \<Rightarrow>
     fault + (unit outcome \<times> ('p, 'h \<times> 'c) CProtocolSocket \<times> ('h \<times> 'c) \<times> 'w) \<Rightarrow> bool" where
  "protocol_in_turns E k s q \<longleftrightarrow> (case q of
      Inl e \<Rightarrow> \<exists>n. answer_all E (replicate n (Task k)) s = Some (Inl e)
    | Inr (r, this, x, w) \<Rightarrow> \<exists>n t. protocol_task_done (pt_context E) r x t \<and> answer_all E (replicate n (Task k)) s =
        Some (Inr (Ret (), s\<lparr>pv_server := this, pv_shared := fst x, pv_world := w, pv_tasks := (pv_tasks s)[k := t]\<rparr>)))"

lemma protocol_in_turns_fault:
  "answer_all E (replicate n (Task k)) s = Some (Inl e) \<Longrightarrow> protocol_in_turns E k s (Inl e)"
  unfolding protocol_in_turns_def sum.case by blast

lemma protocol_in_turns_done:
  "answer_all E (replicate n (Task k)) s = Some (Inr (Ret (), s\<lparr>pv_server := this, pv_shared := fst x, pv_world := w,
     pv_tasks := (pv_tasks s)[k := t]\<rparr>)) \<Longrightarrow> protocol_task_done (pt_context E) r x t \<Longrightarrow>
   protocol_in_turns E k s (Inr (r, this, x, w))"
  unfolding protocol_in_turns_def sum.case prod.case by blast

lemma protocol_answering_in_turns:
  assumes "k < length (pv_tasks s)"
    and "protocol_task_turn E k s = Some (Inr (s\<lparr>pv_tasks := (pv_tasks s)[k := Answering ps]\<rparr>))"
    and "pump (protocol_round (pt_os E) (pt_helper E) (ps_handler ps) (ps_port ps) (ps_client ps))
      (Ret (), (pv_shared s, ps_context ps), pv_world s) = Some p"
  shows "protocol_in_turns E k s (fbind p (\<lambda>(r, x, w). Inr (r, pv_server s, x, w)))"
proof -
  let ?s = "s\<lparr>pv_tasks := (pv_tasks s)[k := Answering ps]\<rparr>"
  from protocol_loop_in_turns [OF assms(3), of E k, rule_format, of ps ?s] assms(1) obtain n where
    "answer_all E (replicate n (Task k)) ?s = Some (fbind p (\<lambda>(r, x, w). Inr (Ret (), protocol_left k ps r x w ?s)))"
    by auto
  then have n: "answer_all E (replicate (Suc n) (Task k)) s =
      Some (fbind p (\<lambda>(r, x, w). Inr (Ret (), protocol_left k ps r x w ?s)))"
    using assms(2) by (simp add: answer_all_task)
  show ?thesis
  proof (cases p)
    case (Inl e)
    with n show ?thesis by (simp only: fbind_Inl protocol_in_turns_fault)
  next
    case (Inr v)
    obtain r x w where v: "v = (r, x, w)" by (metis prod.exhaust)
    let ?t = "Left r (ps\<lparr>ps_context := snd x\<rparr>)"
    have "answer_all E (replicate (Suc n) (Task k)) s = Some (Inr (Ret (), s\<lparr>pv_server := pv_server s, pv_shared := fst x,
        pv_world := w, pv_tasks := (pv_tasks s)[k := ?t]\<rparr>))"
      using n Inr v by (simp add: protocol_left_def del: replicate.simps)
    from protocol_in_turns_done [OF this, of r] show ?thesis using Inr v by (simp add: protocol_task_done_def)
  qed
qed

lemma protocol_handler_in_turns:
  assumes "k < length (pv_tasks s)" and "pv_tasks s ! k = Waiting d"
    and "Protocol_ThreadHandler (pt_os E) (pt_helper E) d (pv_server s, (pv_shared s, pt_context E), pv_world s) = Some q"
  shows "protocol_in_turns E k s q"
proof -
  have turn: "protocol_task_turn E k s =
      Some (fbind (protocol_start (pt_context E) d (pv_server s)) (\<lambda>t. Inr (s\<lparr>pv_tasks := (pv_tasks s)[k := t]\<rparr>)))"
    using assms(1,2) by (simp add: protocol_task_turn_def)
  consider "proto_handler (pv_server s) = None" | handler where "proto_handler (pv_server s) = Some handler" "client_port d = None"
    | handler port where "proto_handler (pv_server s) = Some handler" "client_port d = Some port" by fastforce
  then show ?thesis
  proof cases
    case 1
    then have "answer_all E (replicate 1 (Task k)) s = Some (Inr (Ret (), s\<lparr>pv_server := pv_server s,
        pv_shared := fst (pv_shared s, pt_context E), pv_world := pv_world s, pv_tasks := (pv_tasks s)[k := Unanswered d]\<rparr>))"
      using turn by (simp add: answer_all_task answer_all_Nil protocol_start_def)
    from protocol_in_turns_done [OF this, of "Ret ()"] show ?thesis
      using assms(3) 1 by (simp add: Protocol_ThreadHandler_def protocol_task_done_def)
  next
    case 2
    then have "answer_all E (replicate 1 (Task k)) s = Some (Inl Uninitialised)"
      using turn by (simp add: answer_all_task protocol_start_def)
    from protocol_in_turns_fault [OF this] show ?thesis using assms(3) 2 by (simp add: Protocol_ThreadHandler_def)
  next
    case 3
    let ?ps = "\<lparr>ps_handler = handler, ps_port = port, ps_client = cd_client_socket d, ps_context = pt_context E\<rparr>"
    obtain p where p: "pump (protocol_round (pt_os E) (pt_helper E) handler port (cd_client_socket d))
        (Ret (), (pv_shared s, pt_context E), pv_world s) = Some p"
      "q = fbind p (\<lambda>(r, x, w). Inr (r, pv_server s, x, w))"
      using assms(3) 3 by (auto simp: Protocol_ThreadHandler_def)
    show ?thesis
      unfolding p(2) by (rule protocol_answering_in_turns [OF assms(1), where ps = ?ps])
        (use turn 3 p(1) in \<open>simp_all add: protocol_start_def\<close>)
  qed
qed

end
