(* ===== verification/Protocol_Conversations.thy ===== *)
theory Protocol_Conversations
  imports Protocol_Sessions
begin

text \<open>
  What the sessions of a protocol server have answered, whatever the schedule: each converses on its own
  descriptor, and what it has sent there is what the reference answers to the chunks it has taken.
\<close>

section \<open>What a task has answered\<close>

fun port_of :: "('h, 'c) protocol_task \<Rightarrow> int option" where
  "port_of (Waiting d) = client_port d"
| "port_of (Answering ps) = Some (ps_port ps)"
| "port_of (Left r ps) = Some (ps_port ps)"
| "port_of (Unanswered d) = client_port d"

fun slot_of :: "('h, 'c) protocol_task \<Rightarrow> Socket slot" where
  "slot_of (Waiting d) = cd_client_socket d"
| "slot_of (Answering ps) = ps_client ps"
| "slot_of (Left r ps) = ps_client ps"
| "slot_of (Unanswered d) = cd_client_socket d"

fun context_of :: "'c \<Rightarrow> ('h, 'c) protocol_task \<Rightarrow> 'c" where
  "context_of c (Answering ps) = ps_context ps"
| "context_of c (Left r ps) = ps_context ps"
| "context_of c _ = c"

fun left_with :: "('h, 'c) protocol_task \<Rightarrow> unit outcome option" where
  "left_with (Left r ps) = Some r"
| "left_with _ = None"

fun answers_with :: "('h \<times> 'c) answering \<Rightarrow> ('h, 'c) protocol_task \<Rightarrow> bool" where
  "answers_with handler (Waiting d) = True"
| "answers_with handler (Answering ps) = (ps_handler ps = handler)"
| "answers_with handler (Left r ps) = (ps_handler ps = handler)"
| "answers_with handler (Unanswered d) = False"

lemma replies_append:
  "replies handler (a @ b) x = (case replies handler a x of (q, rs, x1) \<Rightarrow>
     (case q of Throw e \<Rightarrow> (Throw e, rs, x1)
      | Ret u \<Rightarrow> (case replies handler b x1 of (q2, rs2, x2) \<Rightarrow> (q2, rs @ rs2, x2))))"
  by (induction a arbitrary: x) (auto split: prod.splits outcome.splits)

text \<open>
  \<open>conversed\<close>: what happened on the descriptor of a task is what the reference answers to the chunks that
  were taken there. If \<open>complete\<close>, the answers were accepted as a whole.
\<close>

definition accepted :: "bool \<Rightarrow> bytes list \<Rightarrow> bytes list \<Rightarrow> bool" where
  "accepted complete puts rs \<longleftrightarrow> list_all2 (\<lambda>p r. p = take (length p) r) puts rs \<and> (complete \<longrightarrow> puts = rs)"

lemma accepted_append:
  "accepted complete puts rs \<Longrightarrow> accepted complete puts' rs' \<Longrightarrow> accepted complete (puts @ puts') (rs @ rs')"
  by (simp add: accepted_def list_all2_appendI)

definition talked ::
    "bool \<Rightarrow> (int \<Rightarrow> 'w \<Rightarrow> bytes list) \<Rightarrow> (int \<Rightarrow> 'w \<Rightarrow> bytes) \<Rightarrow> (unit \<times> 'c) answering \<Rightarrow> 'c \<Rightarrow> int \<Rightarrow>
     (unit, 'c) protocol_task \<Rightarrow> (unit, 'c) protocol_task \<Rightarrow> 'w \<Rightarrow> 'w \<Rightarrow> bool" where
  "talked complete chunks out handler c p t t' w w' \<longleftrightarrow> (\<exists>got puts rs q.
     chunks p w = got @ chunks p w' \<and> out p w' = out p w @ concat puts \<and> accepted complete puts rs \<and>
     (if left_with t \<noteq> None then t' = t \<and> got = [] \<and> rs = []
      else replies handler got ((), context_of c t) = (q, rs, ((), context_of c t')) \<and>
        (case left_with t' of None \<Rightarrow> q = Ret () | Some r \<Rightarrow> r = q \<and> (q = Ret () \<longrightarrow> chunks p w' = []))))"

lemma talkedI:
  assumes "chunks p w = got @ chunks p w'" and "out p w' = out p w @ concat puts" and "accepted complete puts rs"
    and "if left_with t \<noteq> None then t' = t \<and> got = [] \<and> rs = []
      else replies handler got ((), context_of c t) = (q, rs, ((), context_of c t')) \<and>
        (case left_with t' of None \<Rightarrow> q = Ret () | Some r \<Rightarrow> r = q \<and> (q = Ret () \<longrightarrow> chunks p w' = []))"
  shows "talked complete chunks out handler c p t t' w w'"
  unfolding talked_def using assms by blast

lemma talked_trans:
  assumes "talked complete chunks out handler c p t t1 w w1" and "talked complete chunks out handler c p t1 t2 w1 w2"
  shows "talked complete chunks out handler c p t t2 w w2"
proof -
  obtain got puts rs q where a: "chunks p w = got @ chunks p w1" "out p w1 = out p w @ concat puts" "accepted complete puts rs"
    "if left_with t \<noteq> None then t1 = t \<and> got = [] \<and> rs = []
     else replies handler got ((), context_of c t) = (q, rs, ((), context_of c t1)) \<and>
       (case left_with t1 of None \<Rightarrow> q = Ret () | Some r \<Rightarrow> r = q \<and> (q = Ret () \<longrightarrow> chunks p w1 = []))"
    using assms(1) unfolding talked_def by blast
  obtain got' puts' rs' q' where b: "chunks p w1 = got' @ chunks p w2" "out p w2 = out p w1 @ concat puts'"
    "accepted complete puts' rs'"
    "if left_with t1 \<noteq> None then t2 = t1 \<and> got' = [] \<and> rs' = []
     else replies handler got' ((), context_of c t1) = (q', rs', ((), context_of c t2)) \<and>
       (case left_with t2 of None \<Rightarrow> q' = Ret () | Some r \<Rightarrow> r = q' \<and> (q' = Ret () \<longrightarrow> chunks p w2 = []))"
    using assms(2) unfolding talked_def by blast
  show ?thesis
  proof (rule talkedI [where got = "got @ got'" and puts = "puts @ puts'" and rs = "rs @ rs'"
        and q = "if left_with t1 = None then q' else q"])
    show "chunks p w = (got @ got') @ chunks p w2" "out p w2 = out p w @ concat (puts @ puts')"
      using a(1,2) b(1,2) by simp_all
    show "accepted complete (puts @ puts') (rs @ rs')" by (rule accepted_append [OF a(3) b(3)])
  qed (use a(4) b(1,4) in \<open>cases "left_with t"; cases "left_with t1"; simp add: replies_append\<close>)
qed

definition conversed ::
    "bool \<Rightarrow> (int \<Rightarrow> 'w \<Rightarrow> bytes list) \<Rightarrow> (int \<Rightarrow> 'w \<Rightarrow> bytes) \<Rightarrow> (unit \<times> 'c) answering \<Rightarrow> 'c \<Rightarrow>
     (unit, 'c) protocol_task \<Rightarrow> (unit, 'c) protocol_task \<Rightarrow> 'w \<Rightarrow> 'w \<Rightarrow> bool" where
  "conversed complete chunks out handler c t t' w w' \<longleftrightarrow> port_of t' = port_of t \<and> slot_of t' = slot_of t \<and>
     (\<forall>p. port_of t = Some p \<longrightarrow> talked complete chunks out handler c p t t' w w')"

lemma conversed_trans:
  "conversed complete chunks out handler c t t1 w w1 \<Longrightarrow> conversed complete chunks out handler c t1 t2 w1 w2 \<Longrightarrow>
   conversed complete chunks out handler c t t2 w w2"
  unfolding conversed_def using talked_trans by metis

lemma conversed_nothing:
  assumes "\<And>p. port_of t = Some p \<Longrightarrow> chunks p w' = chunks p w \<and> out p w' = out p w"
    and "port_of t' = port_of t \<and> slot_of t' = slot_of t \<and> left_with t' = left_with t \<and> context_of c t' = context_of c t"
    and "left_with t \<noteq> None \<Longrightarrow> t' = t"
  shows "conversed complete chunks out handler c t t' w w'"
  unfolding conversed_def
proof (intro conjI allI impI)
  fix p assume "port_of t = Some p"
  then show "talked complete chunks out handler c p t t' w w'"
    using assms by (intro talkedI [where got = "[]" and puts = "[]" and rs = "[]" and q = "Ret ()"])
      (auto simp: accepted_def)
qed (use assms(2) in simp_all)

text \<open>The tasks have different descriptors, all open, and each sends on the one it reads from.\<close>

definition tidy ::
    "('w \<Rightarrow> int set) \<Rightarrow> ('h \<times> 'c) answering \<Rightarrow> ('h, 'c) protocol_task list \<Rightarrow> 'w \<Rightarrow> bool" where
  "tidy opened handler ts w \<longleftrightarrow> distinct (map port_of ts) \<and>
     (\<forall>t \<in> set ts. answers_with handler t \<and>
        (\<exists>x. slot_of t = Ptr x \<and> port_of t = Some (sock_fd x) \<and> sock_fd x \<in> opened w))"

lemma tidy_update:
  assumes "tidy opened handler ts w" and "k < length ts" and "port_of t = port_of (ts ! k)"
    and "slot_of t = slot_of (ts ! k)" and "answers_with handler t" and "opened w' = opened w"
  shows "tidy opened handler (ts[k := t]) w'"
proof -
  have "map port_of (ts[k := t]) = map port_of ts" using assms(2,3) by (simp add: map_update list_update_same_conv)
  then show ?thesis
    using assms nth_mem [OF assms(2)] set_update_subset_insert [of ts k t]
    unfolding tidy_def by (metis insertE subsetD)
qed

lemma tidy_new:
  assumes "tidy opened handler ts w" and "port_of t = Some (sock_fd x)" and "slot_of t = Ptr x"
    and "answers_with handler t" and "sock_fd x \<notin> opened w" and "opened w' = insert (sock_fd x) (opened w)"
  shows "tidy opened handler (ts @ [t]) w'"
  using assms unfolding tidy_def by fastforce

lemma tidy_apart:
  assumes "tidy opened handler ts w" and "i < length ts" and "k < length ts" and "i \<noteq> k"
  shows "port_of (ts ! i) \<noteq> port_of (ts ! k)"
  using assms nth_eq_iff_index_eq [of "map port_of ts" i k] by (simp add: tidy_def)

section \<open>One turn\<close>

text \<open>
  A site on which a call for one connection leaves the others alone. A new connection gets a descriptor
  that was not open, and the streams of the open ones stay as they are.
\<close>

locale protocol_serving_env = protocol_env "pt_os E" incoming sent complete "pt_helper E" chunks + fd_table "pt_os E" opened
  for E :: "('c, 'w) protocol_site" and incoming and sent :: "int \<Rightarrow> 'w \<Rightarrow> bytes" and complete chunks opened +
  assumes read_alone: "ReadSocketBuffer (pt_helper E) s n w = (got, w') \<Longrightarrow>
      opened w' = opened w \<and> (t \<noteq> s \<longrightarrow> chunks t w' = chunks t w)"
    and accept_alone: "os_accept (pt_os E) l w = (s, w') \<Longrightarrow> t \<in> opened w \<Longrightarrow>
      chunks t w' = chunks t w \<and> sent t w' = sent t w"
begin

lemma string_of_chunk_any:
  assumes "string_of_array (b @ replicate k 0) = Inr q"
  shows "q = c_prefix b"
proof (cases "0 \<in> set b")
  case True
  then show ?thesis
    using assms by (auto simp: string_of_array_def c_prefix_def takeWhile_append1)
next
  case False
  with assms obtain j where k: "k = Suc j" by (cases k) (auto simp: string_of_array_def)
  show ?thesis using assms string_of_chunk [of b "length b + k"] k by simp
qed

lemma loop_turn_talks:
  fixes ps :: "(unit, 'c) protocol_session"
  assumes "protocol_loop_turn (pt_os E) (pt_helper E) ps h w = Some (Inr (t', h', w'))"
    and "ps_client ps = Ptr x" and "sock_fd x = ps_port ps" and "short_answers (ps_handler ps)"
  shows "conversed complete chunks sent (ps_handler ps) c (Answering ps) t' w w' \<and> answers_with (ps_handler ps) t' \<and>
    opened w' = opened w \<and> (\<forall>t. t \<noteq> ps_port ps \<longrightarrow> chunks t w' = chunks t w \<and> sent t w' = sent t w)"
proof -
  obtain got w1 where g: "ReadSocketBuffer (pt_helper E) (ps_port ps) PROTOCOL_BUFFER w = (got, w1)" by fastforce
  note rd = read_chunk [OF g] read_alone [OF g]
  let ?p = "ps_port ps" and ?h = "ps_handler ps"
  show ?thesis
  proof (cases got)
    case None
    then have "chunks ?p w = []" using rd(1) by (cases "chunks ?p w") auto
    moreover have "t' = Left (Ret ()) ps" "w' = w1"
      using assms(1) g None by (simp_all add: protocol_loop_turn_def protocol_round_def Let_def)
    moreover have "talked complete chunks sent ?h c ?p (Answering ps) (Left (Ret ()) ps) w w1"
      using rd(1) \<open>chunks ?p w = []\<close>
      by (intro talkedI [where got = "[]" and puts = "[]" and rs = "[]" and q = "Ret ()"]) (auto simp: accepted_def)
    ultimately show ?thesis using rd by (simp add: conversed_def)
  next
    case (Some b)
    obtain req where "string_of_array (b @ replicate (PROTOCOL_BUFFER - length b) 0) = Inr req"
      using assms(1) g Some by (auto simp: protocol_loop_turn_def protocol_round_def split: sum.splits)
    note req = this string_of_chunk_any [OF this]
    have ch: "chunks ?p w = b # chunks ?p w1" using rd(1) Some by (auto split: list.splits)
    obtain r h1 c1 where r: "?h (c_prefix b) (word_of_nat (length b)) (h, ps_context ps) = (r, (h1, c1))"
      by (metis prod.exhaust)
    show ?thesis
    proof (cases r)
      case (Throw e)
      then have "t' = Left (Throw e) (ps\<lparr>ps_context := c1\<rparr>)" "w' = w1"
        using assms(1) g Some req r by (simp_all add: protocol_loop_turn_def protocol_round_def Let_def)
      moreover have "talked complete chunks sent ?h c ?p (Answering ps) (Left (Throw e) (ps\<lparr>ps_context := c1\<rparr>)) w w1"
        using rd(1) ch r Throw by (intro talkedI [where got = "[b]" and puts = "[]" and rs = "[]" and q = "Throw e"])
          (auto simp: accepted_def)
      ultimately show ?thesis using rd by (simp add: conversed_def)
    next
      case (Ret ans)
      obtain n w2 where k: "os_send (pt_os E) ?p ans w1 = (n, w2)" by fastforce
      have "length ans < 2 ^ 31" using assms(4) r Ret unfolding short_answers_def by blast
      then have t: "t' = Answering (ps\<lparr>ps_context := c1\<rparr>)" "w' = w2"
        using assms(1-3) g Some req r Ret k sint_of_nat_32 [of "length ans"]
        by (simp_all add: protocol_loop_turn_def protocol_round_def deref_def SendBytes_def Let_def)
      note snd = send_accepts [OF k] send_keeps_chunks [OF k] send_keeps [OF k]
      have "accepted complete [take (nat n) ans] [ans]"
        using send_complete [OF _ k] by (auto simp: accepted_def min_def)
      then have "talked complete chunks sent ?h c ?p (Answering ps) (Answering (ps\<lparr>ps_context := c1\<rparr>)) w w2"
        using rd(1) ch r Ret snd
        by (intro talkedI [where got = "[b]" and puts = "[take (nat n) ans]" and rs = "[ans]" and q = "Ret ()"]) auto
      then show ?thesis using t rd snd by (simp add: conversed_def)
    qed
  qed
qed

section \<open>Every schedule\<close>

definition all_converse ::
    "(unit \<times> 'c) answering \<Rightarrow> ('p, unit, 'c, 'w) protocol_serving \<Rightarrow> ('p, unit, 'c, 'w) protocol_serving \<Rightarrow> bool" where
  "all_converse handler s s' \<longleftrightarrow> length (pv_tasks s) \<le> length (pv_tasks s') \<and>
     (\<forall>i < length (pv_tasks s). conversed complete chunks sent handler (pt_context E)
        (pv_tasks s ! i) (pv_tasks s' ! i) (pv_world s) (pv_world s'))"

definition serving_well :: "(unit \<times> 'c) answering \<Rightarrow> ('p, unit, 'c, 'w) protocol_serving \<Rightarrow> bool" where
  "serving_well handler s \<longleftrightarrow> proto_handler (pv_server s) = Some handler \<and>
     tidy opened handler (pv_tasks s) (pv_world s)"

lemma all_converse_refl: "all_converse handler s s"
  by (simp add: all_converse_def conversed_nothing)

lemma all_converse_trans:
  assumes "all_converse handler s s1" and "all_converse handler s1 s2"
  shows "all_converse handler s s2"
  unfolding all_converse_def
proof (intro conjI allI impI)
  have n: "length (pv_tasks s) \<le> length (pv_tasks s1)" "length (pv_tasks s1) \<le> length (pv_tasks s2)"
    using assms by (simp_all add: all_converse_def)
  then show "length (pv_tasks s) \<le> length (pv_tasks s2)" by simp
  fix i assume i: "i < length (pv_tasks s)"
  then have "i < length (pv_tasks s1)" using n(1) by simp
  with i assms show "conversed complete chunks sent handler (pt_context E) (pv_tasks s ! i) (pv_tasks s2 ! i) (pv_world s) (pv_world s2)"
    unfolding all_converse_def using conversed_trans by metis
qed

lemma quiet_converse:
  assumes "tidy opened handler (pv_tasks s) (pv_world s)"
    and "\<And>t. t \<in> opened (pv_world s) \<Longrightarrow>
      chunks t (pv_world s') = chunks t (pv_world s) \<and> sent t (pv_world s') = sent t (pv_world s)"
    and "length (pv_tasks s) \<le> length (pv_tasks s')"
    and "\<And>i. i < length (pv_tasks s) \<Longrightarrow> pv_tasks s' ! i = pv_tasks s ! i \<or>
      (\<exists>d ps. pv_tasks s ! i = Waiting d \<and> pv_tasks s' ! i = Answering ps \<and> client_port d = Some (ps_port ps) \<and>
        cd_client_socket d = ps_client ps \<and> ps_context ps = pt_context E)"
  shows "all_converse handler s s'"
  unfolding all_converse_def
proof (intro conjI allI impI)
  fix i assume i: "i < length (pv_tasks s)"
  show "conversed complete chunks sent handler (pt_context E) (pv_tasks s ! i) (pv_tasks s' ! i) (pv_world s) (pv_world s')"
  proof (rule conversed_nothing)
    fix p assume "port_of (pv_tasks s ! i) = Some p"
    then have "p \<in> opened (pv_world s)" using assms(1) nth_mem [OF i] unfolding tidy_def by fastforce
    then show "chunks p (pv_world s') = chunks p (pv_world s) \<and> sent p (pv_world s') = sent p (pv_world s)"
      by (rule assms(2))
  qed (use assms(4) [OF i] in auto)
qed (rule assms(3))

lemma listen_converses:
  assumes "serving_well handler s"
    and listen: "t = Listener" "listen_round (pt_os E) (pt_ip E) (pt_info E) (pv_server s) (pv_heap s) (pv_world s) = Inr (q, h, w)"
      "case q of Throw e \<Rightarrow> r = Throw e \<and> s' = s\<lparr>pv_heap := h, pv_world := w\<rparr>
       | Ret d \<Rightarrow> r = Ret () \<and> s' = s\<lparr>pv_heap := h, pv_world := w, pv_tasks := pv_tasks s @ [Waiting d]\<rparr>"
  shows "serving_well handler s' \<and> all_converse handler s s'"
proof -
  obtain c w1 where c: "os_accept (pt_os E) (sock_fd (pv_server s)) (pv_world s) = (c, w1)" by fastforce
  then have "w = w1"
    using listen(2) by (auto simp: listen_round_def Accept_def Socket_adopt_def new_counter_def Let_def
        fbind_eq_Inr_iff split: if_splits)
  then have "all_converse handler s s'"
    using listen(3) accept_alone [OF c] assms(1)
    by (intro quiet_converse) (auto simp: serving_well_def nth_append split: outcome.splits)
  moreover have "serving_well handler s'"
  proof (cases q)
    case (Throw e)
    then show ?thesis
      using listen assms(1) listen_round_opened [OF listen(2)] by (simp add: serving_well_def tidy_def)
  next
    case (Ret d)
    then obtain x where x: "client_port d = Some (sock_fd x)" "cd_client_socket d = Ptr x"
      "sock_fd x \<notin> opened (pv_world s)" "opened w = insert (sock_fd x) (opened (pv_world s))"
      using listen_round_opened [OF listen(2)] by force
    have "tidy opened handler (pv_tasks s @ [Waiting d]) w"
      by (rule tidy_new [of opened handler "pv_tasks s" "pv_world s"]) (use assms(1) x in \<open>simp_all add: serving_well_def\<close>)
    then show ?thesis using listen(3) Ret assms(1) by (simp add: serving_well_def)
  qed
  ultimately show ?thesis by simp
qed

lemma start_converses:
  assumes "serving_well handler s"
    and start: "k < length (pv_tasks s)" "pv_tasks s ! k = Waiting d"
      "protocol_start (pt_context E) d (pv_server s) = Inr t" "s' = s\<lparr>pv_tasks := (pv_tasks s)[k := t]\<rparr>"
  shows "serving_well handler s' \<and> all_converse handler s s'"
proof -
  obtain x where x: "client_port d = Some (sock_fd x)" "cd_client_socket d = Ptr x"
    using assms(1) start(1,2) nth_mem [OF start(1)] by (fastforce simp: serving_well_def tidy_def)
  then have t: "t = Answering \<lparr>ps_handler = handler, ps_port = sock_fd x, ps_client = Ptr x, ps_context = pt_context E\<rparr>"
    using start(3) assms(1) by (simp add: serving_well_def protocol_start_def)
  have "tidy opened handler ((pv_tasks s)[k := t]) (pv_world s)"
    using assms(1) start(1,2) x t by (intro tidy_update) (simp_all add: serving_well_def)
  moreover have "all_converse handler s s'"
    using start(1,2,4) assms(1) x t by (intro quiet_converse) (auto simp: serving_well_def nth_list_update)
  ultimately show ?thesis using start(4) assms(1) by (simp add: serving_well_def)
qed

lemma loop_converses:
  assumes "serving_well handler s" and "short_answers handler"
    and loop: "k < length (pv_tasks s)" "pv_tasks s ! k = Answering ps"
      "protocol_loop_turn (pt_os E) (pt_helper E) ps (pv_shared s) (pv_world s) = Some (Inr (t, h, w))"
      "s' = s\<lparr>pv_tasks := (pv_tasks s)[k := t], pv_shared := h, pv_world := w\<rparr>"
  shows "serving_well handler s' \<and> all_converse handler s s'"
proof -
  have "\<exists>x. ps_client ps = Ptr x \<and> sock_fd x = ps_port ps \<and> ps_handler ps = handler"
    using assms(1) loop(1,2) nth_mem [OF loop(1)] by (fastforce simp: serving_well_def tidy_def)
  then obtain x where x: "ps_client ps = Ptr x" "sock_fd x = ps_port ps" "ps_handler ps = handler" by blast
  note told = loop_turn_talks [OF loop(3) x(1,2), unfolded x(3), OF assms(2), of "pt_context E"]
  have "conversed complete chunks sent handler (pt_context E) (pv_tasks s ! i) ((pv_tasks s)[k := t] ! i) (pv_world s) w"
    if i: "i < length (pv_tasks s)" for i
  proof (cases "i = k")
    case True
    then show ?thesis using told loop(1,2) by simp
  next
    case False
    then have "port_of (pv_tasks s ! i) \<noteq> Some (ps_port ps)"
      using tidy_apart [of opened handler "pv_tasks s" "pv_world s" i k] assms(1) i loop(1,2) by (simp add: serving_well_def)
    then show ?thesis using told False by (auto intro: conversed_nothing)
  qed
  then have "all_converse handler s s'" using loop(4) by (simp add: all_converse_def)
  moreover have "tidy opened handler ((pv_tasks s)[k := t]) w"
    using assms(1) told loop(1,2) by (intro tidy_update) (simp_all add: serving_well_def conversed_def)
  ultimately show ?thesis using loop(4) assms(1) by (simp add: serving_well_def)
qed

lemma turn_converses:
  assumes "protocol_turn E t s = Some (Inr (r, s'))" and "serving_well handler s" and "short_answers handler"
  shows "serving_well handler s' \<and> all_converse handler s s'"
  using assms(1)
proof (cases rule: protocol_turn_cases)
  case (listen q h w)
  from listen_converses [OF assms(2) listen] show ?thesis .
next
  case (start k d t)
  from start_converses [OF assms(2) start(1,2,4,5)] show ?thesis .
next
  case (loop k ps t h w)
  from loop_converses [OF assms(2,3) loop(1,2,4,5)] show ?thesis .
qed (use assms(2) all_converse_refl in simp)

lemma schedule_converses:
  assumes "answer_all E us s = Some (Inr (r, s'))" and "serving_well handler s" and "short_answers handler"
  shows "serving_well handler s' \<and> all_converse handler s s'"
  by (rule answer_all_relates [OF assms(1), of "serving_well handler" "all_converse handler"])
    (use assms(2,3) all_converse_refl all_converse_trans turn_converses in blast)+

lemma started_well:
  "proto_handler this = Some handler \<Longrightarrow> serving_well handler (protocol_started this () h w)"
  by (simp add: serving_well_def protocol_started_def tidy_def)

end

end
