(* ===== verification/Protocol_Theorems.thy ===== *)
theory Protocol_Theorems
  imports Protocol_Conversations
begin

text \<open>Properties of the protocol servers.\<close>

text \<open>C18: A protocol session answers like its reference. When every chunk is shorter than the 32,000 bytes
  of the buffer and no answer reaches \<open>2 ^ 31\<close> bytes, \<open>CProtocolSocket::ThreadHandler\<close> returns, with the
  exception of the handler if it threw one, and what the client's kernel accepted are prefixes of the
  replies that \<open>replies\<close> computes from the chunks, in order, or the whole replies if the kernel always accepts everything (\<open>complete\<close>). The handler sees each chunk only up to its
  first NUL, with the length of the whole chunk.
\<close>

theorem protocol_session_replies:
  assumes "protocol_env os inp out complete hp chunks"
    and "proto_handler this = Some handler"
    and "cd_client_socket d = Ptr client" and "client_port d = Some port"
    and "short_answers handler"
    and "\<forall>b \<in> set (chunks port w). length b < PROTOCOL_BUFFER"
    and "replies handler (chunks port w) x = (q, rs, x')"
  shows "\<exists>w' puts. Protocol_ThreadHandler os hp d (this, x, w) = Some (Inr (q, this, x', w')) \<and>
    out (sock_fd client) w' = out (sock_fd client) w @ concat puts \<and>
    list_all2 (\<lambda>p r. p = take (length p) r) puts rs \<and>
    (complete \<longrightarrow> puts = rs)"
proof -
  obtain w' puts where "pump (protocol_round os hp handler port (Ptr client)) (Ret (), x, w) = Some (Inr (q, x', w'))"
    "out (sock_fd client) w' = out (sock_fd client) w @ concat puts"
    "list_all2 (\<lambda>p r. p = take (length p) r) puts rs" "complete \<longrightarrow> puts = rs"
    using protocol_env.session_replies [OF assms(1,5,6,7)] by blast
  then show ?thesis
    using assms(2-4) by (intro exI [of _ w'] exI [of _ puts]) (simp add: Protocol_ThreadHandler_def)
qed

text \<open>A handler that answers with the length it was told and the text it was given.\<close>

definition length_handler :: "nat answering" where
  "length_handler req n x = (if length req < 1000 then Ret (ucast n # req) else Throw ''long'', x + 1)"

definition sample_protocol :: "(unit, nat) CProtocolSocket" where
  "sample_protocol = \<lparr>sock_fd = 4, refCounter = 0, m_ProtocolPort = 9000, max_connections = 128,
     info = \<lparr>node_info = [], node_mode = 0\<rparr>, socket_address = \<lparr>sin_port = 9000, sin_addr = 0\<rparr>,
     thread_routine = None, listener = None, proto_handler = Some length_handler, proto_routine = BuiltIn\<rparr>"

definition protocol_data :: CLIENT_DATA where
  "protocol_data = \<lparr>client_port = Some 9, remote_addr = None, cd_node_info = [], cd_mode = 1,
     cd_client_socket = Ptr \<lparr>sock_fd = 9, refCounter = 0\<rparr>\<rparr>"

theorem protocol_session_replies_witness:
  "\<exists>w'. Protocol_ThreadHandler sim_full segments protocol_data
      (sample_protocol, 0, boot\<lparr>k_in := (\<lambda>s. [[7, 0, 8], [5]])\<rparr>) =
      Some (Inr (Ret (), sample_protocol, 2, w')) \<and> sim_out 9 w' = [3, 7, 1, 5]"
proof -
  let ?w = "boot\<lparr>k_in := (\<lambda>s. [[7, 0, 8], [5]])\<rparr>"
  have h: "proto_handler sample_protocol = Some length_handler"
    "cd_client_socket protocol_data = Ptr \<lparr>sock_fd = 9, refCounter = 0\<rparr>" "client_port protocol_data = Some 9"
    by (simp_all add: sample_protocol_def protocol_data_def)
  have short: "short_answers length_handler" by (simp add: short_answers_def length_handler_def)
  have r: "replies length_handler (k_in ?w 9) 0 = (Ret (), [[3, 7], [1, 5]], 2)"
    by (simp add: length_handler_def c_prefix_def)
  have "\<forall>b \<in> set (k_in ?w 9). length b < PROTOCOL_BUFFER" by (simp add: PROTOCOL_BUFFER_def)
  from protocol_session_replies [OF sim_full.protocol_env_axioms h short this r] show ?thesis
    by (auto simp: sim_out_def boot_def)
qed

section \<open>Many sessions at once\<close>

text \<open>The same handler with its counter in the context of the session.\<close>

definition session_length_handler :: "(unit \<times> nat) answering" where
  "session_length_handler req n x =
     (if length req < 1000 then Ret (ucast n # req) else Throw ''long'', (), snd x + 1)"

definition sim_protocol :: "(nat, kernel) protocol_site" where
  "sim_protocol = \<lparr>pt_os = sim_full, pt_helper = segments, pt_ip = (\<lambda>a. ''0.0.0.0''),
     pt_info = \<lparr>node_info = [], node_mode = 1\<rparr>, pt_context = 0\<rparr>"

interpretation sim_protocol: protocol_serving_env sim_protocol sim_in sim_out True "\<lambda>s w. k_in w s" k_open
proof (intro protocol_serving_env.intro)
  show "protocol_env (pt_os sim_protocol) sim_in sim_out True (pt_helper sim_protocol) (\<lambda>s w. k_in w s)"
    using sim_full.protocol_env_axioms by (simp add: sim_protocol_def)
  show "fd_table (pt_os sim_protocol) k_open"
    using sim_full.fd_table_axioms by (simp add: sim_protocol_def)
  show "protocol_serving_env_axioms sim_protocol sim_out (\<lambda>s w. k_in w s) k_open"
    by unfold_locales
      (auto simp: sim_protocol_def segments_def no_options_def sim_full_def sim_def sim_open_def sim_out_def log_def
        split: list.splits if_splits)
qed

definition session_protocol :: "(unit, unit \<times> nat) CProtocolSocket" where
  "session_protocol = \<lparr>sock_fd = 4, refCounter = 0, m_ProtocolPort = 9000, max_connections = 128,
     info = \<lparr>node_info = [], node_mode = 0\<rparr>, socket_address = \<lparr>sin_port = 9000, sin_addr = 0\<rparr>,
     thread_routine = None, listener = None, proto_handler = Some session_length_handler, proto_routine = BuiltIn\<rparr>"

definition two_talkers :: kernel where
  "two_talkers = boot\<lparr>k_in := (\<lambda>s. if s = 9 then [[7, 0, 8], [5]] else [[6]]), k_accept := [9, 11]\<rparr>"

lemmas protocol_eval = answer_all_def protocol_started_def protocol_task_turn_def protocol_start_def
  session_protocol_def sim_protocol_def two_talkers_def listen_round_def Accept_def Socket_adopt_def Start_def
  new_counter_def sim_full_def sim_def sim_open_def boot_def empty_heap_def strcpy_def REMOTE_ADDR_SIZE_def INVALID_SOCKET_def Let_def

lemma two_conversations:
  "\<exists>s a b. answer_all sim_protocol [Listener, Listener, Task 0, Task 1] (protocol_started session_protocol () empty_heap two_talkers) =
      Some (Inr (Ret (), s)) \<and> pv_tasks s = [Answering a, Answering b] \<and> ps_port a = 9 \<and> ps_port b = 11 \<and>
      ps_handler a = session_length_handler \<and> ps_client a = Ptr \<lparr>sock_fd = 9, refCounter = 0\<rparr> \<and> ps_context a = 0 \<and>
      k_in (pv_world s) = k_in two_talkers \<and> sim_out 9 (pv_world s) = [] \<and> pv_shared s = ()"
  by (simp add: protocol_eval sim_out_def)

text \<open>C19: The sessions of a protocol server answer like their references, whatever the schedule. If the handler
  keeps no state but the session's context, and no answer reaches \<open>2 ^ 31\<close> bytes, then between any two
  moments of any schedule every session has stayed on its own descriptor, no two have the same, and the
  chunks it took there were answered, on that descriptor and nowhere else, by what \<open>replies\<close> computes from
  them and the session's context. It has left its loop with the exception that this computation ends
  with, or because no chunk is left.
\<close>

theorem protocol_sessions_answer_like_their_references:
  assumes "protocol_serving_env E inp out complete chunks opened" and "proto_handler this = Some handler"
    and "short_answers handler"
    and "answer_all E ts (protocol_started this () h w) = Some (Inr (Ret (), s))"
    and "answer_all E us s = Some (Inr (r, s'))"
  shows "distinct (map port_of (pv_tasks s')) \<and>
    (\<forall>i < length (pv_tasks s). \<exists>p. port_of (pv_tasks s ! i) = Some p \<and> port_of (pv_tasks s' ! i) = Some p \<and>
      talked complete chunks out handler (pt_context E) p (pv_tasks s ! i) (pv_tasks s' ! i) (pv_world s) (pv_world s'))"
proof -
  note env = protocol_serving_env.schedule_converses [OF assms(1)]
  have s: "protocol_serving_env.serving_well opened handler s"
    using env [OF assms(4) protocol_serving_env.started_well [OF assms(1,2)] assms(3)] by blast
  note well = protocol_serving_env.serving_well_def [OF assms(1)]
  from env [OF assms(5) s assms(3)] have
    "tidy opened handler (pv_tasks s') (pv_world s')" and
    c: "\<forall>i < length (pv_tasks s). conversed complete chunks out handler (pt_context E)
       (pv_tasks s ! i) (pv_tasks s' ! i) (pv_world s) (pv_world s')"
    by (simp_all add: well protocol_serving_env.all_converse_def [OF assms(1)])
  moreover have "\<exists>p. port_of (pv_tasks s ! i) = Some p" if "i < length (pv_tasks s)" for i
    using s nth_mem [OF that] by (fastforce simp: well tidy_def)
  ultimately show ?thesis unfolding tidy_def conversed_def by metis
qed

lemma first_conversation_ends:
  fixes s :: "(unit, unit, nat, kernel) protocol_serving"
  assumes "pv_tasks s = [Answering a, Answering b]" and "ps_port a = 9" and "ps_handler a = session_length_handler"
    and "ps_client a = Ptr \<lparr>sock_fd = 9, refCounter = 0\<rparr>" and "ps_context a = 0" and "k_in (pv_world s) = k_in two_talkers"
  shows "\<exists>n s' a'. answer_all sim_protocol (replicate n (Task 0)) s = Some (Inr (Ret (), s')) \<and>
    pv_tasks s' = [Left (Ret ()) a', Answering b]"
proof -
  have short: "short_answers session_length_handler" by (simp add: short_answers_def session_length_handler_def)
  have "replies session_length_handler (k_in (pv_world s) 9) (pv_shared s, ps_context a) = (Ret (), [[3, 7], [1, 5]], ((), 2))"
    by (simp add: session_length_handler_def c_prefix_def assms(5,6) two_talkers_def)
  moreover have "\<forall>b \<in> set (k_in (pv_world s) 9). length b < PROTOCOL_BUFFER"
    by (simp add: assms(6) two_talkers_def PROTOCOL_BUFFER_def)
  ultimately obtain w where
    "pump (protocol_round sim_full segments session_length_handler 9 (Ptr \<lparr>sock_fd = 9, refCounter = 0\<rparr>))
      (Ret (), (pv_shared s, ps_context a), pv_world s) = Some (Inr (Ret (), ((), 2), w))"
    using sim_full.session_replies [OF short, where port = 9 and w = "pv_world s"] by blast
  from protocol_loop_in_turns [OF this, of sim_protocol 0, rule_format, of a s] assms(1-4) obtain n where
    n: "answer_all sim_protocol (replicate n (Task 0)) s = Some (Inr (Ret (), protocol_left 0 a (Ret ()) ((), 2) w s))"
    by (auto simp: sim_protocol_def)
  have "pv_tasks (protocol_left 0 a (Ret ()) ((), 2) w s) = [Left (Ret ()) (a\<lparr>ps_context := 2\<rparr>), Answering b]"
    using assms(1) by (simp add: protocol_left_def)
  with n show ?thesis by blast
qed

theorem protocol_sessions_answer_like_their_references_witness:
  "\<exists>s us s' a a' b. answer_all sim_protocol [Listener, Listener, Task 0, Task 1] (protocol_started session_protocol () empty_heap two_talkers) =
      Some (Inr (Ret (), s)) \<and>
    answer_all sim_protocol us s = Some (Inr (Ret (), s')) \<and> pv_tasks s' = [Left (Ret ()) a', Answering b] \<and>
    talked True (\<lambda>s w. k_in w s) sim_out session_length_handler 0 9 (Answering a) (Left (Ret ()) a') (pv_world s) (pv_world s')"
proof -
  obtain s and a b :: "(unit, nat) protocol_session" where s: "answer_all sim_protocol [Listener, Listener, Task 0, Task 1]
      (protocol_started session_protocol () empty_heap two_talkers) = Some (Inr (Ret (), s))"
    "pv_tasks s = [Answering a, Answering b]" "ps_port a = 9" "ps_handler a = session_length_handler"
    "ps_client a = Ptr \<lparr>sock_fd = 9, refCounter = 0\<rparr>" "ps_context a = 0" "k_in (pv_world s) = k_in two_talkers"
    using two_conversations by blast
  obtain n s' a' where s': "answer_all sim_protocol (replicate n (Task 0)) s = Some (Inr (Ret (), s'))"
    "pv_tasks s' = [Left (Ret ()) a', Answering b]" using first_conversation_ends [OF s(2-7)] by blast
  have h: "proto_handler session_protocol = Some session_length_handler" by (simp add: session_protocol_def)
  have short: "short_answers session_length_handler" by (simp add: short_answers_def session_length_handler_def)
  from protocol_sessions_answer_like_their_references [OF sim_protocol.protocol_serving_env_axioms h short s(1) s'(1)]
  have "talked True (\<lambda>s w. k_in w s) sim_out session_length_handler 0 9 (Answering a) (Left (Ret ()) a') (pv_world s) (pv_world s')"
    using s(2,3) s'(2) by (auto simp: sim_protocol_def)
  with s(1) s' show ?thesis by blast
qed

text \<open>A protocol task that gets the turns alone does what its thread routine does: after finitely many
  turns it has the same fault, or the server, the handler's state, the session's context and the system
  are those that \<open>ThreadHandler\<close> leaves, and the task has ended the way it was left.
\<close>

theorem lone_protocol_task_is_the_thread_routine:
  assumes "k < length (pv_tasks s)" and "pv_tasks s ! k = Waiting d"
    and "Protocol_ThreadHandler (pt_os E) (pt_helper E) d (pv_server s, (pv_shared s, pt_context E), pv_world s) = Some q"
  shows "case q of
      Inl e \<Rightarrow> \<exists>n. answer_all E (replicate n (Task k)) s = Some (Inl e)
    | Inr (r, this, x, w) \<Rightarrow> \<exists>n t. protocol_task_done (pt_context E) r x t \<and> answer_all E (replicate n (Task k)) s =
        Some (Inr (Ret (), s\<lparr>pv_server := this, pv_shared := fst x, pv_world := w, pv_tasks := (pv_tasks s)[k := t]\<rparr>))"
  using protocol_handler_in_turns [OF assms] unfolding protocol_in_turns_def .

theorem lone_protocol_task_is_the_thread_routine_witness:
  "\<exists>n t. answer_all sim_protocol (replicate n (Task 0)) ((protocol_started session_protocol () empty_heap boot)\<lparr>pv_tasks := [Waiting protocol_data]\<rparr>) =
      Some (Inr (Ret (), (protocol_started session_protocol () empty_heap boot)\<lparr>pv_tasks := [t]\<rparr>)) \<and>
    protocol_task_done 0 (Ret ()) ((), 0) t"
proof -
  let ?s = "(protocol_started session_protocol () empty_heap boot)\<lparr>pv_tasks := [Waiting protocol_data]\<rparr>"
  have "protocol_round sim_full segments session_length_handler 9 (Ptr \<lparr>sock_fd = 9, refCounter = 0\<rparr>)
      (Ret (), ((), 0), boot) = Some (Inr (False, Ret (), ((), 0), boot))"
    by (simp add: protocol_round_def segments_def boot_def)
  from pump_step [of "protocol_round sim_full segments session_length_handler 9 (Ptr \<lparr>sock_fd = 9, refCounter = 0\<rparr>)", OF this]
  have run: "Protocol_ThreadHandler (pt_os sim_protocol) (pt_helper sim_protocol) protocol_data
      (pv_server ?s, (pv_shared ?s, pt_context sim_protocol), pv_world ?s) =
      Some (Inr (Ret (), session_protocol, ((), 0), boot))"
    by (simp add: Protocol_ThreadHandler_def protocol_started_def sim_protocol_def protocol_data_def session_protocol_def)
  from lone_protocol_task_is_the_thread_routine [OF _ _ run] show ?thesis
    by (auto simp: protocol_started_def sim_protocol_def)
qed

section \<open>Handlers\<close>

text \<open>The canned answer cannot be returned. \<open>BaseProtocolHandler::HandleData\<close> copies its response into a
  block without room for a terminating NUL and makes a string of the block's address, so the
  constructor of the string reads beyond the block, for every request.
\<close>

theorem base_handler_reads_beyond_its_block:
  "Base_HandleData request n x = Inl OutOfBounds \<and> length canned_response = 77"
  by (simp add: Base_HandleData_def string_of_array_def canned_response_def ascii_def CRLF_def c_prefix_def)

text \<open>The first registration of an HTTP request handler wins. After any sequence of registrations, by
  path or by URI, the handler of a URI and a method is the one that was registered for them first;
  later registrations for the same pair are dropped silently.
\<close>

theorem first_registration_wins:
  fixes uri :: 'uri and meth :: 'm and regs :: "(string \<times> 'm \<times> 'h) list"
  shows
  "(case fold (\<lambda>(path, meth, cb). register_path uri_of path meth cb) regs Map.empty uri of
      None \<Rightarrow> None | Some inner \<Rightarrow> inner meth) =
    map_option (\<lambda>(path, m, cb). cb) (find (\<lambda>(path, m, cb). uri_of path = uri \<and> m = meth) regs)"
proof -
  define look where "look r = (case r uri of None \<Rightarrow> None | Some inner \<Rightarrow> inner meth)"
    for r :: "('uri, 'm, 'h) registry"
  have one: "look (register_path uri_of path m cb r) =
      (case look r of None \<Rightarrow> if uri_of path = uri \<and> m = meth then Some cb else None | Some c \<Rightarrow> Some c)"
    for path m cb r
    by (auto simp: look_def register_path_def register_uri_def map_insert_def Let_def split: option.splits)
  have "look (fold (\<lambda>(path, meth, cb). register_path uri_of path meth cb) regs r) =
      (case look r of None \<Rightarrow> map_option (\<lambda>(path, m, cb). cb) (find (\<lambda>(path, m, cb). uri_of path = uri \<and> m = meth) regs)
       | Some c \<Rightarrow> Some c)" for r
    by (induction regs arbitrary: r) (auto simp: one split: option.split)
  from this [of Map.empty] show ?thesis by (simp add: look_def)
qed

end
