(* ===== verification/Tls.thy ===== *)
theory Tls
  imports Client Byte_Source
begin

text \<open>
  \<open>SSLSocket\<close> (\<open>socket/SSLSocket.h\<close>, \<open>.cpp\<close>): a \<open>Socket\<close> with an OpenSSL context and session. OpenSSL is the
  parameter \<open>openssl\<close>; \<open>ssl_live\<close> and \<open>ctx_live\<close> tell which sessions and contexts it has allocated and not
  yet freed, so that a use of a freed one, or of a pointer that was never set, is a fault of the model.
\<close>

section \<open>OpenSSL\<close>

datatype ssl_method = Server_method | Client_method | Other_method

datatype ssl_error = Zero_return | Want_read | Want_write | Other_error

text \<open>
  \<open>SSL_read\<close> returns the bytes it read, or \<open>None\<close> for -1, which is taken to be its only negative result (the
  line reader of the code knows no other).
\<close>

record 'w openssl =
  ssl_live :: "'w \<Rightarrow> nat set"
  ctx_live :: "'w \<Rightarrow> nat set"
  SSL_CTX_new :: "ssl_method \<Rightarrow> 'w \<Rightarrow> nat option \<times> 'w"
  SSL_CTX_free :: "nat \<Rightarrow> 'w \<Rightarrow> 'w"
  SSL_new :: "nat \<Rightarrow> 'w \<Rightarrow> nat option \<times> 'w"
  SSL_free :: "nat \<Rightarrow> 'w \<Rightarrow> 'w"
  SSL_set_fd :: "nat \<Rightarrow> int \<Rightarrow> 'w \<Rightarrow> 'w"
  SSL_accept :: "nat \<Rightarrow> 'w \<Rightarrow> int \<times> 'w"
  SSL_connect :: "nat \<Rightarrow> 'w \<Rightarrow> int \<times> 'w"
  SSL_shutdown :: "nat \<Rightarrow> 'w \<Rightarrow> 'w"
  SSL_read :: "nat \<Rightarrow> nat \<Rightarrow> 'w \<Rightarrow> bytes option \<times> 'w"
  SSL_write :: "nat \<Rightarrow> bytes \<Rightarrow> 'w \<Rightarrow> 'w"
  SSL_pending :: "nat \<Rightarrow> 'w \<Rightarrow> int"
  SSL_get_error :: "nat \<Rightarrow> 'w \<Rightarrow> ssl_error"
  SSL_set_host_name :: "nat \<Rightarrow> string \<Rightarrow> 'w \<Rightarrow> int \<times> 'w"
  SSL_set1_host :: "nat \<Rightarrow> string \<Rightarrow> 'w \<Rightarrow> int \<times> 'w"
  CTX_set_verify :: "nat \<Rightarrow> bool \<Rightarrow> 'w \<Rightarrow> 'w"
  CTX_default_paths :: "nat \<Rightarrow> 'w \<Rightarrow> int \<times> 'w"
  CTX_min_proto :: "nat \<Rightarrow> 'w \<Rightarrow> int \<times> 'w"
  CTX_passphrase :: "nat \<Rightarrow> string \<Rightarrow> 'w \<Rightarrow> 'w"
  CTX_certificate :: "nat \<Rightarrow> string \<Rightarrow> 'w \<Rightarrow> int \<times> 'w"
  CTX_private_key :: "nat \<Rightarrow> string \<Rightarrow> 'w \<Rightarrow> int \<times> 'w"
  getenv :: "string \<Rightarrow> string option"

section \<open>The object\<close>

record SSLSocket = Socket +
  ctx :: "nat slot"
  ssl :: "nat slot"
  ssl_meth :: ssl_method

definition handle :: "nat set \<Rightarrow> nat slot \<Rightarrow> fault + nat" where
  "handle live p =
     fbind (deref p) (\<lambda>n. if n \<in> live then Inr n else Inl UseAfterFree)"

lemma handle_Ptr [simp]: "handle live (Ptr n) = (if n \<in> live then Inr n else Inl UseAfterFree)"
  and handle_Indeterminate [simp]: "handle live Indeterminate = Inl Uninitialised"
  and handle_Null [simp]: "handle live Null = Inl NullDeref"
  by (simp_all add: handle_def deref_def)

lemma handle_Inr_iff: "handle live p = Inr n \<longleftrightarrow> p = Ptr n \<and> n \<in> live"
  by (cases p) auto

definition to_slot :: "'a option \<Rightarrow> 'a slot" where
  "to_slot p = (case p of None \<Rightarrow> Null | Some a \<Rightarrow> Ptr a)"

text \<open>Freeing a null pointer does nothing.\<close>

definition free_ssl :: "'w openssl \<Rightarrow> nat slot \<Rightarrow> 'w \<Rightarrow> fault + 'w" where
  "free_ssl tls p w =
     (if p = Null then Inr w else fbind (handle (ssl_live tls w) p) (\<lambda>n. Inr (SSL_free tls n w)))"

definition free_ctx :: "'w openssl \<Rightarrow> nat slot \<Rightarrow> 'w \<Rightarrow> fault + 'w" where
  "free_ctx tls p w =
     (if p = Null then Inr w else fbind (handle (ctx_live tls w) p) (\<lambda>n. Inr (SSL_CTX_free tls n w)))"

section \<open>Initialisation\<close>

text \<open>How the initialisation ends: normally, by an exception, or by \<open>exit\<close>.\<close>

datatype ending = Done | Thrown string | Exited

definition create_context :: "'w openssl \<Rightarrow> SSLSocket \<Rightarrow> 'w \<Rightarrow> ending \<times> SSLSocket \<times> 'w" where
  "create_context tls this w =
     (let (c, w) = SSL_CTX_new tls (ssl_meth this) w; this = this\<lparr>ctx := to_slot c\<rparr>
      in if c = None then (Thrown ''Unable to create SSL context'', this, w) else (Done, this, w))"

definition handle_error :: "'w openssl \<Rightarrow> ('a) SSLSocket_scheme \<Rightarrow> 'w \<Rightarrow> fault + 'w" where
  "handle_error tls this w = fbind (free_ssl tls (ssl this) w) (free_ctx tls (ctx this))"

text \<open>
  Both failures of \<open>configure_client_context\<close> free \<open>ssl\<close>, which has not been set yet. \<open>CTX_passphrase\<close> is
  given the string object whose address \<open>configure_server_context\<close> passes as user data.
\<close>

definition configure_client_context ::
    "'w openssl \<Rightarrow> SSLSocket \<Rightarrow> 'w \<Rightarrow> fault + (ending \<times> 'w)" where
  "configure_client_context tls this w =
     (let verifyCertificates = (case getenv tls ''SSL_VERIFY_CERT'' of None \<Rightarrow> True | Some v \<Rightarrow> v = ''true'')
      in fbind (handle (ctx_live tls w) (ctx this)) (\<lambda>c.
         let w = CTX_set_verify tls c verifyCertificates w; (r, w) = CTX_default_paths tls c w
         in if r = 0 then fbind (handle_error tls this w) (\<lambda>w.
              Inr (Thrown ''Failed to set the default trusted certificate store\<newline>'', w))
            else let (r, w) = CTX_min_proto tls c w
            in if r = 0 then fbind (handle_error tls this w) (\<lambda>w.
                 Inr (Thrown ''Failed to set the minimum TLS protocol version\<newline>'', w))
               else Inr (Done, w)))"

definition configure_server_context ::
    "'w openssl \<Rightarrow> SSLSocket \<Rightarrow> 'w \<Rightarrow> fault + (ending \<times> 'w)" where
  "configure_server_context tls this w =
     (case getenv tls ''SSL_CERT_FILE_PATH'' of
        None \<Rightarrow> Inr (Thrown ''SSL_CERT_FILE_PATH environment variable is missing!'', w)
      | Some cert \<Rightarrow>
        (case getenv tls ''SSL_KEY_FILE_PATH'' of
           None \<Rightarrow> Inr (Thrown ''SSL_KEY_FILE_PATH environment variable is missing!'', w)
         | Some key \<Rightarrow>
           (let password = (case getenv tls ''SSL_CERT_PASSPHRASE'' of None \<Rightarrow> [] | Some p \<Rightarrow> p)
            in fbind (handle (ctx_live tls w) (ctx this)) (\<lambda>c.
               let w = CTX_passphrase tls c password w; (r, w) = CTX_certificate tls c cert w
               in if r \<le> 0 then Inr (Exited, w)
                  else let (r, w) = CTX_private_key tls c key w
                  in if r \<le> 0 then Inr (Exited, w) else Inr (Done, w)))))"

definition SSL_accepting :: "'w openssl \<Rightarrow> SSLSocket \<Rightarrow> 'w \<Rightarrow> fault + (ending \<times> SSLSocket \<times> 'w)" where
  "SSL_accepting tls this w =
     fbind (handle (ctx_live tls w) (ctx this)) (\<lambda>c.
       let (s, w) = SSL_new tls c w; this = this\<lparr>ssl := to_slot s\<rparr>
       in fbind (handle (ssl_live tls w) (ssl this)) (\<lambda>s.
            let w = SSL_set_fd tls s (sock_fd this) w; (r, w) = SSL_accept tls s w
            in if r \<le> 0 then fbind (handle_error tls this w) (\<lambda>w.
                 Inr (Thrown ''Failed to establish an SSL connection.'', this, w))
               else Inr (Done, this, w)))"

definition SSL_Init :: "'w openssl \<Rightarrow> SSLSocket \<Rightarrow> 'w \<Rightarrow> fault + (ending \<times> SSLSocket \<times> 'w)" where
  "SSL_Init tls this w =
     (case create_context tls this w of (r, this, w) \<Rightarrow>
        if r \<noteq> Done then Inr (r, this, w)
        else if ssl_meth this = Server_method then
          fbind (configure_server_context tls this w) (\<lambda>(r, w).
            if r \<noteq> Done then Inr (r, this, w) else SSL_accepting tls this w)
        else if ssl_meth this = Client_method then
          fbind (configure_client_context tls this w) (\<lambda>(r, w). Inr (r, this, w))
        else Inr (Done, this, w))"

section \<open>Construction and destruction\<close>

text \<open>What an exception of the initialisation leaves: the base class is destroyed.\<close>

definition SSL_construct ::
    "'w os \<Rightarrow> 'w openssl \<Rightarrow> ssl_method \<Rightarrow> Socket \<Rightarrow> heap \<Rightarrow> 'w \<Rightarrow>
     fault + (ending \<times> SSLSocket \<times> heap \<times> 'w)" where
  "SSL_construct os tls m base h w =
     fbind (SSL_Init tls (Socket.extend base (SSLSocket.fields Indeterminate Indeterminate m)) w)
       (\<lambda>(r, this, w).
          case r of Thrown e \<Rightarrow>
            fbind (Socket_dtor os (Socket.truncate this) h w) (\<lambda>(h, w). Inr (r, this, h, w))
          | _ \<Rightarrow> Inr (r, this, h, w))"

definition SSLSocket_new ::
    "'w os \<Rightarrow> 'w openssl \<Rightarrow> ssl_method \<Rightarrow> heap \<Rightarrow> 'w \<Rightarrow>
     fault + (ending \<times> SSLSocket option \<times> heap \<times> 'w)" where
  "SSLSocket_new os tls m h w =
     (case Socket_new os h w of (r, h, w) \<Rightarrow>
        case r of Throw e \<Rightarrow> Inr (Thrown e, None, h, w)
        | Ret base \<Rightarrow> fbind (SSL_construct os tls m base h w) (\<lambda>(r, this, h, w).
            Inr (r, Some this, h, w)))"

definition SSLSocket_adopt ::
    "'w os \<Rightarrow> 'w openssl \<Rightarrow> int \<Rightarrow> ssl_method \<Rightarrow> heap \<Rightarrow> 'w \<Rightarrow>
     fault + (ending \<times> SSLSocket option \<times> heap \<times> 'w)" where
  "SSLSocket_adopt os tls s m h w =
     (case Socket_adopt s h of (base, h) \<Rightarrow>
        fbind (SSL_construct os tls m base h w) (\<lambda>(r, this, h, w). Inr (r, Some this, h, w)))"

text \<open>The copy constructor copies the base class only. (\<open>ssl_method\<close> is not read again.)\<close>

definition SSLSocket_copy :: "SSLSocket \<Rightarrow> heap \<Rightarrow> fault + (SSLSocket \<times> heap)" where
  "SSLSocket_copy oth h =
     fbind (Socket_copy (Socket.truncate oth) h) (\<lambda>(base, h).
       Inr (Socket.extend base (SSLSocket.fields Indeterminate Indeterminate (ssl_meth oth)), h))"

text \<open>\<open>Close\<close> frees the session and the context and leaves the pointers as they are.\<close>

definition SSL_Close :: "'w openssl \<Rightarrow> ('a) SSLSocket_scheme \<Rightarrow> 'w \<Rightarrow> fault + 'w" where
  "SSL_Close tls this w =
     fbind (handle (ssl_live tls w) (ssl this)) (\<lambda>s.
       fbind (free_ssl tls (ssl this) (SSL_shutdown tls s w)) (free_ctx tls (ctx this)))"

definition SSL_dtor :: "'w os \<Rightarrow> 'w openssl \<Rightarrow> ('a) SSLSocket_scheme \<Rightarrow> heap \<Rightarrow> 'w \<Rightarrow> fault + (heap \<times> 'w)" where
  "SSL_dtor os tls this h w =
     fbind (SSL_Close tls this w) (Socket_dtor os (Socket.truncate this) h)"

section \<open>Reading and writing\<close>

text \<open>
  The loop of \<open>ReceiveBytes\<close>. Its buffer size is \<open>SSL_READ_BUFFER\<close> in every iteration; \<open>SSL_pending\<close> only
  decides whether there is another one. On the end of the data (\<open>SSL_ERROR_ZERO_RETURN\<close>) the session is
  closed, that is, freed.
\<close>

definition SSL_READ_BUFFER :: nat where "SSL_READ_BUFFER = 1024"

partial_function (option) ssl_receive_loop ::
    "'w openssl \<Rightarrow> SSLSocket \<Rightarrow> bytes \<Rightarrow> 'w \<Rightarrow> (fault + (bytes \<times> 'w)) option" where
  "ssl_receive_loop tls this ret w =
     (case handle (ssl_live tls w) (ssl this) of
        Inl e \<Rightarrow> Some (Inl e)
      | Inr s \<Rightarrow>
        (case SSL_read tls s SSL_READ_BUFFER w of (got, w) \<Rightarrow>
           case got of
             None \<Rightarrow>
               Some (case SSL_get_error tls s w of
                 Zero_return \<Rightarrow> fbind (SSL_Close tls this w) (\<lambda>w. Inr (ret, w))
               | Want_read \<Rightarrow> Inr (ret, w) | Want_write \<Rightarrow> Inr (ret, w) | Other_error \<Rightarrow> Inr (ret, w))
           | Some bs \<Rightarrow>
               if min (SSL_pending tls s w) (int SSL_READ_BUFFER) = 0 then Some (Inr (ret @ bs, w))
               else ssl_receive_loop tls this (ret @ bs) w))"

definition SSL_ReceiveBytes :: "'w openssl \<Rightarrow> SSLSocket \<Rightarrow> 'w \<Rightarrow> (fault + (bytes \<times> 'w)) option" where
  "SSL_ReceiveBytes tls this w = ssl_receive_loop tls this [] w"

definition SSL_ReceiveLine :: "'w openssl \<Rightarrow> SSLSocket \<Rightarrow> 'w \<Rightarrow> (fault + (bytes \<times> 'w)) option" where
  "SSL_ReceiveLine tls this w =
     (case handle (ssl_live tls w) (ssl this) of
        Inl e \<Rightarrow> Some (Inl e)
      | Inr s \<Rightarrow> map_option Inr (line_loop (SSL_read tls s) [] w))"

text \<open>
  \<open>RecvBlocking\<close>, with the same unsigned result as in \<open>Socket\<close>; the answer of \<open>ioctl\<close> is ignored. The
  length is converted to the \<open>int\<close> that \<open>SSL_read\<close> takes, which refuses a negative one.
\<close>

definition ssl_read_int :: "'w openssl \<Rightarrow> nat \<Rightarrow> 'w reader" where
  "ssl_read_int tls s n w =
     (let num = sint (word_of_nat n :: u32)
      in if num < 0 then (None, w) else SSL_read tls s (nat num) w)"

definition SSL_RecvBlocking ::
    "'w os \<Rightarrow> 'w openssl \<Rightarrow> SSLSocket \<Rightarrow> bytes \<Rightarrow> u64 \<Rightarrow> 'w \<Rightarrow> (fault + (int \<times> bytes \<times> 'w)) option" where
  "SSL_RecvBlocking os tls this buffer len w =
     (case os_fionread os (sock_fd this) w of (_, w) \<Rightarrow>
        case handle (ssl_live tls w) (ssl this) of
          Inl e \<Rightarrow> Some (Inl e)
        | Inr s \<Rightarrow> blocking_loop (ssl_read_int tls s) len buffer 0 len w)"

definition SSL_SendLine :: "'w openssl \<Rightarrow> SSLSocket \<Rightarrow> bytes \<Rightarrow> 'w \<Rightarrow> fault + 'w" where
  "SSL_SendLine tls this line w =
     fbind (handle (ssl_live tls w) (ssl this)) (\<lambda>s. Inr (SSL_write tls s (line @ [10]) w))"

text \<open>\<open>SSL_write\<close> refuses a negative length.\<close>

definition SSL_SendBytes :: "'w openssl \<Rightarrow> SSLSocket \<Rightarrow> bytes \<Rightarrow> int \<Rightarrow> 'w \<Rightarrow> fault + 'w" where
  "SSL_SendBytes tls this buffer len w =
     fbind (handle (ssl_live tls w) (ssl this)) (\<lambda>s.
       if 0 \<le> len \<and> len \<le> int (length buffer) then Inr (SSL_write tls s (take (nat len) buffer) w)
       else if len < 0 then Inr w else Inl OutOfBounds)"

end
