(* ===== verification/Tls_Client.thy ===== *)
theory Tls_Client
  imports Tls
begin

text \<open>
  \<open>CClientSSLSocket\<close> (\<open>socket/CClientSSLSocket.h\<close>, \<open>.cpp\<close>): a TLS client. The resolver for addresses,
  \<open>inet_addr\<close> followed by \<open>gethostbyaddr\<close>, is the parameter \<open>by_address\<close>.
\<close>

record CClientSSLSocket = SSLSocket +
  ssl_ServerName :: string
  ssl_ServerPort :: int
  ssl_HostPointer :: "hostent option"

text \<open>In the branch for addresses nothing throws, and the result may be null.\<close>

definition SSL_Resolve ::
    "'w os \<Rightarrow> (string \<Rightarrow> 'w \<Rightarrow> hostent option \<times> 'w) \<Rightarrow> string \<Rightarrow> CClientSSLSocket \<Rightarrow> 'w \<Rightarrow>
     bool outcome \<times> CClientSSLSocket \<times> 'w" where
  "SSL_Resolve os by_address host this w =
     (if isalpha (first_char host) then
        let (hp, w) = os_gethostbyname os host w; this = this\<lparr>ssl_HostPointer := hp\<rparr>
        in if hp = None then (Throw (os_strerror os (os_errno os w)), this, w) else (Ret True, this, w)
      else
        let (hp, w) = by_address host w in (Ret True, this\<lparr>ssl_HostPointer := hp\<rparr>, w))"

text \<open>The log line makes a string of the name and dereferences the address, before anything else does.\<close>

definition TcpConnect ::
    "'w os \<Rightarrow> (string \<Rightarrow> 'w \<Rightarrow> hostent option \<times> 'w) \<Rightarrow> CClientSSLSocket \<Rightarrow> 'w \<Rightarrow>
     fault + (unit outcome \<times> CClientSSLSocket \<times> 'w)" where
  "TcpConnect os by_address this w =
     (case SSL_Resolve os by_address (ssl_ServerName this) this w of (r, this, w) \<Rightarrow>
        case r of Throw e \<Rightarrow> Inr (Throw e, this, w)
        | Ret _ \<Rightarrow>
          (case ssl_HostPointer this of None \<Rightarrow> Inl NullDeref
           | Some hp \<Rightarrow>
             (case (h_name hp, h_addr hp) of
                (Some _, Some a) \<Rightarrow>
                  let addr = \<lparr>sin_port = word_of_int (ssl_ServerPort this), sin_addr = a\<rparr>;
                      (r, w) = os_connect os (sock_fd this) addr w
                  in if r \<noteq> 0 then Inr (Throw (os_strerror os (os_errno os w)), this, w)
                     else Inr (Ret (), this, w)
              | _ \<Rightarrow> Inl NullDeref)))"

definition SSLConnect ::
    "'w openssl \<Rightarrow> CClientSSLSocket \<Rightarrow> 'w \<Rightarrow> fault + (unit outcome \<times> CClientSSLSocket \<times> 'w)" where
  "SSLConnect tls this w =
     fbind (handle (ctx_live tls w) (ctx this)) (\<lambda>c.
       let (s, w) = SSL_new tls c w; this = this\<lparr>ssl := to_slot s\<rparr>
       in fbind (handle (ssl_live tls w) (ssl this)) (\<lambda>s.
            let w = SSL_set_fd tls s (sock_fd this) w;
                (r, w) = SSL_set_host_name tls s (ssl_ServerName this) w
            in if r = 0 then fbind (handle_error tls this w) (\<lambda>w.
                 Inr (Throw ''Failed to set the SNI hostname\<newline>'', this, w))
            else let (r, w) = SSL_set1_host tls s (ssl_ServerName this) w
            in if r = 0 then fbind (handle_error tls this w) (\<lambda>w.
                 Inr (Throw ''Failed to set the certificate verification hostname'', this, w))
            else let (r, w) = SSL_connect tls s w
            in if r = 1 then Inr (Ret (), this, w)
               else fbind (handle_error tls this w) (\<lambda>w.
                 Inr (Throw ''SSL connection to server failed\<newline>'', this, w))))"

definition SSL_client_connect ::
    "'w os \<Rightarrow> 'w openssl \<Rightarrow> (string \<Rightarrow> 'w \<Rightarrow> hostent option \<times> 'w) \<Rightarrow> CClientSSLSocket \<Rightarrow> 'w \<Rightarrow>
     fault + (unit outcome \<times> CClientSSLSocket \<times> 'w)" where
  "SSL_client_connect os tls by_address this w =
     fbind (TcpConnect os by_address this w) (\<lambda>(r, this, w).
       case r of Throw e \<Rightarrow> Inr (Throw e, this, w) | Ret _ \<Rightarrow> SSLConnect tls this w)"

text \<open>
  The rest of either constructor after the base class: the name is copied and a connection made. An
  exception of the connection destroys the base class \<open>SSLSocket\<close>, whose destructor closes the session.
\<close>

definition finish_client ::
    "'w os \<Rightarrow> 'w openssl \<Rightarrow> (CClientSSLSocket \<Rightarrow> 'w \<Rightarrow> fault + (unit outcome \<times> CClientSSLSocket \<times> 'w)) \<Rightarrow>
     string \<Rightarrow> int \<Rightarrow> ending \<times> SSLSocket option \<times> heap \<times> 'w \<Rightarrow>
     fault + (ending \<times> CClientSSLSocket option \<times> heap \<times> 'w)" where
  "finish_client os tls connect server_name port = (\<lambda>(r, base, h, w).
     case (r, base) of
       (Done, Some base) \<Rightarrow>
         fbind (strcpy SERVER_NAME_SIZE server_name) (\<lambda>name.
         fbind (connect (SSLSocket.extend base (CClientSSLSocket.fields name port None)) w) (\<lambda>(q, this, w).
           case q of Ret _ \<Rightarrow> Inr (Done, Some this, h, w)
           | Throw e \<Rightarrow> fbind (SSL_dtor os tls this h w) (\<lambda>(h, w). Inr (Thrown e, None, h, w))))
     | _ \<Rightarrow> Inr (r, None, h, w))"

definition SSLClient_new ::
    "'w os \<Rightarrow> 'w openssl \<Rightarrow> (string \<Rightarrow> 'w \<Rightarrow> hostent option \<times> 'w) \<Rightarrow> string \<Rightarrow> int \<Rightarrow> heap \<Rightarrow> 'w \<Rightarrow>
     fault + (ending \<times> CClientSSLSocket option \<times> heap \<times> 'w)" where
  "SSLClient_new os tls by_address server_name client_port h w =
     fbind (SSLSocket_new os tls Client_method h w)
       (finish_client os tls (SSL_client_connect os tls by_address) server_name client_port)"

definition SSLClient_adopt ::
    "'w os \<Rightarrow> 'w openssl \<Rightarrow> int \<Rightarrow> string \<Rightarrow> int \<Rightarrow> heap \<Rightarrow> 'w \<Rightarrow>
     fault + (ending \<times> CClientSSLSocket option \<times> heap \<times> 'w)" where
  "SSLClient_adopt os tls s server_name server_port h w =
     fbind (SSLSocket_adopt os tls s Client_method h w)
       (finish_client os tls (SSLConnect tls) server_name server_port)"

end
