(* ===== verification/Tls_Env.thy ===== *)
theory Tls_Env
  imports Tls_Client
begin

text \<open>
  The contracts of OpenSSL that the TLS sockets rely on: the life of contexts and sessions (the locale
  \<open>tls_env\<close>) and the bytes that a session delivers (\<open>tls_stream\<close>), with a concrete instance of both.
\<close>

section \<open>The contract\<close>

definition same_resources :: "('w \<Rightarrow> int set) \<Rightarrow> 'w openssl \<Rightarrow> 'w \<Rightarrow> 'w \<Rightarrow> bool" where
  "same_resources opened tls w w' \<longleftrightarrow>
     opened w' = opened w \<and> ssl_live tls w' = ssl_live tls w \<and> ctx_live tls w' = ctx_live tls w"

text \<open>
  \<open>SSL_CTX_new\<close> and \<open>SSL_new\<close> allocate a handle that was not live, or nothing; the two functions that free
  release one; no other call allocates or frees a handle, or opens or closes a descriptor.
\<close>

locale tls_env = fd_table +
  fixes tls :: "'a openssl" and by_address :: "string \<Rightarrow> 'a \<Rightarrow> hostent option \<times> 'a"
  assumes new_ctx: "SSL_CTX_new tls m w = (c, w') \<Longrightarrow>
      opened w' = opened w \<and> ssl_live tls w' = ssl_live tls w \<and>
      (case c of None \<Rightarrow> ctx_live tls w' = ctx_live tls w
       | Some n \<Rightarrow> n \<notin> ctx_live tls w \<and> ctx_live tls w' = insert n (ctx_live tls w))"
    and new_ssl: "SSL_new tls k w = (s, w') \<Longrightarrow>
      opened w' = opened w \<and> ctx_live tls w' = ctx_live tls w \<and>
      (case s of None \<Rightarrow> ssl_live tls w' = ssl_live tls w
       | Some n \<Rightarrow> n \<notin> ssl_live tls w \<and> ssl_live tls w' = insert n (ssl_live tls w))"
    and frees_ssl: "opened (SSL_free tls n w) = opened w" "ctx_live tls (SSL_free tls n w) = ctx_live tls w"
      "ssl_live tls (SSL_free tls n w) = ssl_live tls w - {n}"
    and frees_ctx: "opened (SSL_CTX_free tls n w) = opened w" "ssl_live tls (SSL_CTX_free tls n w) = ssl_live tls w"
      "ctx_live tls (SSL_CTX_free tls n w) = ctx_live tls w - {n}"
    and calls_keep: "same_resources opened tls w (SSL_set_fd tls n fd w)"
      "same_resources opened tls w (SSL_shutdown tls n w)"
      "same_resources opened tls w (snd (SSL_connect tls n w))"
      "same_resources opened tls w (snd (SSL_set_host_name tls n name w))"
      "same_resources opened tls w (snd (SSL_set1_host tls n name w))"
      "same_resources opened tls w (CTX_set_verify tls n b w)"
      "same_resources opened tls w (snd (CTX_default_paths tls n w))"
      "same_resources opened tls w (snd (CTX_min_proto tls n w))"
      "same_resources opened tls w (snd (by_address name w))"
    and os_keeps: "os_socket os w = (fd, w') \<Longrightarrow> ssl_live tls w' = ssl_live tls w \<and> ctx_live tls w' = ctx_live tls w"
      "os_close os fd w = (r, w') \<Longrightarrow> ssl_live tls w' = ssl_live tls w \<and> ctx_live tls w' = ctx_live tls w"
      "os_connect os fd a w = (r, w') \<Longrightarrow> ssl_live tls w' = ssl_live tls w \<and> ctx_live tls w' = ctx_live tls w"
      "os_gethostbyname os name w = (hp, w') \<Longrightarrow> ssl_live tls w' = ssl_live tls w \<and> ctx_live tls w' = ctx_live tls w"
      "os_fionread os fd w = (avail, w') \<Longrightarrow> ssl_live tls w' = ssl_live tls w \<and> ctx_live tls w' = ctx_live tls w"
begin

lemma call_keeps:
  "SSL_connect tls n w = (r, w') \<Longrightarrow> same_resources opened tls w w'"
  "SSL_set_host_name tls n name w = (r, w') \<Longrightarrow> same_resources opened tls w w'"
  "SSL_set1_host tls n name w = (r, w') \<Longrightarrow> same_resources opened tls w w'"
  "CTX_default_paths tls n w = (r, w') \<Longrightarrow> same_resources opened tls w w'"
  "CTX_min_proto tls n w = (r, w') \<Longrightarrow> same_resources opened tls w w'"
  "by_address name w = (hp, w') \<Longrightarrow> same_resources opened tls w w'"
  "os_connect os fd a w = (r, w') \<Longrightarrow> same_resources opened tls w w'"
  "os_gethostbyname os name w = (hp, w') \<Longrightarrow> same_resources opened tls w w'"
  using calls_keep(3-5,7-9) os_keeps(3,4) connect_keeps lookup_keeps
  by (metis snd_conv, metis snd_conv, metis snd_conv, metis snd_conv, metis snd_conv, metis snd_conv,
      simp add: same_resources_def, simp add: same_resources_def)

text \<open>A closed TLS socket: its session and its context are gone, and every use of it is a fault.\<close>

lemma close_frees:
  assumes "SSL_Close tls this w = Inr w'"
  shows "\<exists>s. ssl this = Ptr s \<and> s \<in> ssl_live tls w \<and> ssl_live tls w' = ssl_live tls w - {s} \<and>
    (\<forall>c. ctx this = Ptr c \<longrightarrow> ctx_live tls w' = ctx_live tls w - {c}) \<and> opened w' = opened w"
proof -
  obtain s where s: "ssl this = Ptr s" "s \<in> ssl_live tls w"
    using assms by (auto simp: SSL_Close_def fbind_eq_Inr_iff handle_Inr_iff)
  note k = calls_keep(2) [of w s, unfolded same_resources_def]
  have "free_ctx tls (ctx this) (SSL_free tls s (SSL_shutdown tls s w)) = Inr w'"
    using assms s k by (simp add: SSL_Close_def free_ssl_def)
  then have "ctx this = Null \<and> w' = SSL_free tls s (SSL_shutdown tls s w) \<or>
    (\<exists>c. ctx this = Ptr c \<and> w' = SSL_CTX_free tls c (SSL_free tls s (SSL_shutdown tls s w)))"
    by (auto simp: free_ctx_def fbind_eq_Inr_iff handle_Inr_iff split: if_splits)
  then show ?thesis using s k frees_ssl frees_ctx by auto
qed

lemma close_works:
  assumes "ssl this = Ptr s" "s \<in> ssl_live tls w" "ctx this = Ptr c" "c \<in> ctx_live tls w"
  shows "\<exists>w'. SSL_Close tls this w = Inr w'"
  using assms calls_keep(2) [of w s, unfolded same_resources_def] frees_ssl
  by (simp add: SSL_Close_def free_ssl_def free_ctx_def)

lemma error_frees:
  assumes "handle_error tls this w = Inr w'" and "ssl this = Ptr s"
  shows "s \<notin> ssl_live tls w'"
  using assms frees_ssl frees_ctx
  by (auto simp: handle_error_def free_ssl_def free_ctx_def fbind_eq_Inr_iff handle_Inr_iff split: if_splits)

section \<open>Construction of a client\<close>

lemma client_context_keeps:
  assumes "configure_client_context tls this w = Inr (Done, w')"
  shows "same_resources opened tls w w' \<and> (\<exists>c. ctx this = Ptr c \<and> c \<in> ctx_live tls w)"
proof -
  obtain c where c: "ctx this = Ptr c" "c \<in> ctx_live tls w"
    using assms by (auto simp: configure_client_context_def Let_def fbind_eq_Inr_iff handle_Inr_iff)
  define b where "b = (case getenv tls ''SSL_VERIFY_CERT'' of None \<Rightarrow> True | Some v \<Rightarrow> v = ''true'')"
  obtain r w1 where w1: "CTX_default_paths tls c (CTX_set_verify tls c b w) = (r, w1)" by fastforce
  obtain r' w2 where w2: "CTX_min_proto tls c w1 = (r', w2)" by fastforce
  have "w' = w2"
    using assms c w1 w2 by (auto simp: configure_client_context_def b_def Let_def fbind_eq_Inr_iff split: if_splits)
  then show ?thesis
    using c calls_keep(6) [of w c b] call_keeps(4) [OF w1] call_keeps(5) [OF w2]
    by (simp add: same_resources_def)
qed

lemma ssl_base:
  assumes "SSLSocket_new os tls Client_method h w = Inr (Done, base, h1, w1)"
  shows "\<exists>this fd c. base = Some this \<and> sock_fd this = fd \<and> refCounter this = next_counter h \<and>
    ctx this = Ptr c \<and> ssl this = Indeterminate \<and> fd \<notin> opened w \<and> opened w1 = insert fd (opened w) \<and>
    c \<notin> ctx_live tls w \<and> ctx_live tls w1 = insert c (ctx_live tls w) \<and> ssl_live tls w1 = ssl_live tls w \<and>
    counters h1 = (counters h)(next_counter h \<mapsto> 1)"
proof -
  obtain fd v where fd: "os_socket os w = (fd, v)" by fastforce
  have "fd \<noteq> - 1"
    using assms fd by (auto simp: SSLSocket_new_def Socket_new_def CreateSocket_def INVALID_SOCKET_def Start_def)
  let ?s = "\<lparr>sock_fd = fd, refCounter = next_counter h\<rparr> :: Socket"
  let ?h = "h\<lparr>nofSockets := nofSockets h + 1, counters := (counters h)(next_counter h \<mapsto> 1),
      next_counter := Suc (next_counter h)\<rparr>"
  have "Socket_new os h w = (Ret ?s, ?h, v)"
    using fd \<open>fd \<noteq> - 1\<close>
    by (simp add: Socket_new_def CreateSocket_def INVALID_SOCKET_def Start_def new_counter_def Let_def)
  then obtain this where i: "SSL_construct os tls Client_method ?s ?h v = Inr (Done, this, h1, w1)"
    "base = Some this" using assms by (auto simp: SSLSocket_new_def fbind_eq_Inr_iff)
  let ?me = "Socket.extend ?s (SSLSocket.fields Indeterminate Indeterminate Client_method)"
  obtain q this1 u1 where q: "SSL_Init tls ?me v = Inr (q, this1, u1)"
    using i(1) by (auto simp: SSL_construct_def fbind_eq_Inr_iff)
  have j: "SSL_Init tls ?me v = Inr (Done, this, w1)" "h1 = ?h"
    using i(1) q by (cases q; auto simp: SSL_construct_def fbind_eq_Inr_iff)+
  obtain k u where k: "SSL_CTX_new tls Client_method v = (k, u)" by fastforce
  then obtain c where c: "k = Some c" "this = ?me\<lparr>ctx := Ptr c\<rparr>"
    "configure_client_context tls this u = Inr (Done, w1)"
    using j(1) by (cases k) (auto simp: SSL_Init_def create_context_def to_slot_def Socket.extend_def
        SSLSocket.fields_def fbind_eq_Inr_iff)
  show ?thesis
    using i(2) j(2) c(1,2) client_context_keeps [OF c(3)] new_ctx [OF k] os_keeps(1) [OF fd]
      socket_opens [OF fd] \<open>fd \<noteq> - 1\<close>
    by (auto simp: same_resources_def Socket.extend_def SSLSocket.fields_def)
qed

lemma tcp_keeps:
  assumes "TcpConnect os by_address this w = Inr (r, this', w')"
  shows "same_resources opened tls w w' \<and> SSLSocket.truncate this' = SSLSocket.truncate this \<and>
    sock_fd this' = sock_fd this \<and> refCounter this' = refCounter this \<and> ctx this' = ctx this \<and>
    ssl this' = ssl this"
proof -
  obtain q this1 w1 where q: "SSL_Resolve os by_address (ssl_ServerName this) this w = (q, this1, w1)"
    by (metis prod_cases3)
  have r: "same_resources opened tls w w1 \<and> (\<exists>hp. this1 = this\<lparr>ssl_HostPointer := hp\<rparr>)"
  proof (cases "isalpha (first_char (ssl_ServerName this))")
    case True
    obtain hp v where "os_gethostbyname os (ssl_ServerName this) w = (hp, v)" by fastforce
    with call_keeps(8) [OF this] q True show ?thesis by (auto simp: SSL_Resolve_def Let_def split: if_splits)
  next
    case False
    obtain hp v where "by_address (ssl_ServerName this) w = (hp, v)" by fastforce
    with call_keeps(6) [OF this] q False show ?thesis by (auto simp: SSL_Resolve_def)
  qed
  have "this' = this1 \<and> same_resources opened tls w1 w'"
    using assms q call_keeps(7)
    by (auto simp: TcpConnect_def Let_def same_resources_def split: outcome.splits option.splits prod.splits if_splits)
  with r show ?thesis by (auto simp: same_resources_def SSLSocket.truncate_def)
qed

text \<open>The handshake: it leaves a live session, or one that was freed again.\<close>

lemma handshake:
  assumes "SSLConnect tls this w = Inr (r, this', w')"
  shows "\<exists>s. this' = this\<lparr>ssl := Ptr s\<rparr> \<and> (case r of
      Ret _ \<Rightarrow> s \<notin> ssl_live tls w \<and> ssl_live tls w' = insert s (ssl_live tls w) \<and>
        ctx_live tls w' = ctx_live tls w \<and> opened w' = opened w
    | Throw e \<Rightarrow> s \<notin> ssl_live tls w')"
proof -
  obtain c where c: "handle (ctx_live tls w) (ctx this) = Inr c"
    using assms by (auto simp: SSLConnect_def fbind_eq_Inr_iff)
  obtain k v where k: "SSL_new tls c w = (k, v)" by fastforce
  then obtain s where s: "k = Some s"
    using assms c by (cases k) (auto simp: SSLConnect_def to_slot_def)
  note n = new_ssl [OF k, unfolded s, simplified]
  define this1 where "this1 = this\<lparr>ssl := Ptr s\<rparr>"
  define v0 where "v0 = SSL_set_fd tls s (sock_fd this1) v"
  obtain a v1 where a: "SSL_set_host_name tls s (ssl_ServerName this1) v0 = (a, v1)" by fastforce
  obtain b v2 where b: "SSL_set1_host tls s (ssl_ServerName this1) v1 = (b, v2)" by fastforce
  obtain d v3 where d: "SSL_connect tls s v2 = (d, v3)" by fastforce
  have run: "SSLConnect tls this w =
      (if a = 0 then fbind (handle_error tls this1 v1) (\<lambda>w. Inr (Throw ''Failed to set the SNI hostname\<newline>'', this1, w))
       else if b = 0 then fbind (handle_error tls this1 v2) (\<lambda>w.
         Inr (Throw ''Failed to set the certificate verification hostname'', this1, w))
       else if d = 1 then Inr (Ret (), this1, v3)
       else fbind (handle_error tls this1 v3) (\<lambda>w. Inr (Throw ''SSL connection to server failed\<newline>'', this1, w)))"
    using c k s n a b d by (simp add: SSLConnect_def to_slot_def Let_def this1_def v0_def)
  have live: "same_resources opened tls v v3"
    using calls_keep(1) [of v s "sock_fd this1"] call_keeps(1) [OF d] call_keeps(2) [OF a] call_keeps(3) [OF b]
    by (simp add: same_resources_def v0_def)
  have "ssl this1 = Ptr s" by (simp add: this1_def)
  have this': "this' = this1" using assms run by (auto simp: fbind_eq_Inr_iff split: if_splits)
  show ?thesis
  proof (cases r)
    case (Ret u)
    then have "w' = v3" using assms run by (auto simp: fbind_eq_Inr_iff split: if_splits)
    then show ?thesis using Ret this' n live by (auto simp: this1_def same_resources_def)
  next
    case (Throw e)
    then obtain u where "handle_error tls this1 u = Inr w'"
      using assms run by (auto simp: fbind_eq_Inr_iff split: if_splits)
    from error_frees [OF this \<open>ssl this1 = Ptr s\<close>] Throw this' show ?thesis by (auto simp: this1_def)
  qed
qed

lemma client_new:
  assumes "SSLClient_new os tls by_address name port h w = Inr (Done, client, h1, w1)"
  shows "\<exists>this c x. client = Some this \<and> refCounter this = next_counter h \<and> ctx this = Ptr c \<and>
    ssl this = Ptr x \<and> sock_fd this \<notin> opened w \<and> opened w1 = insert (sock_fd this) (opened w) \<and>
    c \<notin> ctx_live tls w \<and> ctx_live tls w1 = insert c (ctx_live tls w) \<and>
    x \<notin> ssl_live tls w \<and> ssl_live tls w1 = insert x (ssl_live tls w) \<and>
    counters h1 = (counters h)(next_counter h \<mapsto> 1)"
proof -
  obtain b base h0 w0 where b: "SSLSocket_new os tls Client_method h w = Inr (b, base, h0, w0)"
    and f: "finish_client os tls (SSL_client_connect os tls by_address) name port (b, base, h0, w0) =
      Inr (Done, client, h1, w1)"
    using assms by (auto simp: SSLClient_new_def fbind_eq_Inr_iff)
  have "b = Done" using f by (cases b; cases base; simp add: finish_client_def)
  from ssl_base [OF b [unfolded this]] obtain me c where me: "base = Some me"
    "refCounter me = next_counter h" "ctx me = Ptr c" "sock_fd me \<notin> opened w"
    "opened w0 = insert (sock_fd me) (opened w)" "c \<notin> ctx_live tls w"
    "ctx_live tls w0 = insert c (ctx_live tls w)" "ssl_live tls w0 = ssl_live tls w"
    "counters h0 = (counters h)(next_counter h \<mapsto> 1)" by blast
  obtain n where n: "strcpy SERVER_NAME_SIZE name = Inr n"
    using f me(1) \<open>b = Done\<close> by (auto simp: finish_client_def fbind_eq_Inr_iff)
  let ?c0 = "SSLSocket.extend me (CClientSSLSocket.fields n port None)"
  obtain q this v where q: "SSL_client_connect os tls by_address ?c0 w0 = Inr (q, this, v)"
    using f me(1) n \<open>b = Done\<close> by (auto simp: finish_client_def fbind_eq_Inr_iff)
  have r: "q = Ret ()" "client = Some this" "h1 = h0" "w1 = v"
    using f me(1) n q \<open>b = Done\<close> by (cases q; auto simp: finish_client_def fbind_eq_Inr_iff)+
  obtain q1 this1 v1 where t: "TcpConnect os by_address ?c0 w0 = Inr (q1, this1, v1)"
    using q by (auto simp: SSL_client_connect_def fbind_eq_Inr_iff)
  have s: "SSLConnect tls this1 v1 = Inr (Ret (), this, w1)"
    using q t r by (cases q1) (auto simp: SSL_client_connect_def)
  note k = tcp_keeps [OF t]
  obtain x where x: "this = this1\<lparr>ssl := Ptr x\<rparr>" "x \<notin> ssl_live tls v1"
    "ssl_live tls w1 = insert x (ssl_live tls v1)" "ctx_live tls w1 = ctx_live tls v1" "opened w1 = opened v1"
    using handshake [OF s] by auto
  have o: "sock_fd this = sock_fd me" "refCounter this = next_counter h" "ctx this = Ptr c" "ssl this = Ptr x"
    using k me(2,3) x(1) by (simp_all add: SSLSocket.extend_def)
  have l: "ctx_live tls w1 = insert c (ctx_live tls w)" "ssl_live tls w1 = insert x (ssl_live tls w)"
    "x \<notin> ssl_live tls w" "opened w1 = insert (sock_fd me) (opened w)"
    using k x me(5,7,8) by (auto simp: same_resources_def)
  show ?thesis using r(2,3) o l me(4,6,9) by auto
qed

end

section \<open>Receiving\<close>

text \<open>A session delivers a stream of bytes; it has none pending at the end of the stream.\<close>

locale tls_stream = byte_source "SSL_read tls s" stream fails for tls :: "'w openssl" and s stream fails +
  assumes reads_keep: "SSL_read tls s n w = (got, w') \<Longrightarrow> ssl_live tls w' = ssl_live tls w"
    and pending_some: "SSL_pending tls s w \<noteq> 0 \<Longrightarrow> stream w \<noteq> []"
begin

lemma receive_loop:
  assumes "ssl this = Ptr s" and "s \<in> ssl_live tls w"
  shows "\<exists>bs v. stream w = bs @ stream v \<and>
    (ssl_receive_loop tls this ret w = Some (Inr (ret @ bs, v)) \<and>
       (bs = [] \<longrightarrow> stream w = [] \<or> fails v < fails w) \<or>
     SSL_get_error tls s v = Zero_return \<and>
       ssl_receive_loop tls this ret w = Some (fbind (SSL_Close tls this v) (\<lambda>w. Inr (ret @ bs, w))))"
  using assms(2)
proof (induction "length (stream w)" arbitrary: ret w rule: less_induct)
  case less
  obtain got w1 where g: "SSL_read tls s SSL_READ_BUFFER w = (got, w1)" by fastforce
  have live: "s \<in> ssl_live tls w1" using reads_keep [OF g] less.prems by simp
  show ?case
  proof (cases got)
    case None
    have "ssl_receive_loop tls this ret w =
        Some (case SSL_get_error tls s w1 of
          Zero_return \<Rightarrow> fbind (SSL_Close tls this w1) (\<lambda>w. Inr (ret, w))
        | Want_read \<Rightarrow> Inr (ret, w1) | Want_write \<Rightarrow> Inr (ret, w1) | Other_error \<Rightarrow> Inr (ret, w1))"
      using less.prems assms(1) g None by (subst ssl_receive_loop.simps) simp
    then show ?thesis
      using refuses [OF g [unfolded None]]
      by (intro exI [of _ "[]"] exI [of _ w1]) (cases "SSL_get_error tls s w1"; simp)
  next
    case (Some bs)
    note t = takes [OF g [unfolded Some]]
    have step: "ssl_receive_loop tls this ret w =
        (if min (SSL_pending tls s w1) (int SSL_READ_BUFFER) = 0 then Some (Inr (ret @ bs, w1))
         else ssl_receive_loop tls this (ret @ bs) w1)"
      using less.prems assms(1) g Some by (subst ssl_receive_loop.simps) simp
    show ?thesis
    proof (cases "min (SSL_pending tls s w1) (int SSL_READ_BUFFER) = 0")
      case True
      then show ?thesis using step t by (intro exI [of _ bs] exI [of _ w1]) (auto simp: SSL_READ_BUFFER_def)
    next
      case False
      then have "SSL_pending tls s w1 \<noteq> 0" by (auto simp: SSL_READ_BUFFER_def)
      with pending_some have "stream w1 \<noteq> []" by blast
      then have "bs \<noteq> []" using t by (auto simp: SSL_READ_BUFFER_def)
      then have "length (stream w1) < length (stream w)" using t by simp
      from less.hyps [OF this live, of "ret @ bs"] obtain cs v where v: "stream w1 = cs @ stream v"
        "ssl_receive_loop tls this (ret @ bs) w1 = Some (Inr ((ret @ bs) @ cs, v)) \<or>
         SSL_get_error tls s v = Zero_return \<and>
         ssl_receive_loop tls this (ret @ bs) w1 = Some (fbind (SSL_Close tls this v) (\<lambda>w. Inr ((ret @ bs) @ cs, w)))"
        by blast
      have "stream w = (bs @ cs) @ stream v" using t v(1) by simp
      then show ?thesis
        using step False v(2) \<open>bs \<noteq> []\<close> unfolding append_assoc
        by (intro exI [of _ "bs @ cs"] exI [of _ v]) auto
    qed
  qed
qed

lemma ssl_line_calm:
  assumes "ssl this = Ptr s" and "s \<in> ssl_live tls w" and "fails w = 0"
  shows "\<exists>w'. SSL_ReceiveLine tls this w = Some (Inr (first_line (stream w), w')) \<and>
    stream w = first_line (stream w) @ stream w'"
  using line_calm [OF assms(3), of "[]"] assms(1,2) by (auto simp: SSL_ReceiveLine_def)

end

section \<open>A concrete instance\<close>

text \<open>A kernel with an OpenSSL that hands out ascending handles and whose handshakes end with \<open>t_shake\<close>.\<close>

record tls_state =
  t_ssl :: "nat set"
  t_ctx :: "nat set"
  t_next :: nat
  t_shake :: int

definition lift_call :: "('w \<Rightarrow> 'r \<times> 'w) \<Rightarrow> 'w \<times> 't \<Rightarrow> 'r \<times> 'w \<times> 't" where
  "lift_call f = (\<lambda>(w, t). case f w of (r, w) \<Rightarrow> (r, w, t))"

definition lift_os :: "'w os \<Rightarrow> ('w \<times> 't) os" where
  "lift_os os =
     \<lparr>os_errno = (\<lambda>(w, t). os_errno os w), os_socket = lift_call (os_socket os),
      os_close = (\<lambda>s. lift_call (os_close os s)), os_recv = (\<lambda>s n f. lift_call (os_recv os s n f)),
      os_send = (\<lambda>s bs. lift_call (os_send os s bs)), os_fionread = (\<lambda>s. lift_call (os_fionread os s)),
      os_getfl = (\<lambda>s. lift_call (os_getfl os s)), os_setfl = (\<lambda>s fl. lift_call (os_setfl os s fl)),
      os_select = (\<lambda>m fds tv. lift_call (os_select os m fds tv)),
      os_connect = (\<lambda>s a. lift_call (os_connect os s a)), os_bind = (\<lambda>s a. lift_call (os_bind os s a)),
      os_listen = (\<lambda>s n. lift_call (os_listen os s n)), os_accept = (\<lambda>s. lift_call (os_accept os s)),
      os_reuseport = (\<lambda>s. lift_call (os_reuseport os s)),
      os_gethostbyname = (\<lambda>n. lift_call (os_gethostbyname os n)), os_strerror = os_strerror os\<rparr>"

lemma lift_call_eq: "lift_call f p = (r, q) \<longleftrightarrow> f (fst p) = (r, fst q) \<and> snd q = snd p"
  by (cases p; cases q; cases "f (fst p)") (auto simp: lift_call_def)

type_synonym tls_world = "kernel \<times> tls_state"

definition fresh_handle :: "tls_state \<Rightarrow> nat set \<Rightarrow> nat option" where
  "fresh_handle t live = (if t_next t \<in> live then None else Some (t_next t))"

definition sim_tls :: "tls_world openssl" where
  "sim_tls =
     \<lparr>ssl_live = (\<lambda>(w, t). t_ssl t), ctx_live = (\<lambda>(w, t). t_ctx t),
      SSL_CTX_new = (\<lambda>m (w, t). case fresh_handle t (t_ctx t) of None \<Rightarrow> (None, w, t)
        | Some n \<Rightarrow> (Some n, w, t\<lparr>t_ctx := insert n (t_ctx t), t_next := n + 1\<rparr>)),
      SSL_CTX_free = (\<lambda>n (w, t). (w, t\<lparr>t_ctx := t_ctx t - {n}\<rparr>)),
      SSL_new = (\<lambda>k (w, t). case fresh_handle t (t_ssl t) of None \<Rightarrow> (None, w, t)
        | Some n \<Rightarrow> (Some n, w, t\<lparr>t_ssl := insert n (t_ssl t), t_next := n + 1\<rparr>)),
      SSL_free = (\<lambda>n (w, t). (w, t\<lparr>t_ssl := t_ssl t - {n}\<rparr>)),
      SSL_set_fd = (\<lambda>n fd w. w), SSL_accept = (\<lambda>n (w, t). (t_shake t, w, t)),
      SSL_connect = (\<lambda>n (w, t). (t_shake t, w, t)), SSL_shutdown = (\<lambda>n w. w),
      SSL_read = (\<lambda>s n (w, t). case os_recv sim 3 n NoFlags w of (r, w) \<Rightarrow> (r, w, t)),
      SSL_write = (\<lambda>s bs (w, t). (log (Sent 3 bs) w, t)), SSL_pending = (\<lambda>s (w, t). int (length (sim_in 3 w))),
      SSL_get_error = (\<lambda>s w. Want_read), SSL_set_host_name = (\<lambda>s n w. (1, w)), SSL_set1_host = (\<lambda>s n w. (1, w)),
      CTX_set_verify = (\<lambda>c b w. w), CTX_default_paths = (\<lambda>c w. (1, w)), CTX_min_proto = (\<lambda>c w. (1, w)),
      CTX_passphrase = (\<lambda>c p w. w), CTX_certificate = (\<lambda>c f w. (1, w)), CTX_private_key = (\<lambda>c f w. (1, w)),
      getenv = (\<lambda>v. None)\<rparr>"

definition sim_by_address :: "string \<Rightarrow> tls_world \<Rightarrow> hostent option \<times> tls_world" where
  "sim_by_address n w = (Some \<lparr>h_name = Some n, h_addr = Some 0x0A000001, h_storage = StaticStorage\<rparr>, w)"

lemma lift_fd_table:
  assumes "fd_table os opened" shows "fd_table (lift_os os) (opened \<circ> fst)"
  by (unfold_locales; simp add: lift_os_def lift_call_eq;
      use assms in \<open>blast dest: fd_table.socket_opens fd_table.accept_opens fd_table.close_closes
        fd_table.connect_keeps fd_table.lookup_keeps fd_table.bind_keeps fd_table.listen_keeps
        fd_table.option_keeps fd_table.flags_keep fd_table.recv_keeps fd_table.send_keeps
        fd_table.fionread_keeps fd_table.select_keeps\<close>)

interpretation sim_tls: tls_env "lift_os sim" "k_open \<circ> fst" sim_tls sim_by_address
proof (intro tls_env.intro lift_fd_table sim.fd_table_axioms, unfold_locales)
qed (auto simp: sim_tls_def sim_by_address_def same_resources_def fresh_handle_def lift_os_def lift_call_eq
      split: prod.splits if_splits)

interpretation sim_tls: tls_stream sim_tls s "sim_in 3 \<circ> fst" "sim_fails 3 \<circ> fst" for s
proof (unfold_locales, goal_cases)
  case (1 n w bs w')
  then have "os_recv sim 3 n NoFlags (fst w) = (Some bs, fst w')"
    by (auto simp: sim_tls_def split: prod.splits)
  from sim.recv_takes [OF this] sim.recv_success [OF this] show ?case by auto
next
  case (2 n w w')
  then have "os_recv sim 3 n NoFlags (fst w) = (None, fst w')"
    by (auto simp: sim_tls_def split: prod.splits)
  from sim.recv_fails [OF this] sim.recv_failure [OF this] show ?case by simp
qed (auto simp: sim_tls_def split: prod.splits)

end
