(* ===== verification/Tls_Server.thy ===== *)
theory Tls_Server
  imports Tls_Env
begin

text \<open>
  The server side of \<open>SSLSocket\<close> (\<open>socket/SSLSocket.cpp\<close>): a TLS socket on an accepted descriptor, with
  the default method. What its construction acquires, and what each of its failures gives back.
\<close>

section \<open>The calls of a server\<close>

locale tls_server_env = tls_env +
  assumes server_calls_keep: "same_resources opened tls w (snd (SSL_accept tls n w))"
      "same_resources opened tls w (CTX_passphrase tls c p w)"
      "same_resources opened tls w (snd (CTX_certificate tls c file w))"
      "same_resources opened tls w (snd (CTX_private_key tls c file w))"
begin

lemma same_trans:
  "same_resources opened tls w v \<Longrightarrow> same_resources opened tls v u \<Longrightarrow> same_resources opened tls w u"
  by (simp add: same_resources_def)

lemma server_context_keeps:
  assumes "configure_server_context tls this w = Inr (r, w')"
  shows "same_resources opened tls w w' \<and>
    (getenv tls ''SSL_CERT_FILE_PATH'' = None \<or> getenv tls ''SSL_KEY_FILE_PATH'' = None \<longleftrightarrow> (\<exists>e. r = Thrown e))"
proof (cases "getenv tls ''SSL_CERT_FILE_PATH'' = None \<or> getenv tls ''SSL_KEY_FILE_PATH'' = None")
  case True
  then show ?thesis
    using assms by (auto simp: configure_server_context_def same_resources_def split: option.splits)
next
  case False
  then obtain cert key where e: "getenv tls ''SSL_CERT_FILE_PATH'' = Some cert" "getenv tls ''SSL_KEY_FILE_PATH'' = Some key"
    by auto
  obtain c where c: "handle (ctx_live tls w) (ctx this) = Inr c"
    using assms e by (auto simp: configure_server_context_def Let_def fbind_eq_Inr_iff)
  define w0 where "w0 = CTX_passphrase tls c (case getenv tls ''SSL_CERT_PASSPHRASE'' of None \<Rightarrow> [] | Some p \<Rightarrow> p) w"
  obtain a w1 where a: "CTX_certificate tls c cert w0 = (a, w1)" by fastforce
  obtain b w2 where b: "CTX_private_key tls c key w1 = (b, w2)" by fastforce
  have s: "same_resources opened tls w w0" "same_resources opened tls w0 w1" "same_resources opened tls w1 w2"
    using server_calls_keep(2) server_calls_keep(3) [of w0 c cert] server_calls_keep(4) [of w1 c key] a b
    by (simp_all add: w0_def)
  have "(r, w') = (if a \<le> 0 then (Exited, w1) else if b \<le> 0 then (Exited, w2) else (Done, w2))"
    using assms e c a b by (auto simp: configure_server_context_def w0_def Let_def split: if_splits)
  moreover have "same_resources opened tls w w1" "same_resources opened tls w w2"
    using s by (simp_all add: same_resources_def)
  ultimately show ?thesis using False by (simp split: if_splits)
qed

text \<open>The handshake of a server: on failure it frees both handles.\<close>

lemma accepting:
  assumes "SSL_accepting tls this w = Inr (r, this', w')" and "ctx this = Ptr c"
  shows "\<exists>x. x \<notin> ssl_live tls w \<and> this' = this\<lparr>ssl := Ptr x\<rparr> \<and> opened w' = opened w \<and> r \<noteq> Exited \<and>
    (if r = Done then ssl_live tls w' = insert x (ssl_live tls w) \<and> ctx_live tls w' = ctx_live tls w
     else ssl_live tls w' = ssl_live tls w \<and> ctx_live tls w' = ctx_live tls w - {c})"
proof -
  have c: "c \<in> ctx_live tls w"
    using assms by (auto simp: SSL_accepting_def fbind_eq_Inr_iff split: if_splits)
  obtain k v where k: "SSL_new tls c w = (k, v)" by fastforce
  then obtain x where x: "k = Some x"
    using assms c by (cases k) (auto simp: SSL_accepting_def to_slot_def)
  note n = new_ssl [OF k, unfolded x, simplified]
  define me where "me = this\<lparr>ssl := Ptr x\<rparr>"
  obtain d v1 where d: "SSL_accept tls x (SSL_set_fd tls x (sock_fd me) v) = (d, v1)" by fastforce
  have s: "same_resources opened tls v v1"
    using same_trans [OF calls_keep(1) [of v x "sock_fd me"] server_calls_keep(1) [of _ x]] d by simp
  have run: "SSL_accepting tls this w =
      (if d \<le> 0 then fbind (handle_error tls me v1) (\<lambda>w. Inr (Thrown ''Failed to establish an SSL connection.'', me, w))
       else Inr (Done, me, v1))"
    using assms(2) c k x n d by (simp add: SSL_accepting_def to_slot_def me_def Let_def)
  have me: "ssl me = Ptr x" "ctx me = Ptr c" using assms(2) by (simp_all add: me_def)
  have "handle_error tls me v1 = Inr (SSL_CTX_free tls c (SSL_free tls x v1))"
    using me n s c frees_ssl by (simp add: handle_error_def free_ssl_def free_ctx_def same_resources_def)
  then show ?thesis
    using assms(1) run n s c frees_ssl frees_ctx
    by (intro exI [of _ x]) (auto simp: me_def same_resources_def split: if_splits)
qed

lemma destroy_works:
  assumes "ssl this = Ptr x" "x \<in> ssl_live tls w" "ctx this = Ptr c" "c \<in> ctx_live tls w"
    and "counters h (refCounter this) = Some 1"
  shows "\<exists>h' w'. SSL_dtor os tls this h w = Inr (h', w') \<and> opened w' = opened w - {sock_fd this} \<and>
    ssl_live tls w' = ssl_live tls w - {x} \<and> ctx_live tls w' = ctx_live tls w - {c}"
proof -
  obtain w1 where w1: "SSL_Close tls this w = Inr w1" using close_works [OF assms(1-4)] by blast
  obtain z w2 where w2: "os_close os (sock_fd this) w1 = (z, w2)" by fastforce
  have "SSL_dtor os tls this h w = Inr (h\<lparr>counters := (counters h)(refCounter this := None),
      nofSockets := nofSockets h - 1\<rparr>, w2)"
    using w1 w2 assms(5) by (simp add: SSL_dtor_def Socket_dtor_def Socket.truncate_def Close_def Let_def)
  moreover have "opened w2 = opened w - {sock_fd this}" "ssl_live tls w2 = ssl_live tls w - {x}"
    "ctx_live tls w2 = ctx_live tls w - {c}"
    using close_frees [OF w1] assms(1,3) os_keeps(2) [OF w2] close_closes [OF w2] by auto
  ultimately show ?thesis by blast
qed

text \<open>What the construction leaves, and that it can be undone.\<close>

definition missing_config :: bool where
  "missing_config \<longleftrightarrow> getenv tls ''SSL_CERT_FILE_PATH'' = None \<or> getenv tls ''SSL_KEY_FILE_PATH'' = None"

lemma init_server:
  assumes "SSL_Init tls this w = Inr (r, this', w')" and "ssl_meth this = Server_method"
  shows "sock_fd this' = sock_fd this \<and> refCounter this' = refCounter this \<and> opened w' = opened w \<and>
    (case r of
       Done \<Rightarrow> \<exists>c x. ctx this' = Ptr c \<and> ssl this' = Ptr x \<and> c \<notin> ctx_live tls w \<and> x \<notin> ssl_live tls w \<and>
         ctx_live tls w' = insert c (ctx_live tls w) \<and> ssl_live tls w' = insert x (ssl_live tls w)
     | Thrown e \<Rightarrow> ssl_live tls w' = ssl_live tls w \<and>
         (if ctx this' = Null \<or> \<not> missing_config then ctx_live tls w' = ctx_live tls w
          else \<exists>c. c \<notin> ctx_live tls w \<and> ctx_live tls w' = insert c (ctx_live tls w))
     | Exited \<Rightarrow> True)"
proof -
  obtain k v where k: "SSL_CTX_new tls (ssl_meth this) w = (k, v)" by fastforce
  show ?thesis
  proof (cases k)
    case None
    then have "r = Thrown ''Unable to create SSL context''" "this' = this\<lparr>ctx := Null\<rparr>" "w' = v"
      using assms k by (simp_all add: SSL_Init_def create_context_def to_slot_def)
    then show ?thesis using new_ctx [OF k] None by simp
  next
    case (Some c)
    note n = new_ctx [OF k, unfolded Some, simplified]
    let ?me = "this\<lparr>ctx := Ptr c\<rparr>"
    obtain q u where q: "configure_server_context tls ?me v = Inr (q, u)"
      and r: "(if q \<noteq> Done then Inr (q, ?me, u) else SSL_accepting tls ?me u) = Inr (r, this', w')"
      using assms k Some by (auto simp: SSL_Init_def create_context_def to_slot_def fbind_eq_Inr_iff)
    note s = server_context_keeps [OF q]
    show ?thesis
    proof (cases "q = Done")
      case False
      then show ?thesis using r s n by (cases q) (auto simp: missing_config_def same_resources_def)
    next
      case True
      then have a: "SSL_accepting tls ?me u = Inr (r, this', w')" and m: "\<not> missing_config"
        using r s by (auto simp: missing_config_def)
      obtain x where x: "x \<notin> ssl_live tls u" "this' = ?me\<lparr>ssl := Ptr x\<rparr>" "opened w' = opened u" "r \<noteq> Exited"
        "if r = Done then ssl_live tls w' = insert x (ssl_live tls u) \<and> ctx_live tls w' = ctx_live tls u
         else ssl_live tls w' = ssl_live tls u \<and> ctx_live tls w' = ctx_live tls u - {c}"
        using accepting [OF a, of c] by auto
      then show ?thesis using s n m by (cases r) (auto simp: same_resources_def)
    qed
  qed
qed

end

interpretation sim_tls: tls_server_env "lift_os sim" "k_open \<circ> fst" sim_tls sim_by_address
  by unfold_locales (auto simp: sim_tls_def same_resources_def split: prod.splits)

text \<open>The same system with an environment in which every variable is set.\<close>

definition sim_server_tls :: "tls_world openssl" where
  "sim_server_tls = sim_tls\<lparr>getenv := (\<lambda>v. Some ''file.pem'')\<rparr>"

interpretation sim_server_tls: tls_server_env "lift_os sim" "k_open \<circ> fst" sim_server_tls sim_by_address
proof (intro tls_server_env.intro tls_env.intro lift_fd_table sim.fd_table_axioms, unfold_locales)
qed (auto simp: sim_server_tls_def sim_tls_def sim_by_address_def same_resources_def fresh_handle_def lift_os_def
      lift_call_eq split: prod.splits if_splits)

end
