(* ===== verification/Socket_Dispatch.thy ===== *)
theory Socket_Dispatch
  imports Tls_Client
begin

text \<open>
  The virtual functions of \<open>Socket\<close> (\<open>socket/Socket.h\<close>), and what the derived classes override
  (\<open>socket/SSLSocket.h\<close>, \<open>socket/CClientSocket.h\<close>, \<open>socket/CClientSSLSocket.h\<close>). All users of a connection hold
  a \<open>Socket *\<close>: a call reaches the version of the object's class. \<open>SendBytes\<close> is overloaded, and each
  overload is a virtual function of its own.
\<close>

section \<open>The table of an object\<close>

text \<open>The functions, bound to the object: \<open>None\<close> is a call that does not return.\<close>

record 'w vtable =
  call_dtor :: "heap \<Rightarrow> 'w \<Rightarrow> fault + (heap \<times> 'w)"
  call_ReceiveLine :: "'w \<Rightarrow> (fault + (bytes \<times> 'w)) option"
  call_ReceiveBytes :: "'w \<Rightarrow> (fault + (bytes \<times> 'w)) option"
  call_Receive :: "bytes \<Rightarrow> int \<Rightarrow> 'w \<Rightarrow> fault + (bool \<times> bytes \<times> int \<times> 'w)"
  call_RecvBlocking :: "bytes \<Rightarrow> u64 \<Rightarrow> 'w \<Rightarrow> (fault + (int \<times> bytes \<times> 'w)) option"
  call_SendLine :: "bytes \<Rightarrow> 'w \<Rightarrow> fault + 'w"
  call_SendBytes_char :: "bytes \<Rightarrow> int \<Rightarrow> 'w \<Rightarrow> fault + 'w"
  call_SendBytes_void :: "bytes \<Rightarrow> int \<Rightarrow> 'w \<Rightarrow> fault + (bool \<times> 'w)"
  call_Close :: "'w \<Rightarrow> fault + 'w"

definition Socket_vtable :: "'w os \<Rightarrow> Socket \<Rightarrow> 'w vtable" where
  "Socket_vtable os this =
     \<lparr>call_dtor = Socket_dtor os this,
      call_ReceiveLine = (\<lambda>w. map_option Inr (ReceiveLine os (sock_fd this) w)),
      call_ReceiveBytes = (\<lambda>w. map_option Inr (ReceiveBytes os (sock_fd this) w)),
      call_Receive = Receive os (sock_fd this),
      call_RecvBlocking = RecvBlocking os (sock_fd this),
      call_SendLine = (\<lambda>line w. Inr (SendLine os (sock_fd this) line w)),
      call_SendBytes_char = SendBytes os (sock_fd this),
      call_SendBytes_void = SendBytes_checked os (sock_fd this),
      call_Close = (\<lambda>w. Inr (Close os (sock_fd this) w))\<rparr>"

text \<open>\<open>CClientSocket\<close> has a destructor of its own.\<close>

definition CClientSocket_vtable :: "'w os \<Rightarrow> CClientSocket \<Rightarrow> 'w vtable" where
  "CClientSocket_vtable os this = (Socket_vtable os (Socket.truncate this))\<lparr>call_dtor := Client_dtor os this\<rparr>"

text \<open>\<open>SSLSocket\<close> overrides all but \<open>Receive\<close> and the overload of \<open>SendBytes\<close> that takes a \<open>void *\<close>.\<close>

definition SSLSocket_vtable :: "'w os \<Rightarrow> 'w openssl \<Rightarrow> SSLSocket \<Rightarrow> 'w vtable" where
  "SSLSocket_vtable os tls this =
     (Socket_vtable os (Socket.truncate this))
       \<lparr>call_dtor := SSL_dtor os tls this,
        call_ReceiveLine := SSL_ReceiveLine tls this,
        call_ReceiveBytes := SSL_ReceiveBytes tls this,
        call_RecvBlocking := SSL_RecvBlocking os tls this,
        call_SendLine := SSL_SendLine tls this,
        call_SendBytes_char := SSL_SendBytes tls this,
        call_Close := SSL_Close tls this\<rparr>"

text \<open>\<open>CClientSSLSocket\<close> overrides nothing; its destructor is the implicit one.\<close>

definition CClientSSLSocket_vtable :: "'w os \<Rightarrow> 'w openssl \<Rightarrow> CClientSSLSocket \<Rightarrow> 'w vtable" where
  "CClientSSLSocket_vtable os tls this = SSLSocket_vtable os tls (SSLSocket.truncate this)"

lemma ssl_calls:
  "call_Receive (SSLSocket_vtable os tls this) = Receive os (sock_fd this)"
  "call_SendBytes_void (SSLSocket_vtable os tls this) = SendBytes_checked os (sock_fd this)"
  "call_dtor (SSLSocket_vtable os tls this) = SSL_dtor os tls this"
  "call_ReceiveLine (SSLSocket_vtable os tls this) = SSL_ReceiveLine tls this"
  "call_ReceiveBytes (SSLSocket_vtable os tls this) = SSL_ReceiveBytes tls this"
  "call_RecvBlocking (SSLSocket_vtable os tls this) = SSL_RecvBlocking os tls this"
  "call_SendLine (SSLSocket_vtable os tls this) = SSL_SendLine tls this"
  "call_SendBytes_char (SSLSocket_vtable os tls this) = SSL_SendBytes tls this"
  "call_Close (SSLSocket_vtable os tls this) = SSL_Close tls this"
  by (simp_all add: SSLSocket_vtable_def Socket_vtable_def Socket.truncate_def)

section \<open>What reaches the descriptor\<close>

context posix begin

lemma receive_takes:
  assumes "Receive os s buffer len w = Inr (ok, buffer', len', w')"
  shows "if ok then \<exists>bs. bs \<noteq> [] \<and> incoming s w = bs @ incoming s w' \<and> take (length bs) buffer' = bs \<and> len' = int (length bs)
    else buffer' = buffer \<and> len' = len \<and> incoming s w' = incoming s w"
proof -
  obtain got w1 where g: "os_recv os s (unat (word_of_int len :: u64)) NoFlags w = (got, w1)" by fastforce
  show ?thesis
  proof (cases got)
    case None
    then show ?thesis using assms(1) g recv_fails [of s _ NoFlags w w1] by (auto simp: Receive_def)
  next
    case (Some bs)
    from recv_takes [OF g [unfolded Some]] have i: "incoming s w = bs @ incoming s w1" by simp
    obtain b where b: "store_at 0 bs buffer = Inr b" and fin: "(if bs = [] then Inr (False, b, len, w1) else Inr (True, b, int (length bs), w1)) =
        (Inr (ok, buffer', len', w') :: fault + _)"
      using assms(1) g Some by (auto simp: Receive_def fbind_eq_Inr_iff)
    have "b = bs @ drop (length bs) buffer"
      using b by (auto simp: store_at_def split: if_splits)
    then show ?thesis using fin i by (auto split: if_splits)
  qed
qed

lemma receive_returns:
  assumes "0 \<le> len" and "len < 2 ^ 31" and "len \<le> int (length buffer)"
  shows "\<exists>ok buffer' len' w'. Receive os s buffer len w = Inr (ok, buffer', len', w')"
proof -
  have n: "unat (word_of_int len :: u64) = nat len"
    using assms(1,2) by (simp add: unat_eq_nat_uint uint_word_of_int)
  obtain got w1 where g: "os_recv os s (nat len) NoFlags w = (got, w1)" by fastforce
  show ?thesis
  proof (cases got)
    case None
    then show ?thesis using g n by (auto simp: Receive_def)
  next
    case (Some bs)
    from recv_takes [OF g [unfolded Some]] have "length bs \<le> nat len" by simp
    then have "\<exists>b. store_at 0 bs buffer = Inr b" using assms(1,3) by (auto simp: store_at_def)
    then show ?thesis using g n Some by (auto simp: Receive_def)
  qed
qed

lemma checked_send:
  assumes "0 \<le> n" and "n \<le> int (length buf)"
  shows "\<exists>ok w' m. SendBytes_checked os s buf n w = Inr (ok, w') \<and> sent s w' = sent s w @ take m buf"
proof -
  obtain r w' where r: "os_send os s (take (nat n) buf) w = (r, w')" by fastforce
  have "SendBytes_checked os s buf n w = Inr (r \<noteq> SOCKET_ERROR, w')" using r assms by (simp add: SendBytes_checked_def)
  moreover have "sent s w' = sent s w @ take (min (nat r) (nat n)) buf" using send_accepts [OF r] by simp
  ultimately show ?thesis by blast
qed

end

end
