(* ===== verification/Tls_Theorems.thy ===== *)
theory Tls_Theorems
  imports Tls_Env
begin

text \<open>Properties of the TLS sockets.\<close>

text \<open>C17: A TLS client that was constructed can be destroyed, and its destruction gives back exactly what the
  construction acquired: the descriptor, the context and the session, and nothing else, when the
  object is the only user of its reference counter.
\<close>

theorem tls_client_lifecycle:
  assumes "tls_env os opened tls by_address"
    and "SSLClient_new os tls by_address name port h w = Inr (Done, client, h1, w1)"
  shows "\<exists>this h2 w2. client = Some this \<and> sock_fd this \<in> opened w1 \<and>
    SSL_dtor os tls this h1 w1 = Inr (h2, w2) \<and> same_resources opened tls w w2"
proof -
  obtain this c x where t: "client = Some this" "refCounter this = next_counter h" "ctx this = Ptr c"
    "ssl this = Ptr x" "sock_fd this \<notin> opened w" "opened w1 = insert (sock_fd this) (opened w)"
    "c \<notin> ctx_live tls w" "ctx_live tls w1 = insert c (ctx_live tls w)"
    "x \<notin> ssl_live tls w" "ssl_live tls w1 = insert x (ssl_live tls w)"
    "counters h1 = (counters h)(next_counter h \<mapsto> 1)"
    using tls_env.client_new [OF assms] by blast
  have "\<exists>w2. SSL_Close tls this w1 = Inr w2"
    by (rule tls_env.close_works [OF assms(1) t(4) _ t(3)]) (simp_all add: t)
  then obtain w2 where w2: "SSL_Close tls this w1 = Inr w2" ..
  obtain z w3 where w3: "os_close os (sock_fd this) w2 = (z, w3)" by fastforce
  have "SSL_dtor os tls this h1 w1 = Inr (h1\<lparr>counters := (counters h1)(next_counter h := None),
      nofSockets := nofSockets h1 - 1\<rparr>, w3)"
    using w2 w3 t(2,11) by (auto simp: SSL_dtor_def Socket_dtor_def Socket.truncate_def Close_def Let_def)
  moreover have "same_resources opened tls w w3"
    using tls_env.close_frees [OF assms(1) w2] t tls_env.os_keeps(2) [OF assms(1) w3]
      fd_table.close_closes [OF tls_env.axioms(1) [OF assms(1)] w3]
    by (auto simp: same_resources_def)
  ultimately show ?thesis using t(1,6) by auto
qed

text \<open>A concrete client, on a kernel whose handshakes end with the given result.\<close>

definition tls_boot :: "int \<Rightarrow> tls_world" where
  "tls_boot shake = (boot, \<lparr>t_ssl = {}, t_ctx = {}, t_next = 0, t_shake = shake\<rparr>)"

lemmas tls_eval = SSLClient_new_def SSLSocket_new_def SSL_construct_def SSL_Init_def create_context_def
  configure_client_context_def Socket_new_def CreateSocket_def Start_def new_counter_def INVALID_SOCKET_def
  to_slot_def Socket.extend_def SSLSocket.fields_def SSLSocket.extend_def CClientSSLSocket.fields_def
  finish_client_def strcpy_def SERVER_NAME_SIZE_def SSL_client_connect_def TcpConnect_def SSL_Resolve_def
  isalpha_def sim_by_address_def SSLConnect_def sim_tls_def fresh_handle_def lift_os_def lift_call_def
  sim_def sim_open_def boot_def log_def tls_boot_def empty_heap_def Let_def

theorem tls_client_lifecycle_witness:
  "\<exists>this h1 w1 h2 w2. SSLClient_new (lift_os sim) sim_tls sim_by_address ''10.0.0.1'' 9440 empty_heap (tls_boot 1) =
      Inr (Done, Some this, h1, w1) \<and>
    SSL_dtor (lift_os sim) sim_tls this h1 w1 = Inr (h2, w2) \<and> k_open (fst w2) = {} \<and> ctx_live sim_tls w2 = {}"
proof -
  obtain this h1 w1 where r: "SSLClient_new (lift_os sim) sim_tls sim_by_address ''10.0.0.1'' 9440 empty_heap (tls_boot 1) =
      Inr (Done, Some this, h1, w1)"
    by (simp add: tls_eval)
  obtain h2 w2 where "SSL_dtor (lift_os sim) sim_tls this h1 w1 = Inr (h2, w2)"
    "same_resources (k_open \<circ> fst) sim_tls (tls_boot 1) w2"
    using tls_client_lifecycle [OF sim_tls.tls_env_axioms r] by auto
  then show ?thesis using r by (auto simp: same_resources_def tls_boot_def boot_def sim_tls_def)
qed

text \<open>C36: A TLS client that cannot connect never reports it. Once the base class is constructed and the name is
  copied, the constructor ends as its connection does if that succeeds or faults; but if the connection
  throws, its exception does not arrive: the destructor of the base class closes a session that was never
  created, when the TCP connection failed, or that the failed handshake has freed already.
\<close>

theorem failed_tls_client_faults:
  assumes "tls_env os opened tls by_address"
    and "SSLSocket_new os tls Client_method h w = Inr (Done, Some base, h0, w0)"
    and "strcpy SERVER_NAME_SIZE name = Inr n"
  shows "SSLClient_new os tls by_address name port h w =
    (case SSL_client_connect os tls by_address (SSLSocket.extend base (CClientSSLSocket.fields n port None)) w0 of
       Inl e \<Rightarrow> Inl e
     | Inr (Ret u, this, w1) \<Rightarrow> Inr (Done, Some this, h0, w1)
     | Inr (Throw e, this, w1) \<Rightarrow> Inl (if ssl this = Indeterminate then Uninitialised else UseAfterFree))"
proof -
  let ?c0 = "SSLSocket.extend base (CClientSSLSocket.fields n port None)"
  let ?q = "SSL_client_connect os tls by_address ?c0 w0"
  have run: "SSLClient_new os tls by_address name port h w =
      fbind ?q (\<lambda>(q, this, w). case q of Ret _ \<Rightarrow> Inr (Done, Some this, h0, w)
        | Throw e \<Rightarrow> fbind (SSL_dtor os tls this h0 w) (\<lambda>(h, w). Inr (Thrown e, None, h, w)))"
    using assms(2,3) by (simp add: SSLClient_new_def finish_client_def)
  consider e where "?q = Inl e" | u this w1 where "?q = Inr (Ret u, this, w1)" | e this w1 where "?q = Inr (Throw e, this, w1)"
    by (metis sum.exhaust prod.exhaust outcome.exhaust)
  then show ?thesis
  proof cases
    case (3 e this w1)
    have "ssl ?c0 = Indeterminate"
      using tls_env.ssl_base [OF assms(1,2)] by (auto simp: SSLSocket.extend_def)
    obtain q this1 v1 where t: "TcpConnect os by_address ?c0 w0 = Inr (q, this1, v1)"
      using 3 by (auto simp: SSL_client_connect_def fbind_eq_Inr_iff)
    have i: "ssl this1 = Indeterminate"
      using tls_env.tcp_keeps [OF assms(1) t] \<open>ssl ?c0 = Indeterminate\<close> by simp
    have "ssl this = Indeterminate \<or> (\<exists>x. ssl this = Ptr x \<and> x \<notin> ssl_live tls w1)"
    proof (cases q)
      case (Throw e')
      then show ?thesis using 3 t i by (simp add: SSL_client_connect_def)
    next
      case (Ret u)
      then have "SSLConnect tls this1 v1 = Inr (Throw e, this, w1)"
        using 3 t by (simp add: SSL_client_connect_def)
      from tls_env.handshake [OF assms(1) this] show ?thesis by auto
    qed
    then show ?thesis unfolding run using 3 by (auto simp: SSL_dtor_def SSL_Close_def)
  qed (use run in simp_all)
qed

theorem failed_tls_client_faults_witness:
  "SSLClient_new (lift_os sim) sim_tls sim_by_address ''10.0.0.1'' 9440 empty_heap (tls_boot 0) = Inl UseAfterFree"
proof -
  obtain base h0 w0 where b: "SSLSocket_new (lift_os sim) sim_tls Client_method empty_heap (tls_boot 0) =
      Inr (Done, Some base, h0, w0)" "snd w0 = \<lparr>t_ssl = {}, t_ctx = {0}, t_next = 1, t_shake = 0\<rparr>"
      "ctx base = Ptr 0"
    by (simp add: tls_eval)
  have n: "strcpy SERVER_NAME_SIZE ''10.0.0.1'' = Inr ''10.0.0.1''"
    by (simp add: strcpy_def SERVER_NAME_SIZE_def)
  let ?c0 = "SSLSocket.extend base (CClientSSLSocket.fields ''10.0.0.1'' 9440 None)"
  obtain e this w1 where c: "SSL_client_connect (lift_os sim) sim_tls sim_by_address ?c0 w0 = Inr (Throw e, this, w1)"
    "ssl this = Ptr 1"
    using b(2,3) by (cases w0) (auto simp: tls_eval handle_error_def free_ssl_def free_ctx_def)
  from failed_tls_client_faults [OF sim_tls.tls_env_axioms b(1) n, of 9440] c show ?thesis by simp
qed

text \<open>A TLS socket that was closed cannot be used or destroyed. \<open>Close\<close>, which \<open>ReceiveBytes\<close> also calls
  at the end of the data, frees the session and keeps the pointer: afterwards reading, writing, closing
  again and the destructor all use the freed session.
\<close>

theorem closed_tls_socket_is_unusable:
  assumes "tls_env os opened tls by_address" and "SSL_Close tls this w = Inr w'"
  shows "SSL_dtor os tls this h w' = Inl UseAfterFree \<and> SSL_Close tls this w' = Inl UseAfterFree \<and>
    SSL_ReceiveBytes tls this w' = Some (Inl UseAfterFree) \<and>
    SSL_ReceiveLine tls this w' = Some (Inl UseAfterFree) \<and>
    SSL_SendLine tls this line w' = Inl UseAfterFree \<and> SSL_SendBytes tls this buf n w' = Inl UseAfterFree"
proof -
  obtain s where s: "ssl this = Ptr s" "s \<notin> ssl_live tls w'"
    using tls_env.close_frees [OF assms] by auto
  then have "SSL_Close tls this w' = Inl UseAfterFree" by (simp add: SSL_Close_def)
  moreover have "ssl_receive_loop tls this [] w' = Some (Inl UseAfterFree)"
    using s by (subst ssl_receive_loop.simps) simp
  ultimately show ?thesis
    using s by (simp add: SSL_dtor_def SSL_ReceiveBytes_def SSL_ReceiveLine_def SSL_SendLine_def SSL_SendBytes_def)
qed

definition tls_pair :: SSLSocket where
  "tls_pair = \<lparr>sock_fd = 3, refCounter = 0, ctx = Ptr 0, ssl = Ptr 1, ssl_meth = Client_method\<rparr>"

definition tls_open :: "bytes list \<Rightarrow> tls_world" where
  "tls_open segs = (boot\<lparr>k_in := (\<lambda>s. segs)\<rparr>, \<lparr>t_ssl = {1}, t_ctx = {0}, t_next = 2, t_shake = 1\<rparr>)"

theorem closed_tls_socket_is_unusable_witness:
  "\<exists>w'. SSL_Close sim_tls tls_pair (tls_open []) = Inr w' \<and>
    SSL_dtor (lift_os sim) sim_tls tls_pair empty_heap w' = Inl UseAfterFree"
proof -
  obtain w' where c: "SSL_Close sim_tls tls_pair (tls_open []) = Inr w'"
    by (simp add: SSL_Close_def tls_pair_def tls_open_def sim_tls_def free_ssl_def free_ctx_def)
  with closed_tls_socket_is_unusable [OF sim_tls.tls_env_axioms c] show ?thesis by blast
qed

text \<open>C34: \<open>SSLSocket::ReceiveBytes\<close> returns if \<open>SSL_read\<close> fails only finitely often (\<open>tls_stream\<close>). On a live session it takes a prefix off the stream and returns
  it; the prefix is empty only at the end of the stream or after a failed \<open>SSL_read\<close>. The one other end
  is that OpenSSL reports the end of the data, and then the result is that of closing the session.
\<close>

theorem tls_receive_bytes_spec:
  assumes "tls_stream tls s stream fails" and "ssl this = Ptr s" and "s \<in> ssl_live tls w"
  shows "\<exists>bs v. stream w = bs @ stream v \<and>
    (SSL_ReceiveBytes tls this w = Some (Inr (bs, v)) \<and> (bs = [] \<longrightarrow> stream w = [] \<or> fails v < fails w) \<or>
     SSL_get_error tls s v = Zero_return \<and>
       SSL_ReceiveBytes tls this w = Some (fbind (SSL_Close tls this v) (\<lambda>w. Inr (bs, w))))"
  using tls_stream.receive_loop [OF assms, of "[]"] by (simp add: SSL_ReceiveBytes_def)

theorem tls_receive_bytes_spec_witness:
  "\<exists>bs v. SSL_ReceiveBytes sim_tls tls_pair (tls_open [[1, 2], [3]]) = Some (Inr (bs, v)) \<and>
     [1, 2, 3] = bs @ sim_in 3 (fst v) \<and> bs \<noteq> []"
proof -
  have s: "ssl tls_pair = Ptr 1" "1 \<in> ssl_live sim_tls (tls_open [[1, 2], [3]])"
    by (simp_all add: tls_pair_def tls_open_def sim_tls_def)
  have e: "SSL_get_error sim_tls 1 v \<noteq> Zero_return" for v by (simp add: sim_tls_def)
  have f: "(sim_fails 3 \<circ> fst) (tls_open [[1, 2], [3]]) = 0"
    "(sim_in 3 \<circ> fst) (tls_open [[1, 2], [3]]) = [1, 2, 3]"
    by (simp_all add: tls_open_def sim_fails_def sim_in_def boot_def)
  from tls_receive_bytes_spec [OF sim_tls.tls_stream_axioms s] e f obtain bs v where
    "[1, 2, 3] = bs @ sim_in 3 (fst v)" "SSL_ReceiveBytes sim_tls tls_pair (tls_open [[1, 2], [3]]) = Some (Inr (bs, v))"
    "bs \<noteq> []" by force
  then show ?thesis by blast
qed

end
