(* ===== verification/Tls_Interface_Theorems.thy ===== *)
theory Tls_Interface_Theorems
  imports Tls_Server Socket_Dispatch Tls_Theorems
begin

text \<open>Properties of TLS sockets behind a \<open>Socket *\<close>, and of TLS sockets on accepted connections.\<close>

section \<open>Through the interface of the base class\<close>

text \<open>A TLS socket has two members in clear. Through a \<open>Socket *\<close>, \<open>SendBytes(void *, int)\<close> of a TLS socket
  hands the unencrypted buffer to the descriptor, in whatever state the session is, and \<open>Receive\<close> takes
  the bytes of the descriptor's own stream, that is, those that the session needs: neither is
  overridden by \<open>SSLSocket\<close>, which overrides the overload of \<open>SendBytes\<close> for \<open>char *\<close> only.
\<close>

theorem tls_socket_sends_in_clear:
  assumes "posix os inp out" and "0 \<le> n" and "n \<le> int (length buf)"
  shows "(\<exists>ok w' m. call_SendBytes_void (SSLSocket_vtable os tls this) buf n w = Inr (ok, w') \<and>
      out (sock_fd this) w' = out (sock_fd this) w @ take m buf) \<and>
    (\<forall>buffer' len' w'. call_Receive (SSLSocket_vtable os tls this) buffer len w = Inr (True, buffer', len', w') \<longrightarrow>
      (\<exists>bs. bs \<noteq> [] \<and> inp (sock_fd this) w = bs @ inp (sock_fd this) w' \<and> take (length bs) buffer' = bs))"
  using posix.checked_send [OF assms, of "sock_fd this" w] posix.receive_takes [OF assms(1), of "sock_fd this" buffer len w True]
  by (auto simp: ssl_calls)

lemma lift_posix:
  assumes "posix os inp out"
  shows "posix (lift_os os :: ('w \<times> 't) os) (\<lambda>s. inp s \<circ> fst) (\<lambda>s. out s \<circ> fst)"
  by (unfold_locales; simp add: lift_os_def lift_call_eq)
    (use assms in \<open>blast dest: posix.recv_takes posix.recv_fails posix.recv_others posix.fionread_asks
       posix.select_asks posix.send_accepts\<close>)+

theorem tls_socket_sends_in_clear_witness:
  "\<exists>ok w' m. call_SendBytes_void (SSLSocket_vtable (lift_os sim) sim_tls tls_pair) [7, 8] 2 (tls_open []) = Inr (ok, w') \<and>
     sim_out 3 (fst w') = take m [7, 8]"
  using conjunct1 [OF tls_socket_sends_in_clear [OF lift_posix [OF sim.posix_axioms], of 2 "[7, 8]" sim_tls tls_pair "tls_open []"]]
  by (auto simp: tls_pair_def tls_open_def boot_def sim_out_def)

text \<open>C37: A TLS socket that was closed through its interface is half alive. \<open>Close\<close> frees the session and the
  context, keeps both pointers, and leaves the descriptor open; from then on the destructor and every
  overridden function (\<open>Close\<close>, \<open>ReceiveBytes\<close>, \<open>ReceiveLine\<close>, \<open>RecvBlocking\<close>, \<open>SendLine\<close> and the \<open>SendBytes\<close> of
  characters) use the freed session, while the two functions in clear still work on the descriptor: the
  \<open>SendBytes\<close> of a \<open>void *\<close> sends a prefix of the buffer, and \<open>Receive\<close> takes bytes off the stream. (The
  lengths given to these two are those of buffers.)
\<close>

theorem closed_tls_socket_through_its_interface:
  assumes "tls_env os opened tls by_address" and "posix os inp out"
    and "call_Close (SSLSocket_vtable os tls this) w = Inr v" and "0 \<le> n" and "n < 2 ^ 31" and "n \<le> int (length buf)"
  shows "opened v = opened w \<and>
    (\<exists>s. ssl this = Ptr s \<and> s \<in> ssl_live tls w \<and> ssl_live tls v = ssl_live tls w - {s}) \<and>
    (\<forall>c. ctx this = Ptr c \<longrightarrow> ctx_live tls v = ctx_live tls w - {c}) \<and>
    call_dtor (SSLSocket_vtable os tls this) h v = Inl UseAfterFree \<and>
    call_Close (SSLSocket_vtable os tls this) v = Inl UseAfterFree \<and>
    call_ReceiveBytes (SSLSocket_vtable os tls this) v = Some (Inl UseAfterFree) \<and>
    call_ReceiveLine (SSLSocket_vtable os tls this) v = Some (Inl UseAfterFree) \<and>
    call_RecvBlocking (SSLSocket_vtable os tls this) buf len v = Some (Inl UseAfterFree) \<and>
    call_SendLine (SSLSocket_vtable os tls this) line v = Inl UseAfterFree \<and>
    call_SendBytes_char (SSLSocket_vtable os tls this) buf n v = Inl UseAfterFree \<and>
    (\<exists>ok u m. call_SendBytes_void (SSLSocket_vtable os tls this) buf n v = Inr (ok, u) \<and>
      out (sock_fd this) u = out (sock_fd this) v @ take m buf) \<and>
    (\<exists>ok buf' n' u. call_Receive (SSLSocket_vtable os tls this) buf n v = Inr (ok, buf', n', u) \<and>
      (if ok then \<exists>bs. bs \<noteq> [] \<and> inp (sock_fd this) v = bs @ inp (sock_fd this) u \<and>
           take (length bs) buf' = bs \<and> n' = int (length bs)
       else buf' = buf \<and> n' = n \<and> inp (sock_fd this) u = inp (sock_fd this) v))"
proof -
  have c: "SSL_Close tls this w = Inr v" using assms(3) by (simp add: ssl_calls)
  obtain s where s: "ssl this = Ptr s" "s \<in> ssl_live tls w" "ssl_live tls v = ssl_live tls w - {s}"
    "\<forall>c. ctx this = Ptr c \<longrightarrow> ctx_live tls v = ctx_live tls w - {c}" and o: "opened v = opened w"
    using tls_env.close_frees [OF assms(1) c] by auto
  have gone: "s \<notin> ssl_live tls v" using s(3) by simp
  have r: "ssl_receive_loop tls this [] v = Some (Inl UseAfterFree)"
    using s(1) gone by (subst ssl_receive_loop.simps) simp
  obtain a w1 where f: "os_fionread os (sock_fd this) v = (a, w1)" by fastforce
  then have "SSL_RecvBlocking os tls this buf len v = Some (Inl UseAfterFree)"
    using s(1) gone tls_env.os_keeps(5) [OF assms(1) f] by (simp add: SSL_RecvBlocking_def)
  moreover have "SSL_Close tls this v = Inl UseAfterFree" using s(1) gone by (simp add: SSL_Close_def)
  moreover obtain ok buf' n' u where rc: "Receive os (sock_fd this) buf n v = Inr (ok, buf', n', u)"
    using posix.receive_returns [OF assms(2,4-6)] by blast
  from posix.receive_takes [OF assms(2) rc] rc
  have "\<exists>ok buf' n' u. Receive os (sock_fd this) buf n v = Inr (ok, buf', n', u) \<and>
      (if ok then \<exists>bs. bs \<noteq> [] \<and> inp (sock_fd this) v = bs @ inp (sock_fd this) u \<and>
           take (length bs) buf' = bs \<and> n' = int (length bs)
       else buf' = buf \<and> n' = n \<and> inp (sock_fd this) u = inp (sock_fd this) v)" by blast
  ultimately show ?thesis
    unfolding ssl_calls using s gone r o posix.checked_send [OF assms(2,4,6), of "sock_fd this" v]
    by (simp add: SSL_dtor_def SSL_ReceiveBytes_def SSL_ReceiveLine_def SSL_SendLine_def SSL_SendBytes_def)
qed

theorem closed_tls_socket_through_its_interface_witness:
  "\<exists>v u ok m. call_Close (SSLSocket_vtable (lift_os sim) sim_tls tls_pair) (tls_open []) = Inr v \<and>
    call_SendBytes_char (SSLSocket_vtable (lift_os sim) sim_tls tls_pair) [7] 1 v = Inl UseAfterFree \<and>
    call_SendBytes_void (SSLSocket_vtable (lift_os sim) sim_tls tls_pair) [7] 1 v = Inr (ok, u) \<and>
    sim_out 3 (fst u) = sim_out 3 (fst v) @ take m [7]"
proof -
  obtain v where c: "call_Close (SSLSocket_vtable (lift_os sim) sim_tls tls_pair) (tls_open []) = Inr v"
    by (simp add: ssl_calls SSL_Close_def tls_pair_def tls_open_def sim_tls_def free_ssl_def free_ctx_def)
  have "sock_fd tls_pair = 3" by (simp add: tls_pair_def)
  with closed_tls_socket_through_its_interface [OF sim_tls.tls_env_axioms lift_posix [OF sim.posix_axioms] c,
      of 1 "[7]"] c show ?thesis by fastforce
qed

section \<open>On an accepted connection\<close>

text \<open>C35: The balance of accepting a TLS connection. When the object is constructed, its destructor works and
  gives everything back: it closes the descriptor and frees exactly the context and the session that the
  construction allocated. When the construction throws, the descriptor is closed, no session is left,
  and the context is freed if it was the handshake that failed; but if a variable with the path of the
  certificate or the key is missing, the context that was allocated before is leaked.
\<close>

theorem tls_acceptance_balance:
  assumes "tls_server_env os opened tls by_address"
    and "SSLSocket_adopt os tls s Server_method h w = Inr (r, this, h1, w1)"
  shows "\<exists>me. this = Some me \<and>
    (case r of
       Done \<Rightarrow> opened w1 = opened w \<and> (\<exists>h2 w2. call_dtor (SSLSocket_vtable os tls me) h1 w1 = Inr (h2, w2) \<and>
         opened w2 = opened w - {s} \<and> ssl_live tls w2 = ssl_live tls w \<and> ctx_live tls w2 = ctx_live tls w)
     | Thrown e \<Rightarrow> opened w1 = opened w - {s} \<and> ssl_live tls w1 = ssl_live tls w \<and>
         (if ctx me \<noteq> Null \<and> (getenv tls ''SSL_CERT_FILE_PATH'' = None \<or> getenv tls ''SSL_KEY_FILE_PATH'' = None)
          then \<exists>c. c \<notin> ctx_live tls w \<and> ctx_live tls w1 = insert c (ctx_live tls w)
          else ctx_live tls w1 = ctx_live tls w)
     | Exited \<Rightarrow> True)"
proof -
  let ?h = "h\<lparr>nofSockets := nofSockets h + 1, counters := (counters h)(next_counter h \<mapsto> 1),
      next_counter := Suc (next_counter h)\<rparr>" and ?base = "\<lparr>sock_fd = s, refCounter = next_counter h\<rparr> :: Socket"
  have "Socket_adopt s h = (?base, ?h)" by (simp add: Socket_adopt_def Start_def new_counter_def Let_def)
  then obtain me where c: "SSL_construct os tls Server_method ?base ?h w = Inr (r, me, h1, w1)" "this = Some me"
    using assms(2) by (auto simp: SSLSocket_adopt_def fbind_eq_Inr_iff)
  let ?me = "Socket.extend ?base (SSLSocket.fields Indeterminate Indeterminate Server_method)"
  obtain q me1 v where q1: "SSL_Init tls ?me w = Inr (q, me1, v)"
    and e1: "(case q of Thrown e \<Rightarrow> fbind (Socket_dtor os (Socket.truncate me1) ?h v) (\<lambda>(h, w). Inr (q, me1, h, w))
      | _ \<Rightarrow> Inr (q, me1, ?h, v)) = Inr (r, me, h1, w1)"
    using c(1) by (auto simp: SSL_construct_def fbind_eq_Inr_iff)
  have "me1 = me" using e1 by (cases q) (auto simp: fbind_eq_Inr_iff)
  note q = q1 [unfolded this] and e = e1 [unfolded this]
  have m: "ssl_meth ?me = Server_method" "sock_fd ?me = s" "refCounter ?me = next_counter h"
    by (simp_all add: Socket.extend_def SSLSocket.fields_def)
  note i = tls_server_env.init_server [OF assms(1) q m(1), unfolded m(2,3) tls_server_env.missing_config_def [OF assms(1)]]
  show ?thesis
  proof (cases q)
    case Done
    then have f: "r = Done" "h1 = ?h" "w1 = v" using e by simp_all
    obtain k x where k: "ctx me = Ptr k" "ssl me = Ptr x" "k \<notin> ctx_live tls w" "x \<notin> ssl_live tls w"
      "ctx_live tls v = insert k (ctx_live tls w)" "ssl_live tls v = insert x (ssl_live tls w)" "sock_fd me = s"
      "refCounter me = next_counter h" "opened v = opened w"
      using i Done by auto
    have "\<exists>h2 w2. SSL_dtor os tls me ?h v = Inr (h2, w2) \<and> opened w2 = opened v - {sock_fd me} \<and>
      ssl_live tls w2 = ssl_live tls v - {x} \<and> ctx_live tls w2 = ctx_live tls v - {k}"
      by (rule tls_server_env.destroy_works [OF assms(1) k(2) _ k(1)]) (simp_all add: k)
    then show ?thesis using c(2) f k by (auto simp: ssl_calls)
  next
    case (Thrown msg)
    obtain z u where z: "os_close os s v = (z, u)" by fastforce
    have "r = Thrown msg" "w1 = u"
      using e Thrown i z by (auto simp: Socket_dtor_def Socket.truncate_def Close_def Let_def)
    moreover have "opened u = opened v - {s}" "ssl_live tls u = ssl_live tls v" "ctx_live tls u = ctx_live tls v"
      using fd_table.close_closes [OF tls_env.axioms(1) [OF tls_server_env.axioms(1) [OF assms(1)]] z]
        tls_env.os_keeps(2) [OF tls_server_env.axioms(1) [OF assms(1)] z] by simp_all
    ultimately show ?thesis using i Thrown c(2) by (simp split: if_splits)
  next
    case Exited
    then show ?thesis using e c(2) by auto
  qed
qed

lemmas accept_eval = SSLSocket_adopt_def Socket_adopt_def SSL_construct_def SSL_Init_def create_context_def
  configure_server_context_def SSL_accepting_def Start_def new_counter_def to_slot_def Socket.extend_def
  SSLSocket.fields_def sim_server_tls_def sim_tls_def fresh_handle_def tls_boot_def boot_def empty_heap_def Let_def

theorem tls_acceptance_balance_witness:
  "\<exists>me h1 w1 h2 w2. SSLSocket_adopt (lift_os sim) sim_server_tls 5 Server_method empty_heap (tls_boot 1) =
      Inr (Done, Some me, h1, w1) \<and>
    call_dtor (SSLSocket_vtable (lift_os sim) sim_server_tls me) h1 w1 = Inr (h2, w2) \<and>
    ctx_live sim_server_tls w2 = {} \<and> ssl_live sim_server_tls w2 = {}"
proof -
  obtain me h1 w1 where r: "SSLSocket_adopt (lift_os sim) sim_server_tls 5 Server_method empty_heap (tls_boot 1) =
      Inr (Done, Some me, h1, w1)"
    by (simp add: accept_eval)
  have "ctx_live sim_server_tls (tls_boot 1) = {}" "ssl_live sim_server_tls (tls_boot 1) = {}"
    by (simp_all add: sim_server_tls_def sim_tls_def tls_boot_def)
  with tls_acceptance_balance [OF sim_server_tls.tls_server_env_axioms r] r show ?thesis by auto
qed

end
