(* ===== verification/Spec2Isabelle.thy ===== *)
theory Spec2Isabelle
  imports Wire_Safety Unit_Test Socket_Theorems Tcp_Lifetime Server_Theorems Setup_Theorems Sessions_Theorems
    Protocol_Theorems Tls_Interface_Theorems
begin

text \<open>
  A verification library for the asabru engine: the sockets, the pool of connections, the servers and
  proxies, and the ClickHouse wire protocol of this repository.

  \<^bold>\<open>How the program is built.\<close> A server object (\<open>CProxySocket\<close>, \<open>CApiGatewaySocket\<close>, \<open>CProtocolSocket\<close>, all on
  \<open>CServerSocket\<close>; \<open>LibuvProxySocket\<close> on \<open>LibuvServerSocket\<close>) is configured, started, and listens in a
  thread of its own. Every accepted connection becomes a \<open>CLIENT_DATA\<close> and a task, which runs the
  object's thread routine: a proxy asks its load balancer for a service, connects to it with a
  \<open>CClientSocket\<close> and relays bytes through the methods of a \<open>CProxyHandler\<close>; a protocol server answers chunks
  through a \<open>CProtocolHandler\<close>. Handlers may use the ClickHouse decoder and encoder and a pool of
  \<open>TcpConnection\<close> objects. \<open>SSLSocket\<close> and \<open>CClientSSLSocket\<close> are the TLS variants of the sockets.

  \<^bold>\<open>The model.\<close> Paths are below \<open>src/src\<close>.

  \<^item> \<open>Prelude\<close>: words, byte strings, faults, exceptions, pointer slots, C strings, shared lemmas.
  \<^item> \<open>Wire_Read\<close>, \<open>Wire_Write\<close>, \<open>Wire_Varint\<close>, \<open>Wire_Packets\<close>, \<open>Wire_Fields\<close>: \<open>decoder/ClickHouse_Wire.h\<close>
    and \<open>.cpp\<close>. The cursors \<open>rbuf\<close> and \<open>wbuf\<close> are \<open>ClickReadProtoBuffer\<close> and \<open>ClickWriteProtoBuffer\<close>; a read
    outside the packet is a fault. \<open>Wire_Objects\<close>: the decoder and encoder objects with their blocks on the
    heap. \<open>Wire_Theorems\<close>: LEB128, round trips, bounds; \<open>Wire_Safety\<close>: any sequence of calls on one decoder.
  \<^item> \<open>Pool\<close>, \<open>Pool_Run\<close>: \<open>connection_pool/pool.cpp\<close>, one definition per member function, over a record of
    the virtual methods of \<open>cpool::Connection\<close>; \<open>Pool_Run\<close> interleaves the operations of any number of
    proxies and states the abstract pool, whose steps carry the events that they must show.
    \<open>Pool_Theorems\<close>: conservation, exclusive use, refinement.
    \<open>Pool_Lifetime\<close>: the end of a pool and of the proxies it leaves. \<open>Unit_Test\<close>: the test of
    \<open>tests/test_basic.h\<close> as a program over the pool.
  \<^item> \<open>Posix\<close>: the system calls as a parameter, their documented behaviour as the locales \<open>posix\<close>,
    \<open>posix_live\<close> and \<open>fd_table\<close>, and one concrete system on which the theorems are exercised.
  \<^item> \<open>Byte_Source\<close>, \<open>Socket_Ops\<close>, \<open>Socket_Life\<close>, \<open>Socket_Select\<close>: \<open>socket/Socket.cpp\<close> and
    \<open>socket/SocketSelect.cpp\<close>. \<open>Byte_Source\<close> has the two loops that plain and TLS sockets share;
    \<open>Socket_Life\<close> runs sequences of constructions, copies, assignments and destructions.
    \<open>Socket_Theorems\<close>: what each way of receiving returns, dangling and leaked descriptors.
  \<^item> \<open>Client\<close>, \<open>Tcp_Connection\<close>: \<open>socket/CClientSocket.cpp\<close> and \<open>connection_pool/TcpConnection.h\<close>, an
    implementation of the pool's interface. \<open>Client_Theorems\<close>. \<open>Tcp_Lifetime\<close>: a pool of such connections
    from its creation to its end, with the calls of its holders and everything its connections own on the way.
  \<^item> \<open>Server\<close>: \<open>socket/CServerSocket.h\<close>, \<open>.cpp\<close> and \<open>config/EngineConstants.h\<close>. \<open>Server_Theorems\<close>.
  \<^item> \<open>Relay\<close>, \<open>Proxy_Session\<close>: the rounds and the loop of the two proxies, the contract of a round (the
    locale \<open>relay\<close>), what follows for sessions that return and for sessions that wait for their peers for
    ever, and the proof that both rounds keep it. \<open>Proxy\<close>: \<open>interface/CProxySocket.h\<close>, \<open>.cpp\<close>
    and \<open>interface/CApiGatewaySocket.h\<close>, \<open>.cpp\<close>. \<open>Libuv\<close>: \<open>libuv-socket/\<close> and
    \<open>interface/LibuvProxySocket.h\<close>, \<open>.cpp\<close>. \<open>Proxy_Theorems\<close>: sessions; \<open>Setup_Theorems\<close>: configuration and
    starting.
  \<^item> \<open>Sessions\<close>: all sessions of one proxy at once, with its listener: the threads of the code as tasks
    that take turns (a round of the listener, the part of \<open>ThreadHandler\<close> before its loop, the \<open>select\<close> and
    each half of a round), over one proxy object, one handler and one system. A schedule is any list of
    turns. \<open>Sessions_Env\<close>: invariants of descriptors and of the load balancer; \<open>Sessions_Streams\<close>: what the
    sessions exchange; \<open>Sessions_Pace\<close>: a potential that pays for
    every turn, hence how many turns they take under every schedule; \<open>Sessions_Progress\<close>: that a session
    which is given turns never faults and ends unless it waits for its peers. \<open>Sessions_Theorems\<close>. \<open>Schedule\<close> has the
    schedules themselves, for any kind of task.
  \<^item> \<open>Protocol\<close>: \<open>interface/CProtocolSocket.h\<close>, \<open>.cpp\<close> and \<open>protocol-handlers/\<close>. \<open>Protocol_Sessions\<close>: all
    sessions of one protocol server under a schedule; \<open>Protocol_Conversations\<close>: what they answer.
    \<open>Protocol_Theorems\<close>.
  \<^item> \<open>Tls\<close>, \<open>Tls_Client\<close>: \<open>socket/SSLSocket.cpp\<close> and \<open>socket/CClientSSLSocket.cpp\<close>, over OpenSSL as a
    parameter. \<open>Tls_Env\<close>: the contracts of OpenSSL as the locales \<open>tls_env\<close> and \<open>tls_stream\<close>;
    \<open>Tls_Server\<close>: those of a server, and the sockets on accepted connections. \<open>Tls_Theorems\<close>.
  \<^item> \<open>Socket_Dispatch\<close>: the virtual functions of \<open>socket/Socket.h\<close> and what each derived class overrides.
    \<open>Tls_Interface_Theorems\<close>: TLS sockets behind a \<open>Socket *\<close>.
  \<^item> This theory: properties that span components.

  \<^bold>\<open>Conventions.\<close> Objects are records, their C++ pointers the fields of type \<open>slot\<close>; the outside world
  is one value of a type parameter, threaded through. A result \<open>Inl\<close> is undefined behaviour of the
  code (an access outside an object, a dead or unset pointer, an invalid \<open>free\<close>), \<open>Throw\<close> an exception
  derived from \<open>std::exception\<close>, and \<open>None\<close> of a loop that it does not return: the loops that depend on
  the outside world are partial functions without fuel. That the loops of a socket return is a theorem;
  that of a proxy session returns or waits for its peers for ever, polling \<open>select\<close>, and the theorems say
  which. Loops that
  never end by design, the listener's, are modelled by their first \<open>n\<close> rounds, for every \<open>n\<close>. In
  \<open>Sessions\<close> and \<open>Protocol_Sessions\<close> a turn is atomic: the calls of the handler and of the load balancer
  do not overlap, which the code leaves to those two classes. Bounds are those of the
  code: buffers of 1024, 32,000, 255 and 32 bytes, 1024 descriptors in an \<open>fd_set\<close>.

  \<^bold>\<open>Interfaces.\<close> Each locale is what one component relies on another for: \<open>posix\<close> and its extensions,
  \<open>fd_table\<close>, \<open>byte_source\<close> (given by plain and by TLS sockets), \<open>accepting\<close> (given by connections to the
  pool), \<open>client_env\<close>, \<open>tcp_env\<close>, \<open>proxy_env\<close>, \<open>relay\<close> (given by both proxies), \<open>relay_session\<close>,
  \<open>serving_env\<close>, \<open>serving_streams\<close> and \<open>selecting_streams\<close> (what all sessions of a proxy run on),
  \<open>protocol_env\<close>, \<open>protocol_serving_env\<close>, \<open>tls_env\<close>, \<open>tls_server_env\<close> and \<open>tls_stream\<close>. All are interpreted.

  \<^bold>\<open>Not modelled.\<close> The console output, and the branches for Windows: \<open>make_nonblocking\<close> of
  \<open>socket/Socket.cpp\<close> names an undeclared variable there, so they are not a program. Code that is not in
  the repository is a parameter: the thread pool, \<open>ProtocolHelper\<close>, \<open>NetworkUtils\<close>, the load balancer, the
  pipeline functions, libuv, OpenSSL, and the handlers, among them \<open>CHttpProtocolHandler::HandleData\<close>,
  which is only declared here. Operations of a pool are atomic, since each holds its mutex. What is left
  of the sources are licences, includes, declarations and comments.

  \<^bold>\<open>Left out on purpose.\<close> Overlapping calls of one handler or one load balancer, and weak memory: both
  depend on classes that are not here, and are beyond a model of atomic turns.
\<close>

section \<open>From the listener to the end of the session\<close>

text \<open>C2: A connection from its acceptance to the end of its task. A round of a proxy's listener has accepted a
  connection, the handler is set, the target can be reached, and the conditions of a session hold: the
  handler never throws on the empty string and answers less than \<open>2 ^ 31\<close> bytes, the two descriptors are
  distinct and below \<open>FD_SETSIZE\<close>, a peer sends finitely many bytes, \<open>recv\<close> fails only finitely often
  on a descriptor, the calls on one descriptor leave the streams of the others alone, and \<open>select\<close>
  reports no other descriptors than it was asked for. Then the task that the round pushed either returns, or from
  some round of its loop on \<open>select\<close> never again reports any of the two descriptors. If it returns, it has
  relayed between the accepted connection and the target as a session does, until one of the two
  delivered nothing; and both descriptors, neither of which was open before the round, are still open:
  the accepted one, and one more for the target.
\<close>

theorem accepted_connection_is_relayed_and_left_open:
  assumes "relay_session os inp out fails complete ph c (sock_fd target)"
    and "proxy_env os opened create_hostent hp"
    and "listen_round os ip i this h w = Inr (Ret d, h1, w1)" and "client_port d = Some c"
    and "m_handler this = Some ph"
    and "connect_target os create_hostent bal (loadBalancer this) h1 w1 = Inr (Ret target, lb, h2, w2)"
  shows "case ClientThreadProc (Proxy_ThreadHandler os create_hostent hp bal) d (this, x, h1, w1) of
      Some q \<Rightarrow> \<exists>x' w' tr t. q = Inr (this\<lparr>loadBalancer := lb\<rparr>, x', h2, w') \<and>
        relayed complete ph inp out c (sock_fd target) tr (x, set_options hp c (sock_fd target) w2) (x', w') \<and>
        (\<exists>dir put. (dir, [], put) \<in> set tr) \<and>
        c \<notin> opened w \<and> t \<notin> opened w \<and> t \<noteq> c \<and> opened w' = {t, c} \<union> opened w
    | None \<Rightarrow> \<exists>f. spins (proxy_round os ph c (sock_fd target)) (idle_round os c (sock_fd target))
        (x, set_options hp c (sock_fd target) w2) f"
proof -
  have env: "client_env os opened create_hostent" by (rule proxy_env.axioms(1) [OF assms(2)])
  obtain s where s: "client_port d = Some s" "s \<notin> opened w" "opened w1 = insert s (opened w)"
    "cd_client_socket d = Ptr \<lparr>sock_fd = s, refCounter = next_counter h\<rparr>"
    using fd_table.listen_round_opened [OF client_env.axioms(1) [OF env] assms(3)] by auto
  have c: "s = c" using s(1) assms(4) by simp
  have "relay_session os inp out fails complete ph (sock_fd \<lparr>sock_fd = s, refCounter = next_counter h\<rparr>) (sock_fd target)"
    using assms(1) c by simp
  note session = handler_session [OF this assms(5,6) s(4), where hp = hp and x = x, unfolded Socket.select_convs c]
  show ?thesis
  proof (cases "Proxy_ThreadHandler os create_hostent hp bal d (this, x, h1, w1)")
    case None
    then show ?thesis using session by (auto simp: ClientThreadProc_def)
  next
    case (Some q)
    from session [unfolded Some option.case] obtain x' w' tr where
      q: "q = Inr (Ret (), this\<lparr>loadBalancer := lb\<rparr>, x', h2, w')" and
      relays: "relayed complete ph inp out c (sock_fd target) tr (x, set_options hp c (sock_fd target) w2) (x', w')"
        "\<exists>dir put. (dir, [], put) \<in> set tr" by blast
    note r = Some [unfolded q] relays
    obtain t where "t \<notin> opened w1" "opened w' = insert t (opened w1)"
      using proxy_env.session_opened [OF assms(2) r(1)] assms(5) by auto
    then have "c \<notin> opened w \<and> t \<notin> opened w \<and> t \<noteq> c \<and> opened w' = {t, c} \<union> opened w"
      using s(2,3) c by auto
    moreover have "ClientThreadProc (Proxy_ThreadHandler os create_hostent hp bal) d (this, x, h1, w1) =
        Some (Inr (this\<lparr>loadBalancer := lb\<rparr>, x', h2, w'))"
      by (simp add: ClientThreadProc_def r(1))
    ultimately show ?thesis using r(2,3) by auto
  qed
qed

theorem accepted_connection_is_relayed_and_left_open_witness:
  "\<exists>d h1 w1 x' h2 w' t. listen_round sim_full (\<lambda>a. ''0.0.0.0'') \<lparr>node_info = [], node_mode = 1\<rparr> sample_proxy empty_heap
      (sample_world\<lparr>k_open := {}, k_accept := [9]\<rparr>) = Inr (Ret d, h1, w1) \<and>
    ClientThreadProc (Proxy_ThreadHandler sim_full sim_hostent no_options counting_balancer) d (sample_proxy, 0, h1, w1) =
      Some (Inr (sample_proxy\<lparr>loadBalancer := Ptr 1\<rparr>, x', h2, w')) \<and> k_open w' = {t, 9} \<and> t \<noteq> 9"
proof -
  let ?w = "sample_world\<lparr>k_open := {}, k_accept := [9]\<rparr>" and ?w1 = "sample_world\<lparr>k_accept := [], k_open := {9}\<rparr>"
  have "strcpy REMOTE_ADDR_SIZE ''0.0.0.0'' = Inr ''0.0.0.0''"
    by (simp add: strcpy_def REMOTE_ADDR_SIZE_def)
  then obtain d h1 where l: "listen_round sim_full (\<lambda>a. ''0.0.0.0'') \<lparr>node_info = [], node_mode = 1\<rparr> sample_proxy
      empty_heap ?w = Inr (Ret d, h1, ?w1)" "client_port d = Some 9"
    using sim_listen_round [of sim_full ?w 9 "[]" "\<lambda>a. ''0.0.0.0''" sample_proxy] by (fastforce simp: sim_full_def)
  obtain target h2 w2 where t: "connect_target sim_full sim_hostent counting_balancer (Ptr 0) h1 ?w1 =
      Inr (Ret target, Ptr 1, h2, w2)" "sock_fd target = 3"
    using sim_connect [of ?w1 h1] by (auto simp: sample_world_def boot_def)
  have session: "relay_session sim_full sim_in sim_out sim_fails True pass_through 9 (sock_fd target)"
    using sim_session.relay_session_axioms t(2) by simp
  have m: "m_handler sample_proxy = Some pass_through"
    "connect_target sim_full sim_hostent counting_balancer (loadBalancer sample_proxy) h1 ?w1 =
      Inr (Ret target, Ptr 1, h2, w2)" using t(1) by (simp_all add: sample_proxy_def)
  have no_wait: "\<not> spins r (idle_round sim_full 9 3) v f" for r v and f :: "nat \<Rightarrow> nat \<times> kernel"
    using spins_waits [of r "idle_round sim_full 9 3" v f] sim_never_idle sim_session.distinct by blast
  obtain x' w' s where
    "ClientThreadProc (Proxy_ThreadHandler sim_full sim_hostent no_options counting_balancer) d (sample_proxy, 0, h1, ?w1) =
      Some (Inr (sample_proxy\<lparr>loadBalancer := Ptr 1\<rparr>, x', h2, w'))" "k_open w' = {s, 9}" "s \<noteq> 9"
    using accepted_connection_is_relayed_and_left_open [OF session sim_full.proxy_env_axioms l m, where x = 0]
    by (auto simp: t(2) no_wait split: option.splits)
  with l(1) show ?thesis by blast
qed

section \<open>From the configuration to the requests\<close>

text \<open>C22: The load of a started proxy is balanced over its configuration. If \<open>Start\<close> returned and the proxy has a
  handler, then however the listener and the tasks are scheduled, and however many connections to
  targets failed, the load balancer is at every moment the new one of the configured strategy, given
  every configured service in order, after exactly one request for every task that has begun, one after
  the other: no request is lost or made twice. (Without a handler a task ends before it asks.)
\<close>

theorem started_proxy_balances_its_configuration:
  assumes "Proxy_Start (site_os E) (site_balancer E) identifier this w = Inr (q, this', w1)" and "m_handler this \<noteq> None"
    and "serve E ts (started this' x h w1) = Some (Inr (r, s))"
  shows "loadBalancer (sv_proxy s) =
    Ptr (((\<lambda>l. snd (requestServer (site_balancer E) l)) ^^ length (filter begun (sv_tasks s)))
      (fold (addServer (site_balancer E)) (m_configValues this)
        (new_balancer (site_balancer E) (loadBalancerStrategy this))))"
  using run_asked [OF assms(3)] proxy_started [OF assms(1)] assms(2) by (simp add: asked_def requests_def)

theorem started_proxy_balances_its_configuration_witness:
  "\<exists>this' s. Proxy_Start sim_full counting_balancer ''node'' pass_proxy two_clients = Inr (Ret True, this', two_clients) \<and>
     serve sim_site [Listener, Listener, Task 0, Task 1] (started this' () empty_heap two_clients) = Some (Inr (Ret (), s)) \<and>
     loadBalancer (sv_proxy s) = Ptr 2"
proof -
  have "strcpy NODE_INFO_SIZE ''node'' = Inr ''node''" by (simp add: strcpy_def NODE_INFO_SIZE_def)
  moreover obtain lb hosts where l: "fold (load_service counting_balancer) [sample_service] (0, Map.empty) = (lb, hosts)"
    by fastforce
  moreover have "lb = 0" using l by (simp add: load_service_def counting_balancer_def)
  ultimately obtain this' :: "(unit, unit \<times> nat, unit, nat) CProxySocket" where
    p: "Proxy_Start sim_full counting_balancer ''node'' pass_proxy two_clients = Inr (Ret True, this', two_clients)" and
    f: "sock_fd this' = 4" "m_handler this' = Some session_pass" "loadBalancer this' = Ptr 0"
    by (simp add: Proxy_Start_def Server_Open_def StartListeningThread_def sim_full_def sim_def Let_def pass_proxy_def
        two_clients_def boot_def GetConfigValues_def counting_balancer_def)
  obtain s a b where s: "serve sim_site [Listener, Listener, Task 0, Task 1] (started this' () empty_heap two_clients) =
      Some (Inr (Ret (), s))" "sv_tasks s = [Relaying a, Relaying b]"
    using f by (simp add: site_eval)
  have E: "site_os sim_site = sim_full" "site_balancer sim_site = counting_balancer" by (simp_all add: sim_site_def)
  have "m_handler (pass_proxy :: (unit, unit \<times> nat, unit, nat) CProxySocket) \<noteq> None" by (simp add: pass_proxy_def)
  from started_proxy_balances_its_configuration [of sim_site, unfolded E, OF p this s(1)] s(2)
  have "loadBalancer (sv_proxy s) = Ptr 2"
    by (simp add: counting_balancer_def pass_proxy_def)
  with p s(1) show ?thesis by blast
qed

end
